(* ===== verification/Prelude.thy ===== *)
theory Prelude
  imports Main "HOL-Library.Word" "HOL-Library.AList"
begin

text \<open>
  Shared vocabulary of the development: the machine integers of the Go host as words
  (\<open>uint8\<close>, \<open>uint16\<close>, \<open>uint32\<close>, \<open>uint64\<close>, \<open>int32\<close>; signed values are read with
  \<^const>\<open>sint\<close>), Go byte slices and strings, little- and big-endian words, and the lemmas on
  lists, association lists and words that the component theories share.

  A Go \<open>[]byte\<close> is a list of 8-bit words, a Go \<open>string\<close> an Isabelle \<open>string\<close> (a list of
  8-bit characters, so that a Go string holding arbitrary bytes is representable).
\<close>

unbundle bit_operations_syntax

named_theorems host_defs \<open>definitions of the host imports, unfolded together\<close>

type_synonym u8 = "8 word"
type_synonym u16 = "16 word"
type_synonym u32 = "32 word"
type_synonym u64 = "64 word"
type_synonym i32 = "32 word"
type_synonym i64 = "64 word"
type_synonym bytes = "8 word list"

section \<open>Strings and byte slices\<close>

definition bytes_of_string :: "string \<Rightarrow> bytes" where
  "bytes_of_string s = map of_char s"

definition string_of_bytes :: "bytes \<Rightarrow> string" where
  "string_of_bytes b = map (\<lambda>w. char_of (unat w)) b"

lemma length_bytes_of_string [simp]: "length (bytes_of_string s) = length s"
  by (simp add: bytes_of_string_def)

lemma bytes_of_string_Nil_iff [simp]: "bytes_of_string s = [] \<longleftrightarrow> s = []"
  by (simp add: bytes_of_string_def)

lemma length_string_of_bytes [simp]: "length (string_of_bytes b) = length b"
  by (simp add: string_of_bytes_def)

lemma unat_of_char_byte: "unat (of_char c :: 8 word) = of_char c"
proof -
  have "(of_char c :: 8 word) = of_nat (of_char c)"
    by (simp add: of_nat_of_char)
  then have "unat (of_char c :: 8 word) = of_char c mod 256"
    by (simp only: unat_of_nat) simp
  then show ?thesis by simp
qed

lemma string_of_bytes_of_string [simp]: "string_of_bytes (bytes_of_string s) = s"
  by (simp add: string_of_bytes_def bytes_of_string_def unat_of_char_byte o_def)

lemma byte_of_char_of: "of_char (char_of (unat (w :: 8 word))) = w"
proof -
  have "unat w < 256" by (rule order.strict_trans2 [OF unsigned_less]) simp
  then have "of_char (char_of (unat w)) = unat w" by simp
  then have "unat (of_char (char_of (unat w)) :: 8 word) = unat w"
    by (simp only: unat_of_char_byte)
  then show ?thesis by (simp only: word_unat_eq_iff)
qed

lemma bytes_of_string_of_bytes [simp]: "bytes_of_string (string_of_bytes b) = b"
  by (simp add: string_of_bytes_def bytes_of_string_def byte_of_char_of map_idI)

section \<open>Fixed-width encodings\<close>

text \<open>\<open>binary.LittleEndian.Uint32\<close> and \<open>PutUint32\<close>, \<open>PutUint64\<close>, \<open>binary.BigEndian.Uint16\<close>.\<close>

definition le32 :: "bytes \<Rightarrow> u32" where
  "le32 b = (ucast (b ! 0) OR push_bit 8 (ucast (b ! 1))
             OR push_bit 16 (ucast (b ! 2)) OR push_bit 24 (ucast (b ! 3)))"

definition put_le32 :: "u32 \<Rightarrow> bytes" where
  "put_le32 v = [ucast v, ucast (drop_bit 8 v), ucast (drop_bit 16 v), ucast (drop_bit 24 v)]"

definition put_le64 :: "u64 \<Rightarrow> bytes" where
  "put_le64 v = map (\<lambda>i. ucast (drop_bit (8 * i) v)) [0..<8]"

definition be16 :: "bytes \<Rightarrow> u16" where
  "be16 b = (ucast (b ! 1) OR push_bit 8 (ucast (b ! 0)))"

lemma length_put_le32 [simp]: "length (put_le32 v) = 4"
  by (simp add: put_le32_def)

lemma length_put_le64 [simp]: "length (put_le64 v) = 8"
  by (simp add: put_le64_def)

lemma le32_put_le32 [simp]: "le32 (put_le32 v) = v"
proof (rule bit_word_eqI)
  fix n assume "n < LENGTH(32)"
  then have "n < 8 \<or> (8 \<le> n \<and> n < 16) \<or> (16 \<le> n \<and> n < 24) \<or> (24 \<le> n \<and> n < 32)"
    by auto
  then show "bit (le32 (put_le32 v)) n = bit v n"
    by (elim disjE) (auto simp add: le32_def put_le32_def bit_simps)
qed

text \<open>
  Big-endian numbers: \<open>big.Int.SetBytes\<close>, and the byte arrays of \<open>netip.AddrFrom4\<close>,
  \<open>AddrFrom16\<close>, \<open>As4\<close> and \<open>As16\<close>.
\<close>

definition be_nat :: "bytes \<Rightarrow> nat" where
  "be_nat b = foldl (\<lambda>acc x. acc * 256 + unat x) 0 b"

fun nat_be :: "nat \<Rightarrow> nat \<Rightarrow> bytes" where
  "nat_be 0 v = []"
| "nat_be (Suc k) v = nat_be k (v div 256) @ [of_nat (v mod 256)]"

lemma length_nat_be [simp]: "length (nat_be k v) = k"
  by (induction k arbitrary: v) auto

lemma unat_byte_lt [simp]: "unat (x :: 8 word) < 256"
  by (rule order.strict_trans2 [OF unsigned_less]) simp

lemma be_nat_Nil [simp]: "be_nat [] = 0"
  by (simp add: be_nat_def)

lemma be_nat_snoc [simp]: "be_nat (b @ [x]) = be_nat b * 256 + unat x"
  by (simp add: be_nat_def)

lemma be_nat_append: "be_nat (xs @ ys) = be_nat xs * 256 ^ length ys + be_nat ys"
  by (induction ys rule: rev_induct) (simp_all add: algebra_simps flip: append_assoc)

lemma find_skip: "list_all (\<lambda>c. \<not> P c) xs \<Longrightarrow> find P (xs @ ys) = find P ys"
  by (induction xs) auto

lemma be_nat_nat_be: "be_nat (nat_be k v) = v mod 256 ^ k"
proof (induction k arbitrary: v)
  case 0
  show ?case by simp
next
  case (Suc k)
  have "unat (of_nat (v mod 256) :: 8 word) = v mod 256"
    by (simp add: unat_of_nat)
  moreover have "v mod (256 * 256 ^ k) = 256 * (v div 256 mod 256 ^ k) + v mod 256"
    by (simp add: mod_mult2_eq)
  ultimately show ?case by (simp add: Suc.IH)
qed

lemma nat_be_be_nat: "nat_be (length b) (be_nat b) = b"
  by (induction b rule: rev_induct) simp_all

lemma be_nat_less: "be_nat b < 256 ^ length b"
proof (induction b rule: rev_induct)
  case Nil
  show ?case by simp
next
  case (snoc x b)
  have "be_nat b * 256 + unat x < (be_nat b + 1) * 256"
    using unat_byte_lt [of x] unfolding distrib_right by simp
  also have "\<dots> \<le> 256 ^ length b * 256"
    using snoc by (intro mult_le_mono1) simp
  finally show ?case by simp
qed

section \<open>Association lists as Go maps\<close>

text \<open>
  A Go map is an association list with distinct keys: \<open>len\<close> is its length, a lookup is
  \<^const>\<open>map_of\<close>, an assignment \<^const>\<open>AList.update\<close> and \<open>delete\<close> is
  \<^const>\<open>AList.delete\<close>.
\<close>

lemma length_update_absent:
  "map_of m k = None \<Longrightarrow> length (AList.update k v m) = Suc (length m)"
  by (induction m) (auto split: if_splits)

lemma length_update_present:
  "map_of m k \<noteq> None \<Longrightarrow> length (AList.update k v m) = length m"
  by (induction m) (auto split: if_splits)

lemma length_update_le: "length (AList.update k v m) \<le> Suc (length m)"
  by (cases "map_of m k") (simp_all add: length_update_absent length_update_present)

lemma gomap_lookup_delete: "map_of (AList.delete k m) k' = (if k = k' then None else map_of m k')"
  by (simp add: AList.delete_conv)

lemma gomap_lookup_update: "map_of (AList.update k v m) k' = (if k = k' then Some v else map_of m k')"
  by (simp add: AList.update_conv)

lemmas gomap_simps [simp] = gomap_lookup_delete gomap_lookup_update

section \<open>Heaps as lists\<close>

text \<open>
  A heap of objects allocated by appending: a pointer is an index. Only in-range pointers are
  ever dereferenced, which the state invariants record.
\<close>

definition upd :: "'a list \<Rightarrow> nat \<Rightarrow> ('a \<Rightarrow> 'a) \<Rightarrow> 'a list" where
  "upd h p f = h[p := f (h ! p)]"

lemma length_upd [simp]: "length (upd h p f) = length h"
  by (simp add: upd_def)

lemma nth_upd: "q < length h \<Longrightarrow> upd h p f ! q = (if p = q then f (h ! q) else h ! q)"
  by (auto simp: upd_def)

lemma nth_upd_same [simp]: "p < length h \<Longrightarrow> upd h p f ! p = f (h ! p)"
  by (simp add: upd_def)

lemma nth_upd_other [simp]: "p \<noteq> q \<Longrightarrow> upd h p f ! q = h ! q"
  by (simp add: upd_def)

end
