(* ===== verification/GoErrors.thy ===== *)
theory GoErrors
  imports Prelude
begin

text \<open>
  Go error values and their mapping to WASI errno numbers (\<open>errno.go\<close>, and the error types of
  \<open>unbound.go\<close> and \<open>runtime.go\<close>).

  An error is a value of \<open>goerr\<close>: the sentinel errors the host tests for, the package's own
  error structs, and the wrappers of the standard library (\<open>fmt.Errorf\<close> with \<open>%w\<close>,
  \<open>net.OpError\<close>, \<open>errors.Join\<close>). \<open>errors.As\<close> and \<open>errors.Is\<close> walk the tree in
  depth-first pre-order, as the standard library documents.
\<close>

section \<open>The error types of the package\<close>

text \<open>\<open>EDE\<close> and \<open>Query\<close>, which the error values carry.\<close>

record EDE =
  Code :: u16
  Text :: string

record Query =
  QName :: string
  QType :: u16

text \<open>The \<open>syscall.Errno\<close> values \<open>wasiErrno\<close> names; every other number is \<open>SysOther\<close>.\<close>

datatype sys_errno =
    SysEACCES | SysEADDRINUSE | SysEADDRNOTAVAIL | SysEAGAIN | SysEBADF | SysECONNREFUSED
  | SysECONNRESET | SysEHOSTUNREACH | SysEINVAL | SysENETUNREACH | SysENOTCONN | SysEPIPE
  | SysETIMEDOUT | SysOther nat

datatype goerr =
    ErrNew string                      \<comment> \<open>\<open>errors.New\<close>\<close>
  | ErrWrapf string goerr              \<comment> \<open>\<open>fmt.Errorf\<close> with \<open>%w\<close>, and other one-error wrappers\<close>
  | ErrErrno string i32                \<comment> \<open>\<open>fmt.Errorf("... wasi errno %d")\<close>\<close>
  | ErrSys sys_errno                   \<comment> \<open>\<open>syscall.Errno\<close>\<close>
  | ErrOp goerr                        \<comment> \<open>\<open>*net.OpError\<close>, with its \<open>Err\<close> field\<close>
  | ErrDeadlineExceeded                \<comment> \<open>\<open>context.DeadlineExceeded\<close>\<close>
  | ErrCanceled                        \<comment> \<open>\<open>context.Canceled\<close>\<close>
  | ErrNetTimeout                      \<comment> \<open>the \<open>net\<close> timeout error, which \<open>Is\<close> DeadlineExceeded\<close>
  | ErrNetClosed                       \<comment> \<open>\<open>net.ErrClosed\<close>\<close>
  | ErrEOF                             \<comment> \<open>\<open>io.EOF\<close>\<close>
  | ErrClosed                          \<comment> \<open>\<open>unbound.ErrClosed\<close>\<close>
  | errEventQueueOverflow
  | BogusError string "EDE list"
  | ResponseError int "EDE list"
  | QueryError Query goerr
  | ErrJoin "goerr list"

section \<open>errors.As and errors.Is\<close>

fun errors_As :: "(goerr \<Rightarrow> 'a option) \<Rightarrow> goerr \<Rightarrow> 'a option"
  and errors_As_list :: "(goerr \<Rightarrow> 'a option) \<Rightarrow> goerr list \<Rightarrow> 'a option" where
  "errors_As f e =
     (case f e of Some x \<Rightarrow> Some x
      | None \<Rightarrow> (case e of
            ErrWrapf _ e' \<Rightarrow> errors_As f e'
          | ErrOp e' \<Rightarrow> errors_As f e'
          | QueryError _ e' \<Rightarrow> errors_As f e'
          | ErrJoin es \<Rightarrow> errors_As_list f es
          | _ \<Rightarrow> None))"
| "errors_As_list f [] = None"
| "errors_As_list f (e # es) =
     (case errors_As f e of Some x \<Rightarrow> Some x | None \<Rightarrow> errors_As_list f es)"

declare errors_As.simps [simp del]

text \<open>The targets the package looks for.\<close>

definition as_OpError :: "goerr \<Rightarrow> goerr option" where
  "as_OpError e = (case e of ErrOp e' \<Rightarrow> Some e' | _ \<Rightarrow> None)"

definition as_Errno :: "goerr \<Rightarrow> sys_errno option" where
  "as_Errno e = (case e of ErrSys n \<Rightarrow> Some n | _ \<Rightarrow> None)"

definition as_QueryError :: "goerr \<Rightarrow> (Query \<times> goerr) option" where
  "as_QueryError e = (case e of QueryError q e' \<Rightarrow> Some (q, e') | _ \<Rightarrow> None)"

definition errors_Is :: "goerr \<Rightarrow> goerr \<Rightarrow> bool" where
  "errors_Is e target =
     (errors_As (\<lambda>e'. if e' = target \<or> e' = ErrNetTimeout \<and> target = ErrDeadlineExceeded
                       then Some () else None) e \<noteq> None)"

section \<open>wasiErrno\<close>

abbreviation (input) wasiSuccess :: i32 where "wasiSuccess \<equiv> 0"
abbreviation (input) wasiEACCES :: i32 where "wasiEACCES \<equiv> 2"
abbreviation (input) wasiEADDRINUSE :: i32 where "wasiEADDRINUSE \<equiv> 3"
abbreviation (input) wasiEADDRNOTAVAIL :: i32 where "wasiEADDRNOTAVAIL \<equiv> 4"
abbreviation (input) wasiEAFNOSUPPORT :: i32 where "wasiEAFNOSUPPORT \<equiv> 5"
abbreviation (input) wasiEAGAIN :: i32 where "wasiEAGAIN \<equiv> 6"
abbreviation (input) wasiEBADF :: i32 where "wasiEBADF \<equiv> 8"
abbreviation (input) wasiECONNREFUSED :: i32 where "wasiECONNREFUSED \<equiv> 14"
abbreviation (input) wasiECONNRESET :: i32 where "wasiECONNRESET \<equiv> 15"
abbreviation (input) wasiEFAULT :: i32 where "wasiEFAULT \<equiv> 21"
abbreviation (input) wasiEHOSTUNREACH :: i32 where "wasiEHOSTUNREACH \<equiv> 23"
abbreviation (input) wasiEINVAL :: i32 where "wasiEINVAL \<equiv> 28"
abbreviation (input) wasiEIO :: i32 where "wasiEIO \<equiv> 29"
abbreviation (input) wasiENETUNREACH :: i32 where "wasiENETUNREACH \<equiv> 40"
abbreviation (input) wasiEMFILE :: i32 where "wasiEMFILE \<equiv> 41"
abbreviation (input) wasiENOSYS :: i32 where "wasiENOSYS \<equiv> 52"
abbreviation (input) wasiENOTCONN :: i32 where "wasiENOTCONN \<equiv> 53"
abbreviation (input) wasiEPIPE :: i32 where "wasiEPIPE \<equiv> 64"
abbreviation (input) wasiETIMEDOUT :: i32 where "wasiETIMEDOUT \<equiv> 73"

fun wasi_of_sys :: "sys_errno \<Rightarrow> i32" where
  "wasi_of_sys SysEACCES = wasiEACCES"
| "wasi_of_sys SysEADDRINUSE = wasiEADDRINUSE"
| "wasi_of_sys SysEADDRNOTAVAIL = wasiEADDRNOTAVAIL"
| "wasi_of_sys SysEAGAIN = wasiEAGAIN"
| "wasi_of_sys SysEBADF = wasiEBADF"
| "wasi_of_sys SysECONNREFUSED = wasiECONNREFUSED"
| "wasi_of_sys SysECONNRESET = wasiECONNRESET"
| "wasi_of_sys SysEHOSTUNREACH = wasiEHOSTUNREACH"
| "wasi_of_sys SysEINVAL = wasiEINVAL"
| "wasi_of_sys SysENETUNREACH = wasiENETUNREACH"
| "wasi_of_sys SysENOTCONN = wasiENOTCONN"
| "wasi_of_sys SysEPIPE = wasiEPIPE"
| "wasi_of_sys SysETIMEDOUT = wasiETIMEDOUT"
| "wasi_of_sys (SysOther n) = wasiEIO"

text \<open>The argument is a Go \<open>error\<close>, \<^const>\<open>None\<close> for nil.\<close>

definition wasiErrno :: "goerr option \<Rightarrow> i32" where
  "wasiErrno err =
     (case err of None \<Rightarrow> wasiSuccess
      | Some e \<Rightarrow>
        (let e = (case errors_As as_OpError e of Some op \<Rightarrow> op | None \<Rightarrow> e) in
         case errors_As as_Errno e of Some n \<Rightarrow> wasi_of_sys n
         | None \<Rightarrow>
             if errors_Is e ErrDeadlineExceeded then wasiETIMEDOUT
             else if errors_Is e ErrNetClosed then wasiEBADF
             else wasiEIO))"

section \<open>Facts about wasiErrno\<close>

definition wasi_errnos :: "i32 set" where
  "wasi_errnos = {wasiEACCES, wasiEADDRINUSE, wasiEADDRNOTAVAIL, wasiEAFNOSUPPORT, wasiEAGAIN,
     wasiEBADF, wasiECONNREFUSED, wasiECONNRESET, wasiEFAULT, wasiEHOSTUNREACH, wasiEINVAL,
     wasiEIO, wasiENETUNREACH, wasiEMFILE, wasiENOSYS, wasiENOTCONN, wasiEPIPE, wasiETIMEDOUT}"

lemma wasi_of_sys_errnos: "wasi_of_sys n \<in> wasi_errnos"
  by (cases n) (simp_all add: wasi_errnos_def)

lemma wasiErrno_errnos: "wasiErrno (Some e) \<in> wasi_errnos"
  by (auto simp: wasiErrno_def Let_def wasi_of_sys_errnos split: option.splits)
     (simp_all add: wasi_errnos_def)

lemma wasi_errnos_sint: "r \<in> wasi_errnos \<Longrightarrow> 0 < sint r \<and> sint (- r) < 0"
  by (auto simp: wasi_errnos_def)

lemma wasiErrno_neg: "sint (- wasiErrno (Some e)) < 0"
  using wasi_errnos_sint [OF wasiErrno_errnos] by blast

text \<open>
  On a chain of one-error wrappers (no \<^const>\<open>ErrJoin\<close>) the detour through \<open>op.Err\<close> changes
  nothing: the errno found is the first one of the whole chain.
\<close>

fun linear :: "goerr \<Rightarrow> bool" where
  "linear (ErrWrapf _ e) = linear e"
| "linear (ErrOp e) = linear e"
| "linear (QueryError _ e) = linear e"
| "linear (ErrJoin _) = False"
| "linear _ = True"

lemma errors_As_wrap [simp]:
  "errors_As f (ErrWrapf s e) = (case f (ErrWrapf s e) of Some x \<Rightarrow> Some x | None \<Rightarrow> errors_As f e)"
  "errors_As f (ErrOp e) = (case f (ErrOp e) of Some x \<Rightarrow> Some x | None \<Rightarrow> errors_As f e)"
  "errors_As f (QueryError q e) = (case f (QueryError q e) of Some x \<Rightarrow> Some x | None \<Rightarrow> errors_As f e)"
  "errors_As f (ErrJoin es) = (case f (ErrJoin es) of Some x \<Rightarrow> Some x | None \<Rightarrow> errors_As_list f es)"
  by (simp_all add: errors_As.simps [of f "ErrWrapf s e"] errors_As.simps [of f "ErrOp e"]
        errors_As.simps [of f "QueryError q e"] errors_As.simps [of f "ErrJoin es"]
        split: option.split)

lemma errors_As_leaf [simp]:
  "errors_As f (ErrNew s) = f (ErrNew s)"
  "errors_As f (ErrErrno s n) = f (ErrErrno s n)"
  "errors_As f (ErrSys x) = f (ErrSys x)"
  "errors_As f ErrDeadlineExceeded = f ErrDeadlineExceeded"
  "errors_As f ErrCanceled = f ErrCanceled"
  "errors_As f ErrNetTimeout = f ErrNetTimeout"
  "errors_As f ErrNetClosed = f ErrNetClosed"
  "errors_As f ErrEOF = f ErrEOF"
  "errors_As f ErrClosed = f ErrClosed"
  "errors_As f errEventQueueOverflow = f errEventQueueOverflow"
  "errors_As f (BogusError r es) = f (BogusError r es)"
  "errors_As f (ResponseError c es) = f (ResponseError c es)"
  by (simp_all add: errors_As.simps split: option.splits)

lemma as_targets [simp]:
  "as_OpError (ErrOp e) = Some e" "as_OpError (ErrWrapf s e) = None"
  "as_OpError (QueryError q e) = None" "as_OpError (ErrJoin es) = None"
  "as_Errno (ErrSys n) = Some n" "as_Errno (ErrWrapf s e) = None" "as_Errno (ErrOp e) = None"
  "as_Errno (QueryError q e) = None" "as_Errno (ErrJoin es) = None"
  by (simp_all add: as_OpError_def as_Errno_def)

definition not_op :: "(goerr \<Rightarrow> 'a option) \<Rightarrow> bool" where
  "not_op f \<longleftrightarrow> (\<forall>e. f (ErrOp e) = None) \<and> (\<forall>s e. f (ErrWrapf s e) = None)
                 \<and> (\<forall>q e. f (QueryError q e) = None)"

lemma errors_As_through_op:
  assumes "not_op f"
  shows "linear e \<Longrightarrow>
    errors_As f (case errors_As as_OpError e of Some op \<Rightarrow> op | None \<Rightarrow> e) = errors_As f e"
  using assms
  by (induction e rule: linear.induct) (auto simp: not_op_def as_OpError_def split: option.splits)

text \<open>The first errno of a linear chain, whatever wraps it.\<close>

fun chain_errno :: "goerr \<Rightarrow> sys_errno option" where
  "chain_errno (ErrSys n) = Some n"
| "chain_errno (ErrWrapf _ e) = chain_errno e"
| "chain_errno (ErrOp e) = chain_errno e"
| "chain_errno (QueryError _ e) = chain_errno e"
| "chain_errno _ = None"

lemma errors_As_Errno_chain: "linear e \<Longrightarrow> errors_As as_Errno e = chain_errno e"
  by (induction e rule: linear.induct) (simp_all add: as_Errno_def)

text \<open>An operating system error keeps its errno however deeply it is wrapped (by \<open>fmt.Errorf\<close>,
  \<open>net.OpError\<close> or \<open>QueryError\<close>): the guest sees the WASI errno of the innermost system error.\<close>

theorem wasiErrno_chain:
  assumes "linear e" and "chain_errno e = Some n"
  shows "wasiErrno (Some e) = wasi_of_sys n"
proof -
  have "not_op as_Errno" by (simp add: not_op_def)
  from errors_As_through_op [OF this assms(1)] assms show ?thesis
    by (simp add: wasiErrno_def Let_def errors_As_Errno_chain)
qed

theorem wasiErrno_chain_witness:
  "wasiErrno (Some (ErrOp (ErrWrapf ''dial'' (ErrSys SysECONNREFUSED)))) = wasiECONNREFUSED"
  using wasiErrno_chain [of "ErrOp (ErrWrapf ''dial'' (ErrSys SysECONNREFUSED))" SysECONNREFUSED]
  by simp

text \<open>Every error a host call can return is one of the WASI errnos of the ABI, and its negation is
  negative as an \<open>int32\<close>, so the guest cannot mistake it for a byte count or an identifier.\<close>

theorem wasiErrno_negative:
  "wasiErrno (Some e) \<in> wasi_errnos \<and> 0 < sint (wasiErrno (Some e)) \<and> sint (- wasiErrno (Some e)) < 0"
  using wasi_errnos_sint [OF wasiErrno_errnos] wasiErrno_errnos by blast

end
