(* ===== verification/Egress.thy ===== *)
theory Egress
  imports GoErrors
begin

text \<open>
  Network addresses and the egress policy: the parts of \<open>net/netip\<close> the host uses
  (\<open>Addr\<close>, \<open>AddrPort\<close>, \<open>Prefix.Contains\<close>, \<open>Unmap\<close>) and \<open>deniedNetworks\<close>,
  \<open>globalUnicastV6\<close> and \<open>egressAllowed\<close> of \<open>sockets.go\<close>. The lemmas turn the bit-level
  prefix match into intervals of the address read as an integer, and show that the policy is
  exactly an interval specification.
\<close>

section \<open>netip\<close>

text \<open>
  \<open>netip.Addr\<close>: the zero \<open>Addr\<close> is invalid; an IPv6 address carries a zone (empty for none).
\<close>

datatype addr = AddrZero | Addr4 "32 word" | Addr6 "128 word" string

record addrport =
  apAddr :: addr
  apPort :: u16

definition AddrPortFrom :: "addr \<Rightarrow> u16 \<Rightarrow> addrport" where
  "AddrPortFrom ip port = \<lparr>apAddr = ip, apPort = port\<rparr>"

definition addrIsValid :: "addr \<Rightarrow> bool" where
  "addrIsValid ip = (ip \<noteq> AddrZero)"

definition addrIs4 :: "addr \<Rightarrow> bool" where
  "addrIs4 ip = (case ip of Addr4 _ \<Rightarrow> True | _ \<Rightarrow> False)"

definition addrIs6 :: "addr \<Rightarrow> bool" where
  "addrIs6 ip = (case ip of Addr6 _ _ \<Rightarrow> True | _ \<Rightarrow> False)"

text \<open>\<open>Is4In6\<close>: the high 64 bits are zero and bits 32 to 63 are \<open>0xffff\<close>.\<close>

definition addrIs4In6 :: "addr \<Rightarrow> bool" where
  "addrIs4In6 ip = (case ip of Addr6 a _ \<Rightarrow> drop_bit 32 a = 0xffff | _ \<Rightarrow> False)"

definition Unmap :: "addr \<Rightarrow> addr" where
  "Unmap ip = (case ip of
      Addr6 a z \<Rightarrow> (if drop_bit 32 a = 0xffff then Addr4 (ucast a) else Addr6 a z)
    | _ \<Rightarrow> ip)"

datatype prefix = Prefix addr nat

text \<open>
  \<open>Prefix.Contains\<close>. An address with a zone is in no prefix, and families never mix. IPv4
  shifts the differing bits out, IPv6 masks them, as the library does.
\<close>

fun prefixContains :: "prefix \<Rightarrow> addr \<Rightarrow> bool" where
  "prefixContains (Prefix (Addr4 p) bits) (Addr4 a) =
     (bits \<le> 32 \<and> drop_bit (32 - bits) (a XOR p) = 0)"
| "prefixContains (Prefix (Addr6 p pz) bits) (Addr6 a z) =
     (pz = [] \<and> bits \<le> 128 \<and> z = [] \<and> (a XOR p) AND NOT (mask (128 - bits)) = 0)"
| "prefixContains _ _ = False"

text \<open>Dotted-quad and hextet literals, as \<open>netip.MustParsePrefix\<close> reads them.\<close>

definition ip4 :: "nat \<Rightarrow> nat \<Rightarrow> nat \<Rightarrow> nat \<Rightarrow> addr" where
  "ip4 a b c d = Addr4 (of_nat (((a * 256 + b) * 256 + c) * 256 + d))"

definition ip6 :: "nat list \<Rightarrow> addr" where
  "ip6 hs = Addr6 (of_nat (foldl (\<lambda>acc h. acc * 65536 + h) 0 hs)) []"

section \<open>The policy\<close>

definition deniedNetworks :: "prefix list" where
  "deniedNetworks = [
     Prefix (ip4 0 0 0 0) 8,
     Prefix (ip4 10 0 0 0) 8,
     Prefix (ip4 100 64 0 0) 10,
     Prefix (ip4 127 0 0 0) 8,
     Prefix (ip4 169 254 0 0) 16,
     Prefix (ip4 172 16 0 0) 12,
     Prefix (ip4 192 0 0 0) 24,
     Prefix (ip4 192 0 2 0) 24,
     Prefix (ip4 192 88 99 0) 24,
     Prefix (ip4 192 168 0 0) 16,
     Prefix (ip4 198 18 0 0) 15,
     Prefix (ip4 198 51 100 0) 24,
     Prefix (ip4 203 0 113 0) 24,
     Prefix (ip4 224 0 0 0) 4,
     Prefix (ip4 240 0 0 0) 4,
     Prefix (ip6 [0, 0, 0, 0, 0, 0, 0, 0]) 128,
     Prefix (ip6 [0, 0, 0, 0, 0, 0, 0, 1]) 128,
     Prefix (ip6 [0x64, 0xff9b, 0, 0, 0, 0, 0, 0]) 96,
     Prefix (ip6 [0x64, 0xff9b, 1, 0, 0, 0, 0, 0]) 48,
     Prefix (ip6 [0x100, 0, 0, 0, 0, 0, 0, 0]) 64,
     Prefix (ip6 [0x2001, 0, 0, 0, 0, 0, 0, 0]) 23,
     Prefix (ip6 [0x2001, 0xdb8, 0, 0, 0, 0, 0, 0]) 32,
     Prefix (ip6 [0x2002, 0, 0, 0, 0, 0, 0, 0]) 16,
     Prefix (ip6 [0x3fff, 0, 0, 0, 0, 0, 0, 0]) 20,
     Prefix (ip6 [0x5f00, 0, 0, 0, 0, 0, 0, 0]) 16,
     Prefix (ip6 [0xfc00, 0, 0, 0, 0, 0, 0, 0]) 7,
     Prefix (ip6 [0xfe80, 0, 0, 0, 0, 0, 0, 0]) 10,
     Prefix (ip6 [0xff00, 0, 0, 0, 0, 0, 0, 0]) 8]"

definition globalUnicastV6 :: prefix where
  "globalUnicastV6 = Prefix (ip6 [0x2000, 0, 0, 0, 0, 0, 0, 0]) 3"

text \<open>The loop over \<open>deniedNetworks\<close> with its early return is \<^const>\<open>list_ex\<close>.\<close>

definition egressAllowed :: "addrport \<Rightarrow> bool" where
  "egressAllowed remote =
     (if apPort remote \<noteq> 53 then False
      else let ip = Unmap (apAddr remote) in
        if \<not> addrIsValid ip then False
        else if addrIs6 ip \<and> \<not> prefixContains globalUnicastV6 ip then False
        else \<not> list_ex (\<lambda>network. prefixContains network ip) deniedNetworks)"

section \<open>Prefixes as intervals\<close>

text \<open>
  The bit-level match is integer division: two words agree on the bits above \<open>k\<close> iff their
  quotients by \<open>2 ^ k\<close> are equal.
\<close>

lemma xor_zero_iff: "(a XOR p = 0) \<longleftrightarrow> a = p" for a p :: "'w::len word"
  by (metis xor.assoc xor.right_neutral xor_self_eq xor.left_neutral)

lemma drop_bit_eq_iff:
  fixes a p :: "'w::len word"
  shows "drop_bit k a = drop_bit k p \<longleftrightarrow> uint a div 2 ^ k = uint p div 2 ^ k"
  by (simp only: word_uint_eq_iff unsigned_drop_bit_eq)
     (simp add: drop_bit_eq_div take_bit_int_eq_self uint_range_size)

lemma and_not_mask_zero_iff:
  fixes x :: "'w::len word"
  shows "x AND NOT (mask k) = 0 \<longleftrightarrow> drop_bit k x = 0"
proof -
  have "x AND NOT (mask k) = push_bit k (drop_bit k x)"
    by (rule bit_word_eqI) (auto simp: bit_simps)
  moreover have "drop_bit k (push_bit k (drop_bit k x)) = drop_bit k x"
    by (rule bit_word_eqI) (auto simp: bit_simps dest: bit_imp_le_length)
  ultimately show ?thesis
    by (metis drop_bit_of_0 push_bit_of_0)
qed

lemma div_pow2_eq_iff:
  fixes a q :: int
  shows "a div 2 ^ k = q \<longleftrightarrow> q * 2 ^ k \<le> a \<and> a < (q + 1) * 2 ^ k"
proof
  assume "a div 2 ^ k = q"
  then have "a = q * 2 ^ k + a mod 2 ^ k" by (metis div_mult_mod_eq)
  moreover have "0 \<le> a mod 2 ^ k" "a mod 2 ^ k < 2 ^ k" by simp_all
  ultimately show "q * 2 ^ k \<le> a \<and> a < (q + 1) * 2 ^ k"
    unfolding distrib_right by linarith
next
  assume "q * 2 ^ k \<le> a \<and> a < (q + 1) * 2 ^ k"
  then show "a div 2 ^ k = q"
    by (intro int_div_pos_eq [where r = "a - q * 2 ^ k"]) (auto simp: distrib_right)
qed

text \<open>The base of a canonical prefix has no bit set below its length.\<close>

lemma prefix4_range:
  assumes "bits \<le> 32" and "uint p mod 2 ^ (32 - bits) = 0"
  shows "prefixContains (Prefix (Addr4 p) bits) (Addr4 a) \<longleftrightarrow>
           uint p \<le> uint a \<and> uint a \<le> uint p + (2 ^ (32 - bits) - 1)"
proof -
  have "uint p div 2 ^ (32 - bits) * 2 ^ (32 - bits) = uint p"
    using assms(2) by (metis add.right_neutral div_mult_mod_eq)
  with assms(1) show ?thesis
    by (simp add: drop_bit_xor xor_zero_iff drop_bit_eq_iff div_pow2_eq_iff distrib_right)
       linarith
qed

lemma prefix6_range:
  assumes "bits \<le> 128" and "uint p mod 2 ^ (128 - bits) = 0"
  shows "prefixContains (Prefix (Addr6 p []) bits) (Addr6 a z) \<longleftrightarrow>
           z = [] \<and> uint p \<le> uint a \<and> uint a \<le> uint p + (2 ^ (128 - bits) - 1)"
proof -
  have "uint p div 2 ^ (128 - bits) * 2 ^ (128 - bits) = uint p"
    using assms(2) by (metis add.right_neutral div_mult_mod_eq)
  with assms(1) show ?thesis
    by (simp add: and_not_mask_zero_iff drop_bit_xor xor_zero_iff drop_bit_eq_iff
          div_pow2_eq_iff distrib_right)
       linarith
qed

section \<open>The policy as an interval specification\<close>

text \<open>
  The specification the comments state: port 53 only; an IPv4 destination outside the
  special-purpose ranges; an IPv6 destination without a zone, inside \<open>2000::/3\<close> and outside
  the special-purpose ranges of that block. An IPv4-mapped IPv6 address is the IPv4 address.
  Ranges are first and last address of the block, as integers.
\<close>

definition special4 :: "(int \<times> int) list" where
  "special4 = [
     (0x00000000, 0x00ffffff), (0x0a000000, 0x0affffff), (0x64400000, 0x647fffff),
     (0x7f000000, 0x7fffffff), (0xa9fe0000, 0xa9feffff), (0xac100000, 0xac1fffff),
     (0xc0000000, 0xc00000ff), (0xc0000200, 0xc00002ff), (0xc0586300, 0xc05863ff),
     (0xc0a80000, 0xc0a8ffff), (0xc6120000, 0xc613ffff), (0xc6336400, 0xc63364ff),
     (0xcb007100, 0xcb0071ff), (0xe0000000, 0xffffffff)]"

definition special6 :: "(int \<times> int) list" where
  "special6 = [
     (0x20010000000000000000000000000000, 0x200101ffffffffffffffffffffffffff),
     (0x20010db8000000000000000000000000, 0x20010db8ffffffffffffffffffffffff),
     (0x20020000000000000000000000000000, 0x2002ffffffffffffffffffffffffffff),
     (0x3fff0000000000000000000000000000, 0x3fff0fffffffffffffffffffffffffff)]"

definition in_ranges :: "(int \<times> int) list \<Rightarrow> int \<Rightarrow> bool" where
  "in_ranges rs x = list_ex (\<lambda>(lo, hi). lo \<le> x \<and> x \<le> hi) rs"

fun public_unicast :: "addr \<Rightarrow> bool" where
  "public_unicast AddrZero = False"
| "public_unicast (Addr4 w) = (\<not> in_ranges special4 (uint w))"
| "public_unicast (Addr6 w z) =
     (z = [] \<and> 0x20000000000000000000000000000000 \<le> uint w
      \<and> uint w \<le> 0x3fffffffffffffffffffffffffffffff \<and> \<not> in_ranges special6 (uint w))"

lemma ranges_join:
  fixes x :: int
  assumes "b + 1 = c" and "a \<le> c" and "b \<le> d"
  shows "a \<le> x \<and> x \<le> b \<or> c \<le> x \<and> x \<le> d \<longleftrightarrow> a \<le> x \<and> x \<le> d"
  using assms by linarith

lemma denied4_iff:
  "list_ex (\<lambda>network. prefixContains network (Addr4 w)) deniedNetworks \<longleftrightarrow>
     in_ranges special4 (uint w)"
  unfolding deniedNetworks_def ip4_def ip6_def in_ranges_def special4_def
  by (simp add: prefix4_range ranges_join del: prefixContains.simps(1))

lemma globalUnicastV6_iff:
  "prefixContains globalUnicastV6 (Addr6 w z) \<longleftrightarrow>
     z = [] \<and> 0x20000000000000000000000000000000 \<le> uint w
     \<and> uint w \<le> 0x3fffffffffffffffffffffffffffffff"
  unfolding globalUnicastV6_def ip6_def
  by (simp add: prefix6_range del: prefixContains.simps(2))

lemma denied6_iff:
  "prefixContains globalUnicastV6 (Addr6 w z) \<Longrightarrow>
   list_ex (\<lambda>network. prefixContains network (Addr6 w z)) deniedNetworks \<longleftrightarrow>
     in_ranges special6 (uint w)"
  unfolding globalUnicastV6_iff deniedNetworks_def ip4_def ip6_def in_ranges_def special6_def
  by (simp add: prefix6_range del: prefixContains.simps(2))

section \<open>The policy as a predicate on addresses\<close>

lemma egressAllowed_eq:
  "egressAllowed r \<longleftrightarrow> apPort r = 53 \<and> public_unicast (Unmap (apAddr r))"
proof (cases "Unmap (apAddr r)")
  case AddrZero
  then show ?thesis by (simp add: egressAllowed_def addrIsValid_def)
next
  case (Addr4 w)
  then show ?thesis by (simp add: egressAllowed_def addrIsValid_def addrIs6_def denied4_iff)
next
  case (Addr6 w z)
  show ?thesis
  proof (cases "prefixContains globalUnicastV6 (Addr6 w z)")
    case True
    with Addr6 denied6_iff [OF True] globalUnicastV6_iff [of w z] show ?thesis
      by (simp add: egressAllowed_def addrIsValid_def addrIs6_def)
  next
    case False
    with Addr6 globalUnicastV6_iff [of w z] show ?thesis
      by (auto simp: egressAllowed_def addrIsValid_def addrIs6_def)
  qed
qed

lemma public_dns_allowed: "egressAllowed (AddrPortFrom (ip4 8 8 8 8) 53)"
  by (simp add: egressAllowed_eq AddrPortFrom_def ip4_def Unmap_def addrIs4In6_def in_ranges_def
      special4_def)

section \<open>The guest's lists\<close>

text \<open>
  The resolver configuration of \<open>module.go\<close> gives the guest two address lists of its own, read
  here as the prefixes they spell.
\<close>

definition privateAddress :: "prefix list" where
  "privateAddress = [
     Prefix (ip4 192 168 0 0) 16,
     Prefix (ip4 172 16 0 0) 12,
     Prefix (ip4 10 0 0 0) 8,
     Prefix (ip4 127 0 0 0) 8,
     Prefix (ip4 0 0 0 0) 8,
     Prefix (ip4 169 254 0 0) 16,
     Prefix (ip4 192 0 0 0) 24,
     Prefix (ip4 192 0 2 0) 24,
     Prefix (ip4 198 51 100 0) 24,
     Prefix (ip4 203 0 113 0) 24,
     Prefix (ip4 192 88 99 0) 24,
     Prefix (ip4 198 18 0 0) 15,
     Prefix (ip4 224 0 0 0) 4,
     Prefix (ip4 240 0 0 0) 4,
     Prefix (ip4 255 255 255 255) 32,
     Prefix (ip4 100 64 0 0) 10,
     Prefix (ip6 [0, 0, 0, 0, 0, 0, 0, 0]) 128,
     Prefix (ip6 [0, 0, 0, 0, 0, 0, 0, 1]) 128,
     Prefix (ip6 [0, 0, 0, 0, 0, 0xffff, 0, 0]) 96,
     Prefix (ip6 [0x100, 0, 0, 0, 0, 0, 0, 0]) 64,
     Prefix (ip6 [0x2001, 0, 0, 0, 0, 0, 0, 0]) 23,
     Prefix (ip6 [0x2001, 0xdb8, 0, 0, 0, 0, 0, 0]) 32,
     Prefix (ip6 [0xfc00, 0, 0, 0, 0, 0, 0, 0]) 7,
     Prefix (ip6 [0xfe80, 0, 0, 0, 0, 0, 0, 0]) 10,
     Prefix (ip6 [0xff00, 0, 0, 0, 0, 0, 0, 0]) 8,
     Prefix (ip6 [0x64, 0xff9b, 0, 0, 0, 0, 0, 0]) 96,
     Prefix (ip6 [0x64, 0xff9b, 1, 0, 0, 0, 0, 0]) 48,
     Prefix (ip6 [0x2002, 0, 0, 0, 0, 0, 0, 0]) 16,
     Prefix (ip6 [0x3fff, 0, 0, 0, 0, 0, 0, 0]) 20,
     Prefix (ip6 [0x5f00, 0, 0, 0, 0, 0, 0, 0]) 16,
     Prefix (ip6 [0xfec0, 0, 0, 0, 0, 0, 0, 0]) 10,
     Prefix (ip6 [0, 0, 0, 0, 0, 0, 0, 0]) 96]"

definition doNotQueryAddress :: "prefix list" where
  "doNotQueryAddress = [
     Prefix (ip4 192 168 0 0) 16,
     Prefix (ip4 172 16 0 0) 12,
     Prefix (ip4 10 0 0 0) 8,
     Prefix (ip4 127 0 0 0) 8,
     Prefix (ip4 0 0 0 0) 8,
     Prefix (ip4 169 254 0 0) 16,
     Prefix (ip4 192 0 0 0) 24,
     Prefix (ip4 192 0 2 0) 24,
     Prefix (ip4 198 51 100 0) 24,
     Prefix (ip4 203 0 113 0) 24,
     Prefix (ip4 192 88 99 0) 24,
     Prefix (ip4 198 18 0 0) 15,
     Prefix (ip4 224 0 0 0) 4,
     Prefix (ip4 240 0 0 0) 4,
     Prefix (ip4 255 255 255 255) 32,
     Prefix (ip4 100 64 0 0) 10,
     Prefix (ip6 [0, 0, 0, 0, 0, 0, 0, 0]) 128,
     Prefix (ip6 [0, 0, 0, 0, 0, 0, 0, 1]) 128,
     Prefix (ip6 [0, 0, 0, 0, 0, 0xffff, 0, 0]) 96,
     Prefix (ip6 [0x100, 0, 0, 0, 0, 0, 0, 0]) 64,
     Prefix (ip6 [0x2001, 0, 0, 0, 0, 0, 0, 0]) 23,
     Prefix (ip6 [0x2001, 0xdb8, 0, 0, 0, 0, 0, 0]) 32,
     Prefix (ip6 [0xfc00, 0, 0, 0, 0, 0, 0, 0]) 7,
     Prefix (ip6 [0xfe80, 0, 0, 0, 0, 0, 0, 0]) 10,
     Prefix (ip6 [0xff00, 0, 0, 0, 0, 0, 0, 0]) 8,
     Prefix (ip6 [0x64, 0xff9b, 0, 0, 0, 0, 0, 0]) 96,
     Prefix (ip6 [0x64, 0xff9b, 1, 0, 0, 0, 0, 0]) 48,
     Prefix (ip6 [0x2002, 0, 0, 0, 0, 0, 0, 0]) 16,
     Prefix (ip6 [0x3fff, 0, 0, 0, 0, 0, 0, 0]) 20,
     Prefix (ip6 [0x5f00, 0, 0, 0, 0, 0, 0, 0]) 16,
     Prefix (ip6 [0xfec0, 0, 0, 0, 0, 0, 0, 0]) 10,
     Prefix (ip6 [0, 0, 0, 0, 0, 0, 0, 0]) 96]"

lemma guest4_iff:
  "list_ex (\<lambda>n. prefixContains n (Addr4 w)) doNotQueryAddress \<longleftrightarrow> in_ranges special4 (uint w)"
proof -
  have "list_ex (\<lambda>n. prefixContains n (Addr4 w)) doNotQueryAddress \<longleftrightarrow>
      list_ex (\<lambda>n. prefixContains n (Addr4 w)) deniedNetworks \<or>
      prefixContains (Prefix (ip4 255 255 255 255) 32) (Addr4 w)"
    unfolding doNotQueryAddress_def deniedNetworks_def ip4_def ip6_def
    by (simp del: prefixContains.simps(1)) blast
  moreover have "prefixContains (Prefix (ip4 255 255 255 255) 32) (Addr4 w) \<Longrightarrow>
      in_ranges special4 (uint w)"
    unfolding ip4_def by (simp add: prefix4_range in_ranges_def special4_def del: prefixContains.simps(1))
  ultimately show ?thesis by (auto simp: denied4_iff)
qed

lemma guest6_iff:
  "prefixContains globalUnicastV6 (Addr6 w z) \<Longrightarrow>
   list_ex (\<lambda>n. prefixContains n (Addr6 w z)) doNotQueryAddress \<longleftrightarrow> in_ranges special6 (uint w)"
  unfolding globalUnicastV6_iff doNotQueryAddress_def ip4_def ip6_def in_ranges_def special6_def
  by (simp add: prefix6_range del: prefixContains.simps(2))

section \<open>Properties\<close>

text \<open>C3: the host lets a packet out exactly to port 53 of a public unicast address, where the
  address is judged after \<open>Unmap\<close> and \<open>public_unicast\<close> is the interval specification.\<close>

theorem egressAllowed_iff:
  "egressAllowed (AddrPortFrom ip port) \<longleftrightarrow> port = 53 \<and> public_unicast (Unmap ip)"
  by (simp add: egressAllowed_eq AddrPortFrom_def)

text \<open>Writing an IPv4 destination as an IPv4-mapped IPv6 address, with or without a zone, never
  changes the decision of the policy.\<close>

theorem mapped_no_bypass:
  "egressAllowed (AddrPortFrom (Addr6 (push_bit 32 0xffff OR ucast w) z) port)
     = egressAllowed (AddrPortFrom (Addr4 w) port)"
  for w :: "32 word"
proof -
  have d: "drop_bit 32 (push_bit 32 0xffff OR ucast w :: 128 word) = 0xffff"
    by (rule bit_word_eqI) (simp add: bit_simps, auto dest: bit_imp_le_length)
  have z: "(0xffff00000000 :: 32 word) = 0"
    by (simp add: word_uint_eq_iff)
  have "ucast (push_bit 32 0xffff OR ucast w :: 128 word) = w"
    by (simp add: z unsigned_or_eq unsigned_ucast_eq take_bit_word_eq_self)
  with d show ?thesis by (simp add: egressAllowed_eq AddrPortFrom_def Unmap_def)
qed

text \<open>For every address that is not IPv4-mapped, the host policy on port 53 allows exactly the valid
  addresses (global unicast, for IPv6) that the guest's \<open>do-not-query-address\<close> list does not name, so the two layers of the policy agree.\<close>

lemma policies_agree:
  assumes "\<not> addrIs4In6 ip"
  shows "egressAllowed (AddrPortFrom ip 53) \<longleftrightarrow> addrIsValid ip
     \<and> \<not> (addrIs6 ip \<and> \<not> prefixContains globalUnicastV6 ip)
     \<and> \<not> list_ex (\<lambda>n. prefixContains n ip) doNotQueryAddress"
proof (cases ip)
  case AddrZero
  then show ?thesis by (simp add: egressAllowed_eq AddrPortFrom_def Unmap_def addrIsValid_def)
next
  case (Addr4 w)
  then show ?thesis
    by (simp add: egressAllowed_eq AddrPortFrom_def Unmap_def addrIsValid_def addrIs6_def guest4_iff)
next
  case (Addr6 w z)
  with assms have u: "Unmap ip = Addr6 w z" by (simp add: Unmap_def addrIs4In6_def)
  show ?thesis
    using guest6_iff [of w z] globalUnicastV6_iff [of w z]
    by (auto simp: egressAllowed_eq AddrPortFrom_def Addr6 u [unfolded Addr6] addrIsValid_def addrIs6_def)
qed

end
