(* ===== verification/GuestMem.thy ===== *)
theory GuestMem
  imports Egress
begin

text \<open>
  The guest's linear memory as the host sees it. wazero's \<open>api.Memory\<close> is third-party code, so
  it is a parameter: a record \<open>memops\<close> of the methods the host calls, over an arbitrary type of
  memories. The locale \<open>linear_memory\<close> states the documented behaviour of those methods
  (bounds-checked reads and writes of a byte array whose size they do not change); it is
  interpreted on \<open>flat_ops\<close>, memories that are byte lists, which is what the linear memories of
  \<open>memory_unix.go\<close> provide. The host helpers on top of it are those of \<open>host.go\<close>:
  \<open>readCopy\<close>, \<open>readAddr\<close>, \<open>writeAddr\<close> and \<open>putU32\<close>.
\<close>

record 'm memops =
  memSize :: "'m \<Rightarrow> u32"
  memRead :: "'m \<Rightarrow> u32 \<Rightarrow> u32 \<Rightarrow> bytes option"
  memWrite :: "'m \<Rightarrow> u32 \<Rightarrow> bytes \<Rightarrow> 'm option"
  memReadUint32Le :: "'m \<Rightarrow> u32 \<Rightarrow> u32 option"
  memWriteUint32Le :: "'m \<Rightarrow> u32 \<Rightarrow> u32 \<Rightarrow> 'm option"
  memWriteUint64Le :: "'m \<Rightarrow> u32 \<Rightarrow> u64 \<Rightarrow> 'm option"

section \<open>The documented behaviour of api.Memory\<close>

locale linear_memory =
  fixes M :: "'m memops" and memLen :: "'m \<Rightarrow> nat"
  assumes size: "memSize M m = of_nat (memLen m)"
    and read_range: "memRead M m p n \<noteq> None \<longleftrightarrow> unat p + unat n \<le> memLen m"
    and read_length: "memRead M m p n = Some b \<Longrightarrow> length b = unat n"
    and write_range: "memWrite M m p b \<noteq> None \<longleftrightarrow> unat p + length b \<le> memLen m"
    and write_len: "memWrite M m p b = Some m' \<Longrightarrow> memLen m' = memLen m"
    and write_inside: "memWrite M m p b = Some m' \<Longrightarrow> k + unat n \<le> length b \<Longrightarrow>
           unat q = unat p + k \<Longrightarrow> memRead M m' q n = Some (take (unat n) (drop k b))"
    and write_outside: "memWrite M m p b = Some m' \<Longrightarrow>
           unat q + unat n \<le> unat p \<or> unat p + length b \<le> unat q \<Longrightarrow>
           memRead M m' q n = memRead M m q n"
    and read_u32: "memReadUint32Le M m p = map_option le32 (memRead M m p 4)"
    and write_u32: "memWriteUint32Le M m p v = memWrite M m p (put_le32 v)"
    and write_u64: "memWriteUint64Le M m p w = memWrite M m p (put_le64 w)"

section \<open>Helpers of host.go\<close>

definition readCopy :: "'m memops \<Rightarrow> 'm \<Rightarrow> u32 \<Rightarrow> u32 \<Rightarrow> bytes option" where
  "readCopy M m ptr n = (case memRead M m ptr n of None \<Rightarrow> None | Some b \<Rightarrow> Some b)"

definition AddrFrom4 :: "bytes \<Rightarrow> addr" where
  "AddrFrom4 a = Addr4 (of_nat (be_nat a))"

definition AddrFrom16 :: "bytes \<Rightarrow> addr" where
  "AddrFrom16 a = Addr6 (of_nat (be_nat a)) []"

text \<open>\<open>As4\<close> of an IPv4 address, \<open>As16\<close> of any address (the zone is not part of it).\<close>

definition As4 :: "32 word \<Rightarrow> bytes" where
  "As4 w = nat_be 4 (unat w)"

fun As16 :: "addr \<Rightarrow> bytes" where
  "As16 AddrZero = replicate 16 0"
| "As16 (Addr4 w) = replicate 10 0 @ [0xff, 0xff] @ As4 w"
| "As16 (Addr6 w z) = nat_be 16 (unat w)"

definition readAddr :: "'m memops \<Rightarrow> 'm \<Rightarrow> u32 \<Rightarrow> u32 \<Rightarrow> addr option" where
  "readAddr M m ptr n =
     (case readCopy M m ptr n of None \<Rightarrow> None
      | Some b \<Rightarrow>
          if n = 4 then Some (AddrFrom4 b)
          else if n = 16 then Some (AddrFrom16 b)
          else None)"

definition writeAddr :: "'m memops \<Rightarrow> 'm \<Rightarrow> u32 \<Rightarrow> addr \<Rightarrow> 'm option" where
  "writeAddr M m ptr addr =
     (let out = (case addr of Addr4 w \<Rightarrow> As4 w @ replicate 12 0 | _ \<Rightarrow> As16 addr)
      in memWrite M m ptr out)"

definition putU32 :: "'m memops \<Rightarrow> 'm \<Rightarrow> u32 \<Rightarrow> u32 \<Rightarrow> 'm option" where
  "putU32 M m ptr value = memWrite M m ptr (put_le32 value)"

section \<open>Address encodings\<close>

lemma length_As4 [simp]: "length (As4 w) = 4"
  by (simp add: As4_def)

lemma length_As16 [simp]: "length (As16 a) = 16"
  by (cases a) simp_all

lemma unat_lt_32: "unat (w :: 32 word) < 256 ^ 4"
  by (rule order.strict_trans2 [OF unsigned_less]) simp

lemma unat_lt_128: "unat (w :: 128 word) < 256 ^ 16"
  by (rule order.strict_trans2 [OF unsigned_less]) simp

lemma AddrFrom4_As4 [simp]: "AddrFrom4 (As4 w) = Addr4 w"
  using unat_lt_32 [of w] by (simp add: AddrFrom4_def As4_def be_nat_nat_be)

lemma AddrFrom16_As16 [simp]: "AddrFrom16 (As16 (Addr6 w z)) = Addr6 w []"
  using unat_lt_128 [of w] by (simp add: AddrFrom16_def be_nat_nat_be)

text \<open>An address read from guest memory is valid and never has a zone.\<close>

lemma readAddr_no_zone: "readAddr M m p n = Some a \<Longrightarrow> (\<exists>w. a = Addr4 w) \<or> (\<exists>w. a = Addr6 w [])"
  by (auto simp: readAddr_def AddrFrom4_def AddrFrom16_def split: option.splits if_splits)

lemma readAddr_len: "readAddr M m p n = Some a \<Longrightarrow> n = 4 \<or> n = 16"
  by (auto simp: readAddr_def split: option.splits if_splits)

section \<open>Client lemmas\<close>

context linear_memory
begin

lemma readCopy_eq: "readCopy M m p n = memRead M m p n"
  by (simp add: readCopy_def split: option.splits)

lemma readCopy_None_iff: "readCopy M m p n = None \<longleftrightarrow> memLen m < unat p + unat n"
  using read_range [of m p n] by (auto simp: readCopy_eq)

lemma write_read_prefix:
  assumes "memWrite M m p b = Some m'" and "unat n \<le> length b"
  shows "memRead M m' p n = Some (take (unat n) b)"
  using write_inside [OF assms(1), of 0 n p] assms(2) by simp

lemma writeAddr_readAddr4:
  assumes "writeAddr M m p (Addr4 w) = Some m'"
  shows "readAddr M m' p 4 = Some (Addr4 w)"
proof -
  from assms have w: "memWrite M m p (As4 w @ replicate 12 0) = Some m'"
    by (simp add: writeAddr_def)
  from write_read_prefix [OF w, of 4] have "memRead M m' p 4 = Some (As4 w)"
    by simp
  then show ?thesis by (simp add: readAddr_def readCopy_eq)
qed

lemma writeAddr_readAddr16:
  assumes "writeAddr M m p (Addr6 w z) = Some m'"
  shows "readAddr M m' p 16 = Some (Addr6 w [])"
proof -
  from assms have w: "memWrite M m p (As16 (Addr6 w z)) = Some m'"
    by (simp add: writeAddr_def)
  from write_read_prefix [OF w, of 16] have "memRead M m' p 16 = Some (As16 (Addr6 w z))"
    by simp
  then show ?thesis by (simp add: readAddr_def readCopy_eq del: As16.simps)
qed

lemma writeAddr_range: "writeAddr M m p a \<noteq> None \<longleftrightarrow> unat p + 16 \<le> memLen m"
  unfolding writeAddr_def Let_def write_range by (cases a) simp_all

lemma putU32_read:
  assumes "putU32 M m p v = Some m'"
  shows "memReadUint32Le M m' p = Some v"
  using write_read_prefix [OF assms [unfolded putU32_def], of 4] by (simp add: read_u32)

lemma putU32_range: "putU32 M m p v \<noteq> None \<longleftrightarrow> unat p + 4 \<le> memLen m"
  unfolding putU32_def write_range by simp

end

section \<open>Byte-list memories\<close>

definition flat_read :: "bytes \<Rightarrow> u32 \<Rightarrow> u32 \<Rightarrow> bytes option" where
  "flat_read m p n =
     (if unat p + unat n \<le> length m then Some (take (unat n) (drop (unat p) m)) else None)"

definition flat_write :: "bytes \<Rightarrow> u32 \<Rightarrow> bytes \<Rightarrow> bytes option" where
  "flat_write m p b =
     (if unat p + length b \<le> length m
      then Some (take (unat p) m @ b @ drop (unat p + length b) m) else None)"

definition flat_ops :: "bytes memops" where
  "flat_ops = \<lparr>memSize = (\<lambda>m. of_nat (length m)), memRead = flat_read, memWrite = flat_write,
     memReadUint32Le = (\<lambda>m p. map_option le32 (flat_read m p 4)),
     memWriteUint32Le = (\<lambda>m p v. flat_write m p (put_le32 v)),
     memWriteUint64Le = (\<lambda>m p v. flat_write m p (put_le64 v))\<rparr>"

lemma flat_ops_simps [simp]:
  "memSize flat_ops m = of_nat (length m)"
  "memRead flat_ops = flat_read"
  "memWrite flat_ops = flat_write"
  "memReadUint32Le flat_ops m p = map_option le32 (flat_read m p 4)"
  "memWriteUint32Le flat_ops m p v = flat_write m p (put_le32 v)"
  "memWriteUint64Le flat_ops m p w = flat_write m p (put_le64 w)"
  by (simp_all add: flat_ops_def)

lemma flat_write_outside:
  assumes "flat_write m p b = Some m'"
    and "unat q + unat n \<le> unat p \<or> unat p + length b \<le> unat q"
  shows "flat_read m' q n = flat_read m q n"
  using assms by (auto simp: flat_write_def flat_read_def drop_take min.absorb1 split: if_splits)

interpretation flat: linear_memory flat_ops length
proof unfold_locales
  show "memRead flat_ops m' q n = memRead flat_ops m q n"
    if "memWrite flat_ops m p b = Some m'"
      and "unat q + unat n \<le> unat p \<or> unat p + length b \<le> unat q" for m p b m' q n
    using flat_write_outside that by simp
qed (auto simp: flat_read_def flat_write_def split: if_splits)

section \<open>Properties\<close>

definition withoutZone :: "addr \<Rightarrow> addr" where
  "withoutZone a = (case a of Addr6 w z \<Rightarrow> Addr6 w [] | _ \<Rightarrow> a)"

text \<open>An address the host writes to guest memory is read back as the same address (without its
  zone) when the guest passes it on with the length of its family, and the host writes it exactly
  when 16 bytes fit.\<close>

theorem addr_roundtrip:
  assumes "linear_memory M memLen" and "addrIsValid a" and "unat p + 16 \<le> memLen m"
  shows "\<exists>m'. writeAddr M m p a = Some m'
    \<and> readAddr M m' p (if addrIs4 a then 4 else 16) = Some (withoutZone a)"
proof -
  obtain m' where "writeAddr M m p a = Some m'"
    using linear_memory.writeAddr_range [OF assms(1), of m p a] assms(3) by auto
  then show ?thesis
    using assms(2) linear_memory.writeAddr_readAddr4 [OF assms(1), of m p _ m']
      linear_memory.writeAddr_readAddr16 [OF assms(1), of m p _ _ m']
    by (cases a) (auto simp: addrIsValid_def addrIs4_def withoutZone_def)
qed

theorem addr_roundtrip_witness:
  "\<exists>m'. writeAddr flat_ops (replicate 16 0) 0 (ip4 8 8 8 8) = Some m'
    \<and> readAddr flat_ops m' 0 4 = Some (ip4 8 8 8 8)"
  using addr_roundtrip [OF flat.linear_memory_axioms, of "ip4 8 8 8 8" 0 "replicate 16 0"]
  by (simp add: addrIsValid_def addrIs4_def withoutZone_def ip4_def)

end
