(* ===== verification/HostState.thy ===== *)
theory HostState
  imports GuestMem
begin

text \<open>
  The per-instance state of the host (\<open>instanceState\<close> of \<open>host.go\<close>) and the operations on its
  event queue, its timers and its shutdown.

  The record \<open>istate\<close> holds the fields of \<open>instanceState\<close> together with the objects they
  point to: the heap of \<open>hostSocket\<close>s (a socket stays reachable from its reader goroutines
  after \<open>sockClose\<close> removed it from the map, so pointers and map entries are kept apart), the
  heap of \<open>time.Timer\<close>s, the operating system connections, the running goroutines, and the
  trace of everything sent to the network. A Go map that \<open>shutdown\<close> set to nil is
  \<^const>\<open>None\<close>.

  What the host asks of the operating system and of Go's \<open>select\<close> is the parameter
  \<open>hostenv\<close> of every operation: the answers of \<open>net.ListenUDP\<close>, of the dialer and of the
  writes, and which ready case a \<open>select\<close> takes. Statements quantify over it. The test-only
  replay hooks are a field of it too; production leaves them nil.
\<close>

section \<open>Data\<close>

datatype eventKind = eventIO | eventTimer

record hostEvent =
  kind :: eventKind
  sid :: i32
  flags :: i32
  tid :: u64

abbreviation (input) socketUDP :: i32 where "socketUDP \<equiv> 1"
abbreviation (input) socketTCP :: i32 where "socketTCP \<equiv> 2"
abbreviation (input) ioRead :: i32 where "ioRead \<equiv> 1"
abbreviation (input) ioWrite :: i32 where "ioWrite \<equiv> 2"
abbreviation (input) ioErr :: i32 where "ioErr \<equiv> 4"

definition ioEvent :: "i32 \<Rightarrow> i32 \<Rightarrow> hostEvent" where
  "ioEvent i f = \<lparr>kind = eventIO, sid = i, flags = f, tid = 0\<rparr>"

definition timerEvent :: "u64 \<Rightarrow> hostEvent" where
  "timerEvent t = \<lparr>kind = eventTimer, sid = 0, flags = 0, tid = t\<rparr>"

record receivedPacket =
  pktData :: bytes
  pktFrom :: addrport

text \<open>\<open>hostSocket\<close>; \<open>udp\<close> and \<open>tcp\<close> point into the connections of the state.\<close>

record hostSocket =
  sockId :: i32
  af :: i32
  stype :: i32
  bindPort :: u16
  udp :: "nat option"
  tcp :: "nat option"
  remote :: addrport
  queue :: "receivedPacket list"
  sockErr :: "goerr option"
  closed :: bool

text \<open>An operating system connection: \<open>net.UDPConn\<close> or a dialed \<open>net.Conn\<close>.\<close>

record conn =
  isTCP :: bool
  localPort :: u16
  peer :: addrport
  isOpen :: bool

text \<open>A \<open>time.Timer\<close>: armed, its callback started, or stopped.\<close>

datatype timerStatus = Armed | Firing | Stopped

record timer =
  timerId :: u64
  timerMs :: i32
  status :: timerStatus

text \<open>Goroutines, with the socket they hold a pointer to.\<close>

datatype goroutine =
    GoConnectTCP nat i32 u16 addr u16
  | GoReadUDP nat nat
  | GoReadTCP nat nat

text \<open>What the host does to the network.\<close>

datatype netAction =
    NetDial addrport
  | NetSendTo nat addrport bytes
  | NetWrite nat bytes

datatype level = LevelDebug | LevelInfo | LevelWarn | LevelError

datatype logEntry = EgressDenied addrport | GuestLog level string

text \<open>How far \<open>once.Do\<close> of \<open>shutdown\<close> has come.\<close>

datatype oncePhase = OnceNew | OnceMarked | OnceTimers | OnceDone

record istate =
  events :: "hostEvent list"
  isDone :: bool
  stErr :: "goerr option"
  once :: oncePhase
  socks :: "hostSocket list"
  sockets :: "(i32 \<times> nat) list option"
  nextSocket :: i32
  timerHeap :: "timer list"
  timers :: "(u64 \<times> nat) list option"
  nextTimer :: u64
  conns :: "conn list"
  gos :: "goroutine list"
  net :: "netAction list"
  logs :: "logEntry list"

section \<open>The environment\<close>

record replayHooks =
  rpNowWall :: int
  rpNowMono :: int
  rpTimerStart :: "istate \<Rightarrow> i32 \<Rightarrow> istate \<times> u64"
  rpTimerStop :: "istate \<Rightarrow> u64 \<Rightarrow> istate"
  rpConnect :: "istate \<Rightarrow> nat \<Rightarrow> addrport \<Rightarrow> istate \<times> i32"
  rpSendTo :: "istate \<Rightarrow> nat \<Rightarrow> addrport \<Rightarrow> bytes \<Rightarrow> istate \<times> i32"
  rpLocalPort :: "istate \<Rightarrow> nat \<Rightarrow> i32"

record hostenv =
  replay :: "replayHooks option"
  selDone :: bool
  osListenUDP :: "i32 \<Rightarrow> u16 \<Rightarrow> goerr + u16"
  osDialTCP :: "i32 \<Rightarrow> u16 \<Rightarrow> addrport \<Rightarrow> goerr + u16"
  osWriteUDP :: "nat \<Rightarrow> bytes \<Rightarrow> addrport \<Rightarrow> goerr + nat"
  osWriteTCP :: "nat \<Rightarrow> bytes \<Rightarrow> goerr + nat"

section \<open>Construction\<close>

definition newInstanceState :: istate where
  "newInstanceState =
     \<lparr>events = [], isDone = False, stErr = None, once = OnceNew, socks = [],
      sockets = Some [], nextSocket = 1, timerHeap = [], timers = Some [], nextTimer = 0,
      conns = [], gos = [], net = [], logs = []\<rparr>"

abbreviation eventCap :: nat where "eventCap \<equiv> 1024"

section \<open>Shutdown\<close>

definition closeConn :: "nat option \<Rightarrow> conn list \<Rightarrow> conn list" where
  "closeConn c cs = (case c of None \<Rightarrow> cs | Some i \<Rightarrow> upd cs i (\<lambda>k. k\<lparr>isOpen := False\<rparr>))"

text \<open>\<open>hostSocket.close\<close>: idempotent; the connections are closed after the flag is set.\<close>

definition sockCloseHeap :: "nat \<Rightarrow> istate \<Rightarrow> istate" where
  "sockCloseHeap p s =
     (if closed (socks s ! p) then s
      else s\<lparr>socks := upd (socks s) p (\<lambda>k. k\<lparr>closed := True\<rparr>),
             conns := closeConn (tcp (socks s ! p)) (closeConn (udp (socks s ! p)) (conns s))\<rparr>)"

text \<open>\<open>t.Stop()\<close> prevents a timer that has not started its callback from firing.\<close>

definition timerStopHeap :: "nat \<Rightarrow> istate \<Rightarrow> istate" where
  "timerStopHeap t s =
     s\<lparr>timerHeap := upd (timerHeap s) t
         (\<lambda>k. if status k = Armed then k\<lparr>status := Stopped\<rparr> else k)\<rparr>"

text \<open>
  The body of \<open>once.Do\<close> in \<open>shutdown\<close>, in the three sections its locks make of it: record the
  cause and close \<open>done\<close>; stop and drop the timers; close and drop the sockets. A caller that
  finds another one inside \<open>once.Do\<close> waits for it, so calling \<open>shutdown\<close> then completes the
  sections that are left.
\<close>

definition shutdownMark :: "goerr option \<Rightarrow> istate \<Rightarrow> istate" where
  "shutdownMark err s = s\<lparr>stErr := err, isDone := True, once := OnceMarked\<rparr>"

definition shutdownTimers :: "istate \<Rightarrow> istate" where
  "shutdownTimers s =
     (case timers s of None \<Rightarrow> s | Some m \<Rightarrow> fold (\<lambda>(_, t). timerStopHeap t) m s)
       \<lparr>timers := None, once := OnceTimers\<rparr>"

definition shutdownSockets :: "istate \<Rightarrow> istate" where
  "shutdownSockets s =
     (case sockets s of None \<Rightarrow> s | Some m \<Rightarrow> fold (\<lambda>(_, p). sockCloseHeap p) m s)
       \<lparr>sockets := None, once := OnceDone\<rparr>"

definition shutdown :: "goerr option \<Rightarrow> istate \<Rightarrow> istate" where
  "shutdown err s =
     (case once s of
        OnceNew \<Rightarrow> shutdownSockets (shutdownTimers (shutdownMark err s))
      | OnceMarked \<Rightarrow> shutdownSockets (shutdownTimers s)
      | OnceTimers \<Rightarrow> shutdownSockets s
      | OnceDone \<Rightarrow> s)"

definition stateClose :: "istate \<Rightarrow> istate" where
  "stateClose s = shutdown None s"

definition fail :: "goerr \<Rightarrow> istate \<Rightarrow> istate" where
  "fail err s = shutdown (Some err) s"

section \<open>The event queue\<close>

text \<open>
  The three-way \<open>select\<close>: sending is ready while the buffer has room, receiving from
  \<open>done\<close> once it is closed; if both are ready Go picks either (\<open>selDone\<close>), if neither is the
  default case fails the instance.
\<close>

definition enqueue :: "hostenv \<Rightarrow> hostEvent \<Rightarrow> istate \<Rightarrow> istate" where
  "enqueue E ev s =
     (let room = length (events s) < eventCap in
      if room \<and> \<not> (isDone s \<and> selDone E) then s\<lparr>events := events s @ [ev]\<rparr>
      else if isDone s then s
      else fail errEventQueueOverflow s)"

section \<open>Timers\<close>

abbreviation maxTimersPerInstance :: nat where "maxTimersPerInstance \<equiv> 8192"

definition timerStart :: "hostenv \<Rightarrow> i32 \<Rightarrow> istate \<Rightarrow> istate \<times> u64" where
  "timerStart E ms s =
     (let ms = (if sint ms < 0 then 0 else ms) in
      case replay E of Some h \<Rightarrow> rpTimerStart h s ms
      | None \<Rightarrow>
        (let t = nextTimer s + 1; s = s\<lparr>nextTimer := t\<rparr> in
         case timers s of None \<Rightarrow> (s, 0)
         | Some m \<Rightarrow>
             if length m \<ge> maxTimersPerInstance then (s, 0)
             else (s\<lparr>timerHeap := timerHeap s @ [\<lparr>timerId = t, timerMs = ms, status = Armed\<rparr>],
                     timers := Some (AList.update t (length (timerHeap s)) m)\<rparr>, t)))"

definition timerStop :: "hostenv \<Rightarrow> u64 \<Rightarrow> istate \<Rightarrow> istate" where
  "timerStop E t s =
     (case replay E of Some h \<Rightarrow> rpTimerStop h s t
      | None \<Rightarrow>
        (case timers s of None \<Rightarrow> s
         | Some m \<Rightarrow> (case map_of m t of None \<Rightarrow> s
             | Some p \<Rightarrow> (timerStopHeap p s)\<lparr>timers := Some (AList.delete t m)\<rparr>)))"

text \<open>
  \<open>time.AfterFunc\<close> runs the callback in its own goroutine once the timer expires
  (\<open>timerExpire\<close>); the callback drops the map entry and enqueues the event.
\<close>

definition timerExpire :: "nat \<Rightarrow> istate \<Rightarrow> istate" where
  "timerExpire p s = s\<lparr>timerHeap := upd (timerHeap s) p (\<lambda>k. k\<lparr>status := Firing\<rparr>)\<rparr>"

definition timerCallback :: "hostenv \<Rightarrow> nat \<Rightarrow> istate \<Rightarrow> istate" where
  "timerCallback E p s =
     (let t = timerId (timerHeap s ! p);
          s = s\<lparr>timerHeap := upd (timerHeap s) p (\<lambda>k. k\<lparr>status := Stopped\<rparr>)\<rparr>;
          s = (case timers s of None \<Rightarrow> s | Some m \<Rightarrow> s\<lparr>timers := Some (AList.delete t m)\<rparr>)
      in enqueue E (timerEvent t) s)"

end
