(* ===== verification/Sockets.thy ===== *)
theory Sockets
  imports HostState
begin

text \<open>
  The host sockets (\<open>sockets.go\<close>). Each operation is the Go method of the same name on
  \<open>istate\<close>; it returns the new state and the \<open>int32\<close> result, \<open>-errno\<close> on failure. The
  critical sections that a concurrent \<open>shutdown\<close> can separate are definitions of their own
  (\<open>sockBindLocked\<close>, \<open>sockConnectLocked\<close>, \<open>sockSendToCheck\<close> and
  \<open>sockSendToWrite\<close>), and the methods compose them; the interleavings are those of the theory
  \<open>Interleaving\<close>. The reader and dialer goroutines are one definition per loop iteration.
\<close>

section \<open>Egress check and lookup\<close>

definition checkEgress :: "addr \<Rightarrow> u16 \<Rightarrow> istate \<Rightarrow> istate \<times> bool" where
  "checkEgress ip port s =
     (let r = AddrPortFrom ip port in
      if \<not> egressAllowed r then (s\<lparr>logs := logs s @ [EgressDenied r]\<rparr>, False) else (s, True))"

abbreviation maxSocketsPerInstance :: nat where "maxSocketsPerInstance \<equiv> 256"

definition newSocket :: "i32 \<Rightarrow> i32 \<Rightarrow> i32 \<Rightarrow> hostSocket" where
  "newSocket i a t = \<lparr>sockId = i, af = a, stype = t, bindPort = 0, udp = None, tcp = None,
     remote = AddrPortFrom AddrZero 0, queue = [], sockErr = None, closed = False\<rparr>"

definition sockOpen :: "i32 \<Rightarrow> i32 \<Rightarrow> istate \<Rightarrow> istate \<times> i32" where
  "sockOpen a t s =
     (if (a \<noteq> 4 \<and> a \<noteq> 6) \<or> (t \<noteq> socketUDP \<and> t \<noteq> socketTCP) then (s, - wasiEAFNOSUPPORT)
      else case sockets s of None \<Rightarrow> (s, - wasiEBADF)
      | Some m \<Rightarrow>
          if length m \<ge> maxSocketsPerInstance then (s, - wasiEMFILE)
          else let i = nextSocket s in
            (s\<lparr>nextSocket := i + 1, socks := socks s @ [newSocket i a t],
               sockets := Some (AList.update i (length (socks s)) m)\<rparr>, i))"

definition sockLookup :: "i32 \<Rightarrow> istate \<Rightarrow> nat option" where
  "sockLookup i s = (case sockets s of None \<Rightarrow> None | Some m \<Rightarrow> map_of m i)"

section \<open>Binding and connecting\<close>

definition listenUDPLocked :: "hostenv \<Rightarrow> nat \<Rightarrow> istate \<Rightarrow> istate \<times> goerr option" where
  "listenUDPLocked E p s =
     (let k = socks s ! p in
      if udp k \<noteq> None then (s, None)
      else case osListenUDP E (af k) (bindPort k) of
        Inl e \<Rightarrow> (s, Some e)
      | Inr port \<Rightarrow>
          let c = length (conns s) in
          (s\<lparr>conns := conns s @ [\<lparr>isTCP = False, localPort = port,
                                    peer = AddrPortFrom AddrZero 0, isOpen = True\<rparr>],
             socks := upd (socks s) p (\<lambda>k. k\<lparr>udp := Some c, bindPort := port\<rparr>),
             gos := gos s @ [GoReadUDP p c]\<rparr>, None))"

definition sockBindLocked :: "hostenv \<Rightarrow> nat \<Rightarrow> i32 \<Rightarrow> istate \<Rightarrow> istate \<times> i32" where
  "sockBindLocked E p port s =
     (let k = socks s ! p in
      if closed k then (s, - wasiEBADF)
      else if udp k \<noteq> None \<or> tcp k \<noteq> None then (s, - wasiEINVAL)
      else let s = s\<lparr>socks := upd (socks s) p (\<lambda>k. k\<lparr>bindPort := ucast port\<rparr>)\<rparr> in
        if replay E \<noteq> None then (s, 0)
        else if stype k = socketUDP then
          (case listenUDPLocked E p s of
             (s, Some e) \<Rightarrow> (s, - wasiErrno (Some e))
           | (s, None) \<Rightarrow> (s, 0))
        else (s, 0))"

definition sockBind :: "hostenv \<Rightarrow> i32 \<Rightarrow> i32 \<Rightarrow> istate \<Rightarrow> istate \<times> i32" where
  "sockBind E i port s =
     (if sint port < 0 \<or> sint port > 65535 then (s, - wasiEINVAL)
      else case sockLookup i s of None \<Rightarrow> (s, - wasiEBADF)
      | Some p \<Rightarrow> sockBindLocked E p port s)"

text \<open>
  The section of \<open>sockConnect\<close> under the socket's lock, up to the enqueue of the write
  event (UDP) or the start of the dialer goroutine (TCP).
\<close>

definition sockConnectLocked :: "hostenv \<Rightarrow> i32 \<Rightarrow> nat \<Rightarrow> addr \<Rightarrow> u16 \<Rightarrow> istate \<Rightarrow> istate \<times> i32" where
  "sockConnectLocked E i p ip port s =
     (if closed (socks s ! p) then (s, - wasiEBADF)
      else let s = s\<lparr>socks := upd (socks s) p (\<lambda>k. k\<lparr>remote := AddrPortFrom ip port\<rparr>)\<rparr>;
               k = socks s ! p in
        if stype k = socketUDP then
          (case (if udp k = None then listenUDPLocked E p s else (s, None)) of
             (s, Some e) \<Rightarrow> (s, - wasiErrno (Some e))
           | (s, None) \<Rightarrow> (enqueue E (ioEvent i ioWrite) s, 0))
        else if tcp k \<noteq> None then (s, 0)
        else (s\<lparr>gos := gos s @ [GoConnectTCP p (af k) (bindPort k) ip port]\<rparr>, 0))"

definition sockConnect :: "hostenv \<Rightarrow> i32 \<Rightarrow> addr \<Rightarrow> i32 \<Rightarrow> istate \<Rightarrow> istate \<times> i32" where
  "sockConnect E i ip port s =
     (if sint port \<le> 0 \<or> sint port > 65535 then (s, - wasiEINVAL)
      else case replay E of
        Some h \<Rightarrow> (case sockLookup i s of
            Some p \<Rightarrow> rpConnect h s p (AddrPortFrom ip (ucast port))
          | None \<Rightarrow> (s, - wasiEBADF))
      | None \<Rightarrow>
        (case checkEgress ip (ucast port) s of
           (s, False) \<Rightarrow> (s, - wasiEACCES)
         | (s, True) \<Rightarrow>
             (case sockLookup i s of None \<Rightarrow> (s, - wasiEBADF)
              | Some p \<Rightarrow> sockConnectLocked E i p ip (ucast port) s)))"

section \<open>Sending\<close>

text \<open>
  \<open>sockSendTo\<close> reads \<open>closed\<close>, \<open>typ\<close>, \<open>udp\<close> and \<open>tcp\<close> in one section under the
  socket's lock (\<open>sockSendToCheck\<close>) and acts on the values it read afterwards
  (\<open>sockSendToWrite\<close>), taking the lock again only to open a UDP socket.
\<close>

definition sockSendToCheck :: "nat \<Rightarrow> istate \<Rightarrow> (i32 \<times> nat option \<times> nat option) option" where
  "sockSendToCheck p s =
     (let k = socks s ! p in
      if closed k then None else Some (stype k, udp k, tcp k))"

definition sockSendToWrite ::
    "hostenv \<Rightarrow> nat \<Rightarrow> i32 \<times> nat option \<times> nat option \<Rightarrow> addrport \<Rightarrow> bytes \<Rightarrow> istate \<Rightarrow> istate \<times> i32" where
  "sockSendToWrite E p k rem d s =
     (case k of (t, u, c) \<Rightarrow>
      if t = socketUDP then
        (case (case u of Some x \<Rightarrow> (s, None)
               | None \<Rightarrow> listenUDPLocked E p s) of
           (s, Some e) \<Rightarrow> (s, - wasiErrno (Some e))
         | (s, None) \<Rightarrow>
             (case (case u of Some x \<Rightarrow> Some x | None \<Rightarrow> udp (socks s ! p)) of
                None \<Rightarrow> (s, - wasiEINVAL)
              | Some x \<Rightarrow>
                  (let s = s\<lparr>net := net s @ [NetSendTo x rem d]\<rparr> in
                   case osWriteUDP E x d rem of
                     Inl e \<Rightarrow> (s, - wasiErrno (Some e))
                   | Inr n \<Rightarrow> (s, of_nat n))))
      else (case c of None \<Rightarrow> (s, - wasiEAGAIN)
        | Some x \<Rightarrow>
            (let s = s\<lparr>net := net s @ [NetWrite x d]\<rparr> in
             case osWriteTCP E x d of
               Inl e \<Rightarrow> (s, - wasiErrno (Some e))
             | Inr n \<Rightarrow> (s, of_nat n))))"

definition sockSendTo :: "hostenv \<Rightarrow> i32 \<Rightarrow> addr \<Rightarrow> i32 \<Rightarrow> bytes \<Rightarrow> istate \<Rightarrow> istate \<times> i32" where
  "sockSendTo E i ip port d s =
     (if sint port \<le> 0 \<or> sint port > 65535 then (s, - wasiEINVAL)
      else case replay E of
        Some h \<Rightarrow> (case sockLookup i s of
            Some p \<Rightarrow> rpSendTo h s p (AddrPortFrom ip (ucast port)) d
          | None \<Rightarrow> (s, - wasiEBADF))
      | None \<Rightarrow>
        (case checkEgress ip (ucast port) s of
           (s, False) \<Rightarrow> (s, - wasiEACCES)
         | (s, True) \<Rightarrow>
             (case sockLookup i s of None \<Rightarrow> (s, - wasiEBADF)
              | Some p \<Rightarrow>
                  (case sockSendToCheck p s of None \<Rightarrow> (s, - wasiEBADF)
                   | Some k \<Rightarrow> sockSendToWrite E p k (AddrPortFrom ip (ucast port)) d s))))"

definition sockSend :: "hostenv \<Rightarrow> i32 \<Rightarrow> bytes \<Rightarrow> istate \<Rightarrow> istate \<times> i32" where
  "sockSend E i d s =
     (case sockLookup i s of None \<Rightarrow> (s, - wasiEBADF)
      | Some p \<Rightarrow>
          (let rem = remote (socks s ! p) in
           if \<not> addrIsValid (apAddr rem) then (s, - wasiENOTCONN)
           else sockSendTo E i (apAddr rem) (ucast (apPort rem)) d s))"

section \<open>Receiving\<close>

text \<open>The locked section of \<open>sockRecv\<close> on a non-empty queue: the chunk taken and what is left.\<close>

definition sockRecvTake :: "nat \<Rightarrow> u32 \<Rightarrow> istate \<Rightarrow> istate \<times> bytes" where
  "sockRecvTake p capacity s =
     (let k = socks s ! p;
          pkt = hd (queue k);
          n = (if (of_nat (length (pktData pkt)) :: u32) > capacity then unat capacity
               else length (pktData pkt));
          chunk = take n (pktData pkt);
          q = (if n = length (pktData pkt) \<or> stype k = socketUDP then tl (queue k)
               else pkt\<lparr>pktData := drop n (pktData pkt)\<rparr> # tl (queue k))
      in (s\<lparr>socks := upd (socks s) p (\<lambda>k. k\<lparr>queue := q\<rparr>)\<rparr>, chunk))"

definition sockRecv ::
    "'m memops \<Rightarrow> hostenv \<Rightarrow> i32 \<Rightarrow> u32 \<Rightarrow> u32 \<Rightarrow> bool \<Rightarrow> u32 \<Rightarrow> u32 \<Rightarrow> 'm \<Rightarrow> istate \<Rightarrow> istate \<times> 'm \<times> i32" where
  "sockRecv M E i ptr capacity withFrom ipOut portOut m s =
     (case sockLookup i s of None \<Rightarrow> (s, m, - wasiEBADF)
      | Some p \<Rightarrow>
        (let k = socks s ! p in
         case queue k of
           [] \<Rightarrow> (let s = s\<lparr>socks := upd (socks s) p (\<lambda>k. k\<lparr>sockErr := None\<rparr>)\<rparr> in
                   case sockErr k of Some e \<Rightarrow> (s, m, - wasiErrno (Some e))
                   | None \<Rightarrow> (s, m, - wasiEAGAIN))
         | pkt # _ \<Rightarrow>
           (case sockRecvTake p capacity s of (s, chunk) \<Rightarrow>
              let more = (queue (socks s ! p) \<noteq> []) in
              case memWrite M m ptr chunk of None \<Rightarrow> (s, m, - wasiEFAULT)
              | Some m \<Rightarrow>
                (let fin = (\<lambda>m. ((if more then enqueue E (ioEvent i ioRead) s else s), m,
                                  of_nat (length chunk)))
                 in if withFrom then
                      (case writeAddr M m ipOut (apAddr (pktFrom pkt)) of
                         None \<Rightarrow> (s, m, - wasiEFAULT)
                       | Some m \<Rightarrow>
                           (case putU32 M m portOut (ucast (apPort (pktFrom pkt))) of
                              None \<Rightarrow> (s, m, - wasiEFAULT)
                            | Some m \<Rightarrow> fin m))
                    else fin m))))"

section \<open>Error, local port, close\<close>

definition sockError :: "i32 \<Rightarrow> istate \<Rightarrow> istate \<times> i32" where
  "sockError i s =
     (case sockLookup i s of None \<Rightarrow> (s, wasiEBADF)
      | Some p \<Rightarrow> (case sockErr (socks s ! p) of None \<Rightarrow> (s, 0)
          | Some e \<Rightarrow> (s\<lparr>socks := upd (socks s) p (\<lambda>k. k\<lparr>sockErr := None\<rparr>)\<rparr>,
                        wasiErrno (Some e))))"

definition sockLocalPort :: "hostenv \<Rightarrow> i32 \<Rightarrow> istate \<Rightarrow> i32" where
  "sockLocalPort E i s =
     (case sockLookup i s of None \<Rightarrow> - wasiEBADF
      | Some p \<Rightarrow>
        (case replay E of Some h \<Rightarrow> rpLocalPort h s p
         | None \<Rightarrow>
           (let k = socks s ! p in
            case udp k of Some c \<Rightarrow> ucast (localPort (conns s ! c))
            | None \<Rightarrow> (case tcp k of Some c \<Rightarrow> ucast (localPort (conns s ! c))
                | None \<Rightarrow> ucast (bindPort k)))))"

definition sockClose :: "i32 \<Rightarrow> istate \<Rightarrow> istate" where
  "sockClose i s =
     (case sockets s of None \<Rightarrow> s
      | Some m \<Rightarrow>
          (let s = s\<lparr>sockets := Some (AList.delete i m)\<rparr> in
           case map_of m i of None \<Rightarrow> s | Some p \<Rightarrow> sockCloseHeap p s))"

section \<open>Goroutines\<close>

definition push :: "hostenv \<Rightarrow> nat \<Rightarrow> bytes \<Rightarrow> addrport \<Rightarrow> istate \<Rightarrow> istate" where
  "push E p d from s =
     (let k = socks s ! p;
          s = (if closed k then s
               else s\<lparr>socks := upd (socks s) p
                        (\<lambda>k. k\<lparr>queue := queue k @ [\<lparr>pktData = d, pktFrom = from\<rparr>]\<rparr>)\<rparr>)
      in enqueue E (ioEvent (sockId k) ioRead) s)"

definition readError :: "hostenv \<Rightarrow> nat \<Rightarrow> goerr \<Rightarrow> istate \<Rightarrow> istate" where
  "readError E p err s =
     (let k = socks s ! p;
          s = (if \<not> closed k \<and> \<not> errors_Is err ErrNetClosed \<and> \<not> errors_Is err ErrEOF
               then s\<lparr>socks := upd (socks s) p (\<lambda>k. k\<lparr>sockErr := Some err\<rparr>)\<rparr> else s)
      in if closed k then s else enqueue E (ioEvent (sockId k) ioErr) s)"

text \<open>
  \<open>connectTCP\<close>: the dial reaches the network whatever its outcome; the section after it
  publishes the connection, or closes it if the socket was closed meanwhile.
\<close>

definition connectTCP :: "hostenv \<Rightarrow> nat \<Rightarrow> i32 \<Rightarrow> u16 \<Rightarrow> addr \<Rightarrow> u16 \<Rightarrow> istate \<Rightarrow> istate" where
  "connectTCP E p a bp ip port s =
     (let r = AddrPortFrom ip port;
          s = s\<lparr>net := net s @ [NetDial r]\<rparr>;
          k = socks s ! p in
      case osDialTCP E a bp r of
        Inr lp \<Rightarrow>
          (let c = length (conns s);
               new = \<lparr>isTCP = True, localPort = lp, peer = r, isOpen = True\<rparr> in
           if closed k then s\<lparr>conns := conns s @ [new\<lparr>isOpen := False\<rparr>]\<rparr>
           else
             (let s = enqueue E (ioEvent (sockId k) ioWrite)
                        (s\<lparr>conns := conns s @ [new],
                           socks := upd (socks s) p (\<lambda>k. k\<lparr>sockErr := None, tcp := Some c\<rparr>)\<rparr>)
              in s\<lparr>gos := gos s @ [GoReadTCP p c]\<rparr>))
      | Inl e \<Rightarrow>
          (if closed k then s
           else enqueue E (ioEvent (sockId k) (ioWrite OR ioErr))
                  (s\<lparr>socks := upd (socks s) p (\<lambda>k. k\<lparr>sockErr := Some e\<rparr>)\<rparr>)))"

text \<open>
  One iteration of the reader loops, given what the read returned; the flag says whether the
  loop goes on.
\<close>

definition readUDPIter :: "hostenv \<Rightarrow> nat \<Rightarrow> goerr + (bytes \<times> addrport) \<Rightarrow> istate \<Rightarrow> istate \<times> bool" where
  "readUDPIter E p r s =
     (case r of Inl e \<Rightarrow> (readError E p e s, False)
      | Inr (d, from) \<Rightarrow> (push E p d from s, True))"

definition readTCPIter :: "hostenv \<Rightarrow> nat \<Rightarrow> bytes \<Rightarrow> goerr option \<Rightarrow> istate \<Rightarrow> istate \<times> bool" where
  "readTCPIter E p d err s =
     (let s = (if d \<noteq> [] then push E p d (remote (socks s ! p)) s else s) in
      case err of Some e \<Rightarrow> (readError E p e s, False) | None \<Rightarrow> (s, True))"

end
