(* ===== verification/Interleaving.thy ===== *)
theory Interleaving
  imports Sockets
begin

text \<open>
  One instance as a concurrent system. The guest runs on one goroutine and makes one host call at
  a time; meanwhile reader and dialer goroutines, timer callbacks, the dispatcher of
  \<open>ResolveAll\<close> and a concurrent \<open>shutdown\<close> run. A host call is several critical sections
  (the lookup under \<open>socketsMu\<close>, then the section under the socket's own lock, then a write or
  an \<open>enqueue\<close>), and other goroutines may run between them: the component \<open>flight\<close> of a
  system state is the host call in progress, with the values it read so far. A step is one
  critical section of one goroutine.

  The lemmas give the invariant of the reachable states, one lemma per critical section, and show
  that every host call as a whole (the definitions of \<open>Sockets\<close>) is a sequence of steps, so
  the reachable states cover every behaviour of a guest that calls the host in any order with any
  arguments, against any network.
\<close>

section \<open>Steps\<close>

datatype flight =
    Idle
  | InBind nat i32
  | InConnect i32 nat addr u16
  | InSendTo nat addrport bytes
  | InSendWrite nat "i32 \<times> nat option \<times> nat option" addrport bytes
  | InRecv i32 nat u32
  | InEnqueue hostEvent
  | InClose nat

definition remove_nth :: "nat \<Rightarrow> 'a list \<Rightarrow> 'a list" where
  "remove_nth i xs = take i xs @ drop (Suc i) xs"

text \<open>The section of \<open>sockRecv\<close> under the socket's lock; the result is the event to enqueue.\<close>

definition sockRecvLocked :: "i32 \<Rightarrow> nat \<Rightarrow> u32 \<Rightarrow> bool \<Rightarrow> istate \<Rightarrow> istate \<times> flight" where
  "sockRecvLocked i p capacity ok s =
     (if queue (socks s ! p) = [] then
        (s\<lparr>socks := upd (socks s) p (\<lambda>k. k\<lparr>sockErr := None\<rparr>)\<rparr>, Idle)
      else (case sockRecvTake p capacity s of (s, _) \<Rightarrow>
        (s, if ok \<and> queue (socks s ! p) \<noteq> [] then InEnqueue (ioEvent i ioRead) else Idle)))"

inductive step :: "istate \<times> flight \<Rightarrow> istate \<times> flight \<Rightarrow> bool" where
  g_open: "step (s, Idle) (fst (sockOpen a t s), Idle)"
| g_bind: "0 \<le> sint port \<Longrightarrow> sint port \<le> 65535 \<Longrightarrow> sockLookup i s = Some p \<Longrightarrow>
     step (s, Idle) (s, InBind p port)"
| g_bind_locked: "replay E = None \<Longrightarrow>
     step (s, InBind p port) (fst (sockBindLocked E p port s), Idle)"
| g_connect_denied: "checkEgress ip port s = (s', False) \<Longrightarrow> step (s, Idle) (s', Idle)"
| g_connect: "checkEgress ip port s = (s', True) \<Longrightarrow> sockLookup i s' = Some p \<Longrightarrow>
     step (s, Idle) (s', InConnect i p ip port)"
| g_connect_locked: "replay E = None \<Longrightarrow>
     step (s, InConnect i p ip port) (fst (sockConnectLocked E i p ip port s), Idle)"
| g_sendto: "checkEgress ip port s = (s', True) \<Longrightarrow> sockLookup i s' = Some p \<Longrightarrow>
     step (s, Idle) (s', InSendTo p (AddrPortFrom ip port) d)"
| g_sendto_closed: "sockSendToCheck p s = None \<Longrightarrow> step (s, InSendTo p rem d) (s, Idle)"
| g_sendto_check: "sockSendToCheck p s = Some k \<Longrightarrow>
     step (s, InSendTo p rem d) (s, InSendWrite p k rem d)"
| g_sendto_write: "replay E = None \<Longrightarrow>
     step (s, InSendWrite p k rem d) (fst (sockSendToWrite E p k rem d s), Idle)"
| g_recv: "sockLookup i s = Some p \<Longrightarrow> step (s, Idle) (s, InRecv i p capacity)"
| g_recv_locked: "step (s, InRecv i p capacity) (sockRecvLocked i p capacity ok s)"
| g_enqueue: "step (s, InEnqueue ev) (enqueue E ev s, Idle)"
| g_log: "step (s, Idle) (s\<lparr>logs := logs s @ [l]\<rparr>, Idle)"
| g_error: "step (s, Idle) (fst (sockError i s), Idle)"
| g_close: "sockets s = Some m \<Longrightarrow> map_of m i = Some p \<Longrightarrow>
     step (s, Idle) (s\<lparr>sockets := Some (AList.delete i m)\<rparr>, InClose p)"
| g_close_locked: "step (s, InClose p) (sockCloseHeap p s, Idle)"
| g_timer_start: "replay E = None \<Longrightarrow> step (s, Idle) (fst (timerStart E ms s), Idle)"
| g_timer_stop: "replay E = None \<Longrightarrow> step (s, Idle) (timerStop E t s, Idle)"
| go_connect: "n < length (gos s) \<Longrightarrow> gos s ! n = GoConnectTCP p a bp ip port \<Longrightarrow>
     step (s, f) (connectTCP E p a bp ip port (s\<lparr>gos := remove_nth n (gos s)\<rparr>), f)"
| go_udp: "n < length (gos s) \<Longrightarrow> gos s ! n = GoReadUDP p c \<Longrightarrow>
     readUDPIter E p r s = (s', True) \<Longrightarrow> step (s, f) (s', f)"
| go_udp_end: "n < length (gos s) \<Longrightarrow> gos s ! n = GoReadUDP p c \<Longrightarrow>
     readUDPIter E p r (s\<lparr>gos := remove_nth n (gos s)\<rparr>) = (s', False) \<Longrightarrow> step (s, f) (s', f)"
| go_tcp: "n < length (gos s) \<Longrightarrow> gos s ! n = GoReadTCP p c \<Longrightarrow>
     readTCPIter E p d err s = (s', True) \<Longrightarrow> step (s, f) (s', f)"
| go_tcp_end: "n < length (gos s) \<Longrightarrow> gos s ! n = GoReadTCP p c \<Longrightarrow>
     readTCPIter E p d err (s\<lparr>gos := remove_nth n (gos s)\<rparr>) = (s', False) \<Longrightarrow> step (s, f) (s', f)"
| timer_expire: "p < length (timerHeap s) \<Longrightarrow> status (timerHeap s ! p) = Armed \<Longrightarrow>
     step (s, f) (timerExpire p s, f)"
| timer_callback: "p < length (timerHeap s) \<Longrightarrow> status (timerHeap s ! p) = Firing \<Longrightarrow>
     step (s, f) (timerCallback E p s, f)"
| dispatch: "events s = ev # es \<Longrightarrow> step (s, f) (s\<lparr>events := es\<rparr>, f)"
| sd_mark: "once s = OnceNew \<Longrightarrow> step (s, f) (shutdownMark err s, f)"
| sd_timers: "once s = OnceMarked \<Longrightarrow> step (s, f) (shutdownTimers s, f)"
| sd_sockets: "once s = OnceTimers \<Longrightarrow> step (s, f) (shutdownSockets s, f)"

abbreviation steps :: "istate \<times> flight \<Rightarrow> istate \<times> flight \<Rightarrow> bool" where
  "steps \<equiv> step\<^sup>*\<^sup>*"

definition reachable :: "istate \<times> flight \<Rightarrow> bool" where
  "reachable x \<longleftrightarrow> steps (newInstanceState, Idle) x"

section \<open>The invariant\<close>

text \<open>Connections keep their kind and peer, and the list of them only grows.\<close>

definition cext :: "conn list \<Rightarrow> conn list \<Rightarrow> bool" where
  "cext cs cs' \<longleftrightarrow> length cs \<le> length cs'
     \<and> (\<forall>c < length cs. isTCP (cs' ! c) = isTCP (cs ! c) \<and> peer (cs' ! c) = peer (cs ! c))"

definition ext :: "istate \<Rightarrow> istate \<Rightarrow> bool" where
  "ext s s' \<longleftrightarrow> cext (conns s) (conns s') \<and> length (socks s) \<le> length (socks s')"

text \<open>
  A TCP connection that may be written to, a network action that the policy allows, and what the
  goroutines and the host call in flight may rely on.
\<close>

definition tcp_ok :: "conn list \<Rightarrow> nat \<Rightarrow> bool" where
  "tcp_ok cs c \<longleftrightarrow> c < length cs \<and> isTCP (cs ! c) \<and> egressAllowed (peer (cs ! c))"

fun act_ok :: "conn list \<Rightarrow> netAction \<Rightarrow> bool" where
  "act_ok cs (NetDial r) = egressAllowed r"
| "act_ok cs (NetSendTo c r d) = egressAllowed r"
| "act_ok cs (NetWrite c d) = tcp_ok cs c"

fun go_ok :: "nat \<Rightarrow> goroutine \<Rightarrow> bool" where
  "go_ok n (GoConnectTCP p a bp ip port) = (p < n \<and> egressAllowed (AddrPortFrom ip port))"
| "go_ok n (GoReadUDP p c) = (p < n)"
| "go_ok n (GoReadTCP p c) = (p < n)"

fun flight_ok :: "conn list \<Rightarrow> nat \<Rightarrow> flight \<Rightarrow> bool" where
  "flight_ok cs n Idle = True"
| "flight_ok cs n (InBind p port) = (p < n)"
| "flight_ok cs n (InConnect i p ip port) = (p < n \<and> egressAllowed (AddrPortFrom ip port))"
| "flight_ok cs n (InSendTo p rem d) = (p < n \<and> egressAllowed rem)"
| "flight_ok cs n (InSendWrite p k rem d) =
     (p < n \<and> egressAllowed rem \<and> (\<forall>x. snd (snd k) = Some x \<longrightarrow> tcp_ok cs x))"
| "flight_ok cs n (InRecv i p capacity) = (p < n)"
| "flight_ok cs n (InEnqueue ev) = True"
| "flight_ok cs n (InClose p) = (p < n)"

definition net_inv :: "conn list \<Rightarrow> netAction list \<Rightarrow> bool" where
  "net_inv cs acts \<longleftrightarrow> (\<forall>a \<in> set acts. act_ok cs a)"

definition go_inv :: "nat \<Rightarrow> goroutine list \<Rightarrow> bool" where
  "go_inv n gs \<longleftrightarrow> (\<forall>g \<in> set gs. go_ok n g)"

definition tcp_inv :: "conn list \<Rightarrow> hostSocket list \<Rightarrow> bool" where
  "tcp_inv cs ks \<longleftrightarrow> (\<forall>p < length ks. \<forall>c. tcp (ks ! p) = Some c \<longrightarrow> tcp_ok cs c)"

definition map_inv :: "nat \<Rightarrow> (i32 \<times> nat) list option \<Rightarrow> bool" where
  "map_inv n om \<longleftrightarrow> (\<forall>m. om = Some m \<longrightarrow> (\<forall>(i, p) \<in> set m. p < n))"

definition len_inv :: "nat \<Rightarrow> ('k \<times> nat) list option \<Rightarrow> bool" where
  "len_inv n om \<longleftrightarrow> (\<forall>m. om = Some m \<longrightarrow> length m \<le> n)"

definition once_inv :: "bool \<Rightarrow> oncePhase \<Rightarrow> bool \<Rightarrow> bool \<Rightarrow> bool" where
  "once_inv d ph noTimers noSockets \<longleftrightarrow> (d \<longleftrightarrow> ph \<noteq> OnceNew)
     \<and> (noTimers \<longleftrightarrow> ph = OnceTimers \<or> ph = OnceDone) \<and> (noSockets \<longleftrightarrow> ph = OnceDone)"

text \<open>
  The invariant of an instance: what reached the network was allowed; goroutines, sockets and map
  entries point to live objects; the three bounds hold; and the maps are nil exactly after the
  corresponding section of the shutdown.
\<close>

definition inst_inv :: "istate \<Rightarrow> bool" where
  "inst_inv s \<longleftrightarrow> net_inv (conns s) (net s) \<and> go_inv (length (socks s)) (gos s)
     \<and> tcp_inv (conns s) (socks s) \<and> map_inv (length (socks s)) (sockets s)
     \<and> length (events s) \<le> eventCap \<and> len_inv maxSocketsPerInstance (sockets s)
     \<and> len_inv maxTimersPerInstance (timers s)
     \<and> once_inv (isDone s) (once s) (timers s = None) (sockets s = None)"

section \<open>Monotonicity\<close>

lemma cext_refl [simp]: "cext cs cs"
  by (simp add: cext_def)

lemma cext_trans: "cext a b \<Longrightarrow> cext b c \<Longrightarrow> cext a c"
  by (auto simp: cext_def)

lemma cext_append [simp]: "cext cs (cs @ new)"
  by (simp add: cext_def nth_append)

lemma cext_closeConn [simp]: "cext cs (closeConn c cs)"
  by (auto simp: cext_def closeConn_def nth_upd split: option.splits)

lemma cext_closeConn2 [simp]: "cext cs (closeConn c (closeConn d cs))"
  by (rule cext_trans [OF cext_closeConn cext_closeConn])

lemma ext_refl [simp]: "ext s s"
  by (simp add: ext_def)

lemma ext_trans: "ext a b \<Longrightarrow> ext b c \<Longrightarrow> ext a c"
  by (auto simp: ext_def intro: cext_trans)

lemma tcp_ok_mono: "tcp_ok cs c \<Longrightarrow> cext cs cs' \<Longrightarrow> tcp_ok cs' c"
  by (auto simp: tcp_ok_def cext_def)

lemma act_ok_mono: "act_ok cs a \<Longrightarrow> cext cs cs' \<Longrightarrow> act_ok cs' a"
  by (cases a) (auto intro: tcp_ok_mono)

lemma go_ok_mono: "go_ok n g \<Longrightarrow> n \<le> n' \<Longrightarrow> go_ok n' g"
  by (cases g) auto

lemma flight_ok_mono: "flight_ok cs n f \<Longrightarrow> cext cs cs' \<Longrightarrow> n \<le> n' \<Longrightarrow> flight_ok cs' n' f"
  by (cases f) (auto intro: tcp_ok_mono)

lemma flight_ok_ext:
  "flight_ok (conns s) (length (socks s)) f \<Longrightarrow> ext s s' \<Longrightarrow>
   flight_ok (conns s') (length (socks s')) f"
  by (auto simp: ext_def intro: flight_ok_mono)

lemma net_inv_mono: "net_inv cs a \<Longrightarrow> cext cs cs' \<Longrightarrow> net_inv cs' a"
  by (auto simp: net_inv_def intro: act_ok_mono)

lemma tcp_inv_mono: "tcp_inv cs ks \<Longrightarrow> cext cs cs' \<Longrightarrow> tcp_inv cs' ks"
  by (auto simp: tcp_inv_def intro: tcp_ok_mono)

lemma go_inv_mono: "go_inv n gs \<Longrightarrow> n \<le> n' \<Longrightarrow> go_inv n' gs"
  by (auto simp: go_inv_def intro: go_ok_mono)

lemma map_inv_mono: "map_inv n m \<Longrightarrow> n \<le> n' \<Longrightarrow> map_inv n' m"
  by (fastforce simp: map_inv_def)

section \<open>State changes that keep the invariant\<close>

text \<open>
  \<open>keeps s s'\<close>: going from \<open>s\<close> to \<open>s'\<close> preserves the invariant and extends the heaps.
  It is a preorder, so an operation keeps the invariant as soon as each of its updates does.
\<close>

definition keeps :: "istate \<Rightarrow> istate \<Rightarrow> bool" where
  "keeps s s' \<longleftrightarrow> ext s s' \<and> (inst_inv s \<longrightarrow> inst_inv s')"

lemma keeps_refl [simp]: "keeps s s"
  by (simp add: keeps_def)

lemma keeps_trans [trans]: "keeps a b \<Longrightarrow> keeps b c \<Longrightarrow> keeps a c"
  by (auto simp: keeps_def intro: ext_trans)

lemma keeps_length: "keeps s s' \<Longrightarrow> p < length (socks s) \<Longrightarrow> p < length (socks s')"
  by (auto simp: keeps_def ext_def)

lemma keeps_conns: "cext (conns s) cs \<Longrightarrow> keeps s (s\<lparr>conns := cs\<rparr>)"
  by (auto simp: keeps_def ext_def inst_inv_def intro: net_inv_mono tcp_inv_mono)

lemma tcp_inv_upd:
  "tcp_inv cs ks \<Longrightarrow> (p < length ks \<Longrightarrow> \<forall>c. tcp (f (ks ! p)) = Some c \<longrightarrow> tcp_ok cs c) \<Longrightarrow>
   tcp_inv cs (upd ks p f)"
  by (auto simp: tcp_inv_def nth_upd)

lemma tcp_inv_upd_same: "tcp_inv cs ks \<Longrightarrow> (\<And>k. tcp (f k) = tcp k) \<Longrightarrow> tcp_inv cs (upd ks p f)"
  by (auto simp: tcp_inv_def nth_upd)

lemma keeps_sock: "(\<And>k. tcp (f k) = tcp k) \<Longrightarrow> keeps s (s\<lparr>socks := upd (socks s) p f\<rparr>)"
  by (simp add: keeps_def ext_def inst_inv_def tcp_inv_upd_same)

lemma keeps_net: "act_ok (conns s) a \<Longrightarrow> keeps s (s\<lparr>net := net s @ [a]\<rparr>)"
  by (auto simp: keeps_def ext_def inst_inv_def net_inv_def)

lemma keeps_gos: "(inst_inv s \<Longrightarrow> go_inv (length (socks s)) gs) \<Longrightarrow> keeps s (s\<lparr>gos := gs\<rparr>)"
  by (simp add: keeps_def ext_def inst_inv_def)

lemma keeps_go_add: "go_ok (length (socks s)) g \<Longrightarrow> keeps s (s\<lparr>gos := gos s @ [g]\<rparr>)"
  by (rule keeps_gos) (auto simp: inst_inv_def go_inv_def)

lemma keeps_go_remove: "keeps s (s\<lparr>gos := remove_nth n (gos s)\<rparr>)"
  by (rule keeps_gos)
     (auto simp: inst_inv_def go_inv_def remove_nth_def dest: in_set_takeD in_set_dropD)

lemma keeps_events: "(length (events s) \<le> eventCap \<Longrightarrow> length es \<le> eventCap) \<Longrightarrow> keeps s (s\<lparr>events := es\<rparr>)"
  by (simp add: keeps_def ext_def inst_inv_def)

lemma keeps_irrelevant [simp]:
  "keeps s (s\<lparr>logs := l\<rparr>)" "keeps s (s\<lparr>timerHeap := h\<rparr>)" "keeps s (s\<lparr>nextTimer := t\<rparr>)"
  by (simp_all add: keeps_def ext_def inst_inv_def)

section \<open>Shutdown and the event queue\<close>

lemma keeps_sockCloseHeap: "keeps s (sockCloseHeap p s)"
  unfolding sockCloseHeap_def
  by (auto intro!: keeps_trans [OF keeps_sock keeps_conns])

lemma keeps_timerStopHeap: "keeps s (timerStopHeap p s)"
  by (simp add: timerStopHeap_def)

lemma sockCloseHeap_frame [simp]:
  "events (sockCloseHeap p s) = events s" "isDone (sockCloseHeap p s) = isDone s"
  "stErr (sockCloseHeap p s) = stErr s" "once (sockCloseHeap p s) = once s"
  "sockets (sockCloseHeap p s) = sockets s" "timers (sockCloseHeap p s) = timers s"
  "gos (sockCloseHeap p s) = gos s" "net (sockCloseHeap p s) = net s"
  "nextSocket (sockCloseHeap p s) = nextSocket s" "timerHeap (sockCloseHeap p s) = timerHeap s"
  by (simp_all add: sockCloseHeap_def)

lemma timerStopHeap_frame [simp]:
  "events (timerStopHeap p s) = events s" "isDone (timerStopHeap p s) = isDone s"
  "stErr (timerStopHeap p s) = stErr s" "once (timerStopHeap p s) = once s"
  "sockets (timerStopHeap p s) = sockets s" "timers (timerStopHeap p s) = timers s"
  "gos (timerStopHeap p s) = gos s" "net (timerStopHeap p s) = net s"
  "conns (timerStopHeap p s) = conns s" "socks (timerStopHeap p s) = socks s"
  "nextSocket (timerStopHeap p s) = nextSocket s"
  by (simp_all add: timerStopHeap_def)

text \<open>A property every element of a fold keeps, the fold keeps.\<close>

lemma fold_keeps:
  assumes "\<And>x s. x \<in> set xs \<Longrightarrow> P s \<Longrightarrow> P (f x s)"
  shows "P s \<Longrightarrow> P (fold f xs s)"
  using assms by (induction xs arbitrary: s) auto

lemma fold_same:
  assumes "\<And>x s. g (f x s) = g s"
  shows "g (fold f xs s) = g s"
  using assms by (induction xs arbitrary: s) auto

lemma fold_sockCloseHeap_frame [simp]:
  fixes m :: "(i32 \<times> nat) list"
  defines "F \<equiv> fold (\<lambda>(_, p). sockCloseHeap p) m"
  shows "events (F s) = events s" "isDone (F s) = isDone s" "stErr (F s) = stErr s"
    "once (F s) = once s" "sockets (F s) = sockets s" "timers (F s) = timers s"
    "gos (F s) = gos s" "net (F s) = net s" "nextSocket (F s) = nextSocket s"
    "timerHeap (F s) = timerHeap s"
  unfolding F_def by (rule fold_same, simp split: prod.splits)+

lemma fold_timerStopHeap_frame [simp]:
  fixes m :: "(u64 \<times> nat) list"
  defines "F \<equiv> fold (\<lambda>(_, p). timerStopHeap p) m"
  shows "events (F s) = events s" "isDone (F s) = isDone s" "stErr (F s) = stErr s"
    "once (F s) = once s" "sockets (F s) = sockets s" "timers (F s) = timers s"
    "gos (F s) = gos s" "net (F s) = net s" "conns (F s) = conns s" "socks (F s) = socks s"
    "nextSocket (F s) = nextSocket s"
  unfolding F_def by (rule fold_same, simp split: prod.splits)+

lemma keeps_fold_sockCloseHeap: "keeps s (fold (\<lambda>(_, p). sockCloseHeap p) m s)"
  by (rule fold_keeps [where P = "keeps s"]) (auto intro: keeps_trans keeps_sockCloseHeap)

lemma keeps_fold_timerStopHeap: "keeps s (fold (\<lambda>(_, p). timerStopHeap p) m s)"
  by (rule fold_keeps [where P = "keeps s"]) (auto intro: keeps_trans keeps_timerStopHeap)

lemma keeps_shutdownMark: "once s = OnceNew \<Longrightarrow> keeps s (shutdownMark err s)"
  by (simp add: shutdownMark_def keeps_def ext_def inst_inv_def once_inv_def)

lemma keeps_drop_timers: "once s = OnceMarked \<Longrightarrow> keeps s (s\<lparr>timers := None, once := OnceTimers\<rparr>)"
  by (auto simp: keeps_def ext_def inst_inv_def once_inv_def len_inv_def)

lemma keeps_drop_sockets: "once s = OnceTimers \<Longrightarrow> keeps s (s\<lparr>sockets := None, once := OnceDone\<rparr>)"
  by (auto simp: keeps_def ext_def inst_inv_def once_inv_def len_inv_def map_inv_def)

lemma keeps_shutdownTimers:
  assumes "once s = OnceMarked"
  shows "keeps s (shutdownTimers s)"
proof (cases "timers s")
  case None
  with assms show ?thesis by (simp add: shutdownTimers_def keeps_drop_timers)
next
  case (Some m)
  with assms show ?thesis
    by (auto simp: shutdownTimers_def
        intro: keeps_trans [OF keeps_fold_timerStopHeap keeps_drop_timers])
qed

lemma keeps_shutdownSockets:
  assumes "once s = OnceTimers"
  shows "keeps s (shutdownSockets s)"
proof (cases "sockets s")
  case None
  with assms show ?thesis by (simp add: shutdownSockets_def keeps_drop_sockets)
next
  case (Some m)
  with assms show ?thesis
    by (auto simp: shutdownSockets_def
        intro: keeps_trans [OF keeps_fold_sockCloseHeap keeps_drop_sockets])
qed

lemma shutdownMark_frame [simp]:
  "once (shutdownMark err s) = OnceMarked" "isDone (shutdownMark err s)"
  "stErr (shutdownMark err s) = err"
  by (simp_all add: shutdownMark_def)

lemma shutdownTimers_frame [simp]:
  "once (shutdownTimers s) = OnceTimers" "isDone (shutdownTimers s) = isDone s"
  "stErr (shutdownTimers s) = stErr s" "timers (shutdownTimers s) = None"
  "sockets (shutdownTimers s) = sockets s"
  by (simp_all add: shutdownTimers_def split: option.splits)

lemma shutdownSockets_frame [simp]:
  "once (shutdownSockets s) = OnceDone" "isDone (shutdownSockets s) = isDone s"
  "stErr (shutdownSockets s) = stErr s" "sockets (shutdownSockets s) = None"
  "timers (shutdownSockets s) = timers s"
  by (simp_all add: shutdownSockets_def split: option.splits)

lemmas keeps_shutdown_sections = keeps_shutdownMark keeps_shutdownTimers keeps_shutdownSockets

lemma keeps_shutdown: "keeps s (shutdown err s)"
  by (auto simp: shutdown_def split: oncePhase.splits
      intro: keeps_shutdown_sections keeps_trans [OF keeps_shutdownTimers keeps_shutdownSockets]
        keeps_trans [OF keeps_shutdownMark keeps_trans [OF keeps_shutdownTimers keeps_shutdownSockets]])

lemma keeps_enqueue: "keeps s (enqueue E ev s)"
  by (auto simp: enqueue_def Let_def fail_def intro!: keeps_events keeps_shutdown)

lemma keeps_enqueue_after: "keeps s s' \<Longrightarrow> keeps s (enqueue E ev s')"
  by (rule keeps_trans [OF _ keeps_enqueue])

section \<open>The invariant under the host calls\<close>

lemma keeps_checkEgress: "checkEgress ip port s = (s', b) \<Longrightarrow> keeps s s'"
  by (auto simp: checkEgress_def Let_def split: if_splits)

lemma checkEgress_True:
  "checkEgress ip port s = (s', True) \<longleftrightarrow> s' = s \<and> egressAllowed (AddrPortFrom ip port)"
  by (auto simp: checkEgress_def Let_def split: if_splits)

lemma sockLookup_inv: "inst_inv s \<Longrightarrow> sockLookup i s = Some p \<Longrightarrow> p < length (socks s)"
  by (auto simp: sockLookup_def inst_inv_def map_inv_def dest!: map_of_SomeD split: option.splits)

lemma map_inv_update: "map_inv n (Some m) \<Longrightarrow> map_inv (Suc n) (Some (AList.update i n m))"
proof -
  assume "map_inv n (Some m)"
  moreover have "set (AList.update i n m) \<subseteq> insert (i, n) (set m)"
    by (induction m) auto
  ultimately show ?thesis by (fastforce simp: map_inv_def)
qed

lemma keeps_sockOpen: "keeps s (fst (sockOpen a t s))"
proof (cases "sockets s")
  case None
  then show ?thesis by (simp add: sockOpen_def)
next
  case (Some m)
  have l: "length m < maxSocketsPerInstance \<Longrightarrow>
             len_inv maxSocketsPerInstance (Some (AList.update (nextSocket s) n m))" for n
    using length_update_le [of "nextSocket s" n m] by (simp add: len_inv_def)
  have t: "tcp_inv cs ks \<Longrightarrow> tcp_inv cs (ks @ [newSocket j a t])" for cs ks j
    by (auto simp: tcp_inv_def nth_append newSocket_def less_Suc_eq)
  from Some show ?thesis
    by (auto simp: sockOpen_def Let_def keeps_def ext_def inst_inv_def map_inv_update l t
          once_inv_def intro: go_inv_mono)
qed

lemma keeps_listenUDPLocked:
  assumes "p < length (socks s)"
  shows "keeps s (fst (listenUDPLocked E p s))"
proof (cases "osListenUDP E (af (socks s ! p)) (bindPort (socks s ! p))")
  case (Inl e)
  then show ?thesis by (simp add: listenUDPLocked_def Let_def)
next
  case (Inr port)
  with assms show ?thesis
    by (auto simp: listenUDPLocked_def Let_def keeps_def ext_def inst_inv_def go_inv_def
        intro: net_inv_mono tcp_inv_mono [OF tcp_inv_upd_same cext_append])
qed

lemma keeps_sockBindLocked:
  assumes "p < length (socks s)"
  shows "keeps s (fst (sockBindLocked E p port s))"
proof -
  define s1 where "s1 = s\<lparr>socks := upd (socks s) p (\<lambda>k. k\<lparr>bindPort := ucast port\<rparr>)\<rparr>"
  have k1: "keeps s s1" unfolding s1_def by (rule keeps_sock) simp
  obtain s2 r where l: "listenUDPLocked E p s1 = (s2, r)" by fastforce
  have k2: "keeps s s2"
    using keeps_listenUDPLocked [OF keeps_length [OF k1 assms], of E] k1 l
    by (metis fst_conv keeps_trans)
  show ?thesis
    using k1 k2 by (simp add: sockBindLocked_def Let_def l flip: s1_def split: option.splits)
qed

lemma keeps_sockConnectLocked:
  assumes "p < length (socks s)" and "egressAllowed (AddrPortFrom ip port)"
  shows "keeps s (fst (sockConnectLocked E i p ip port s))"
proof -
  define s1 where "s1 = s\<lparr>socks := upd (socks s) p (\<lambda>k. k\<lparr>remote := AddrPortFrom ip port\<rparr>)\<rparr>"
  have k1: "keeps s s1" unfolding s1_def by (rule keeps_sock) simp
  note p1 = keeps_length [OF k1 assms(1)]
  obtain s2 r where
    l: "(if udp (socks s1 ! p) = None then listenUDPLocked E p s1 else (s1, None)) = (s2, r)"
    by fastforce
  have k2: "keeps s s2"
    using keeps_listenUDPLocked [OF p1, of E] k1 l by (metis fst_conv keeps_trans)
  have k3: "keeps s (s1\<lparr>gos := gos s1 @ [GoConnectTCP p a b ip port]\<rparr>)" for a b
    by (rule keeps_trans [OF k1 keeps_go_add]) (simp add: p1 assms(2))
  show ?thesis
    using k1 k2 k3 keeps_enqueue_after [OF k2]
    by (simp add: sockConnectLocked_def Let_def l flip: s1_def split: option.splits)
qed

lemma keeps_sockSendToWrite:
  assumes "p < length (socks s)" and "egressAllowed rem"
    and "\<And>x. snd (snd k) = Some x \<Longrightarrow> tcp_ok (conns s) x"
  shows "keeps s (fst (sockSendToWrite E p k rem d s))"
proof -
  obtain t u c where k: "k = (t, u, c)" by (cases k)
  obtain s2 r where l: "(case u of Some x \<Rightarrow> (s, None) | None \<Rightarrow> listenUDPLocked E p s) = (s2, r)"
    by fastforce
  have k2: "keeps s s2"
    using keeps_listenUDPLocked [OF assms(1), of E] l by (cases u) auto
  have udp: "keeps s (s2\<lparr>net := net s2 @ [NetSendTo x rem d]\<rparr>)" for x
    by (rule keeps_trans [OF k2 keeps_net]) (simp add: assms(2))
  have tcp: "c = Some x \<Longrightarrow> keeps s (s\<lparr>net := net s @ [NetWrite x d]\<rparr>)" for x
    using assms(3) k by (auto intro: keeps_net)
  show ?thesis
    using k2 udp tcp by (simp add: sockSendToWrite_def k l Let_def split: option.splits sum.splits)
qed

lemma keeps_sockRecvTake: "keeps s (fst (sockRecvTake p capacity s))"
  by (auto simp: sockRecvTake_def Let_def intro!: keeps_sock)

lemma keeps_sockRecvLocked: "keeps s (fst (sockRecvLocked i p capacity ok s))"
  using keeps_sockRecvTake [of s p capacity]
  by (auto simp: sockRecvLocked_def intro!: keeps_sock split: prod.splits)

lemma keeps_sockError: "keeps s (fst (sockError i s))"
  by (auto simp: sockError_def intro!: keeps_sock split: option.splits)

lemma keeps_delete_socket:
  "sockets s = Some m \<Longrightarrow> keeps s (s\<lparr>sockets := Some (AList.delete i m)\<rparr>)"
  by (auto simp: keeps_def ext_def inst_inv_def map_inv_def len_inv_def once_inv_def
      AList.delete_eq intro: le_trans [OF length_filter_le])

section \<open>The invariant under timers and goroutines\<close>

lemma keeps_delete_timer:
  "timers s = Some m \<Longrightarrow> keeps s (s\<lparr>timers := Some (AList.delete i m)\<rparr>)"
  by (auto simp: keeps_def ext_def inst_inv_def len_inv_def once_inv_def
      AList.delete_eq intro: le_trans [OF length_filter_le])

lemma keeps_add_timer:
  "timers s = Some m \<Longrightarrow> length m < maxTimersPerInstance \<Longrightarrow>
   keeps s (s\<lparr>timers := Some (AList.update t n m)\<rparr>)"
  using length_update_le [of t n m]
  by (auto simp: keeps_def ext_def inst_inv_def len_inv_def once_inv_def)

lemma keeps_timerStart:
  assumes "replay E = None"
  shows "keeps s (fst (timerStart E ms s))"
proof (cases "timers s")
  case None
  with assms show ?thesis by (simp add: timerStart_def Let_def)
next
  case (Some m)
  have k: "keeps s (s\<lparr>nextTimer := t, timerHeap := h\<rparr>)" for t h
    by (rule keeps_trans [OF keeps_irrelevant(3) keeps_irrelevant(2)])
  have "keeps s (s\<lparr>nextTimer := t, timerHeap := h, timers := Some (AList.update t n m)\<rparr>)"
    if "length m < maxTimersPerInstance" for t h n
    using Some that by (intro keeps_trans [OF k keeps_add_timer]) simp_all
  then show ?thesis
    using assms Some by (simp add: timerStart_def Let_def not_le)
qed

lemma keeps_timerStop: "replay E = None \<Longrightarrow> keeps s (timerStop E t s)"
  by (auto simp: timerStop_def split: option.splits
      intro: keeps_trans [OF keeps_timerStopHeap keeps_delete_timer])

lemma keeps_timerCallback: "keeps s (timerCallback E p s)"
proof (cases "timers s")
  case None
  then show ?thesis by (simp add: timerCallback_def Let_def keeps_enqueue_after)
next
  case (Some m)
  define s1 where "s1 = s\<lparr>timerHeap := upd (timerHeap s) p (\<lambda>k. k\<lparr>status := Stopped\<rparr>)\<rparr>"
  have "keeps s (s1\<lparr>timers := Some (AList.delete t m)\<rparr>)" for t
    using Some by (auto simp: s1_def intro: keeps_trans [OF keeps_irrelevant(2) keeps_delete_timer])
  with Some show ?thesis
    by (simp add: timerCallback_def Let_def keeps_enqueue_after flip: s1_def)
       (simp add: s1_def keeps_enqueue_after)
qed

lemma keeps_push: "keeps s (push E p d from s)"
  by (auto simp: push_def Let_def intro!: keeps_enqueue_after keeps_sock)

lemma keeps_readError: "keeps s (readError E p err s)"
  by (auto simp: readError_def Let_def intro!: keeps_enqueue_after keeps_sock)

lemma keeps_readUDPIter: "readUDPIter E p r s = (s', b) \<Longrightarrow> keeps s s'"
  by (auto simp: readUDPIter_def keeps_push keeps_readError split: sum.splits)

lemma keeps_readTCPIter: "readTCPIter E p d err s = (s', b) \<Longrightarrow> keeps s s'"
  by (auto simp: readTCPIter_def Let_def keeps_push keeps_readError
      intro: keeps_trans [OF keeps_push keeps_readError] split: option.splits if_splits)

lemma keeps_connectTCP:
  assumes "p < length (socks s)" and "egressAllowed (AddrPortFrom ip port)"
  shows "keeps s (connectTCP E p a bp ip port s)"
proof -
  let ?r = "AddrPortFrom ip port"
  define s1 where "s1 = s\<lparr>net := net s @ [NetDial ?r]\<rparr>"
  have k1: "keeps s s1" unfolding s1_def by (rule keeps_net) (simp add: assms(2))
  show ?thesis
  proof (cases "osDialTCP E a bp ?r")
    case (Inl e)
    have "keeps s (s1\<lparr>socks := upd (socks s1) p (\<lambda>k. k\<lparr>sockErr := Some e\<rparr>)\<rparr>)"
      by (rule keeps_trans [OF k1 keeps_sock]) simp
    with Inl k1 show ?thesis
      by (simp add: connectTCP_def Let_def keeps_enqueue_after flip: s1_def)
  next
    case (Inr lp)
    let ?new = "\<lparr>isTCP = True, localPort = lp, peer = ?r, isOpen = True\<rparr>"
    let ?s2 = "s1\<lparr>conns := conns s1 @ [?new], socks := upd (socks s1) p
                 (\<lambda>k. k\<lparr>sockErr := None, tcp := Some (length (conns s1))\<rparr>)\<rparr>"
    have "tcp_inv (conns s1) (socks s1) \<Longrightarrow> tcp_inv (conns ?s2) (socks ?s2)"
      by (simp, rule tcp_inv_upd) (auto simp: tcp_ok_def assms(2) intro: tcp_inv_mono)
    then have "keeps s1 ?s2"
      by (auto simp: keeps_def ext_def inst_inv_def intro: net_inv_mono)
    then have k3: "keeps s (enqueue E ev ?s2)" for ev
      using k1 by (blast intro: keeps_trans keeps_enqueue_after)
    have k4: "keeps s (enqueue E ev ?s2\<lparr>gos := gos (enqueue E ev ?s2) @ [GoReadTCP p c]\<rparr>)" for ev c
      by (rule keeps_trans [OF k3 keeps_go_add]) (simp add: keeps_length [OF k3 assms(1)])
    have "keeps s (s1\<lparr>conns := conns s1 @ [x]\<rparr>)" for x
      by (rule keeps_trans [OF k1 keeps_conns]) simp
    with Inr k4 show ?thesis
      by (simp add: connectTCP_def Let_def flip: s1_def)
  qed
qed

section \<open>Every step keeps the invariant\<close>

definition sys_inv :: "istate \<times> flight \<Rightarrow> bool" where
  "sys_inv x \<longleftrightarrow> inst_inv (fst x) \<and> flight_ok (conns (fst x)) (length (socks (fst x))) (snd x)"

lemma sys_inv_keeps: "sys_inv (s, f) \<Longrightarrow> keeps s s' \<Longrightarrow> sys_inv (s', f)"
  by (auto simp: sys_inv_def keeps_def intro: flight_ok_ext)

lemma sys_inv_idle: "sys_inv (s, f) \<Longrightarrow> keeps s s' \<Longrightarrow> sys_inv (s', Idle)"
  by (auto simp: sys_inv_def keeps_def)

lemma sys_inv_go:
  assumes "sys_inv (s, f)" and "n < length (gos s)"
  shows "go_ok (length (socks s)) (gos s ! n)"
  using assms by (auto simp: sys_inv_def inst_inv_def go_inv_def)

lemma newInstanceState_inv: "sys_inv (newInstanceState, Idle)"
  by (simp add: sys_inv_def inst_inv_def newInstanceState_def net_inv_def go_inv_def tcp_inv_def
      map_inv_def len_inv_def once_inv_def)

lemma step_inv: "step x y \<Longrightarrow> sys_inv x \<Longrightarrow> sys_inv y"
proof (induction rule: step.induct)
  case (g_bind port i s p)
  then show ?case by (auto simp: sys_inv_def dest: sockLookup_inv)
next
  case (g_connect ip port s s' i p)
  then show ?case by (auto simp: sys_inv_def checkEgress_True dest: sockLookup_inv)
next
  case (g_sendto ip port s s' i p d)
  then show ?case by (auto simp: sys_inv_def checkEgress_True dest: sockLookup_inv)
next
  case (g_sendto_check p s k rem d)
  then show ?case
    by (auto simp: sys_inv_def sockSendToCheck_def Let_def inst_inv_def tcp_inv_def split: if_splits)
next
  case (g_bind_locked E s p port)
  then show ?case
    by (intro sys_inv_idle [OF g_bind_locked.prems keeps_sockBindLocked]) (simp add: sys_inv_def)
next
  case (g_connect_locked E s i p ip port)
  then show ?case
    by (intro sys_inv_idle [OF g_connect_locked.prems keeps_sockConnectLocked])
       (simp_all add: sys_inv_def)
next
  case (g_sendto_write E s p k rem d)
  then show ?case
    by (intro sys_inv_idle [OF g_sendto_write.prems keeps_sockSendToWrite])
       (simp_all add: sys_inv_def)
next
  case (g_recv i s p capacity)
  then show ?case by (auto simp: sys_inv_def dest: sockLookup_inv)
next
  case (g_recv_locked s i p capacity ok)
  have "sys_inv (fst (sockRecvLocked i p capacity ok s), Idle)"
    by (rule sys_inv_idle [OF g_recv_locked keeps_sockRecvLocked])
  then show ?case
    by (auto simp: sys_inv_def sockRecvLocked_def split: prod.splits if_splits)
next
  case (g_close s m i p)
  then have "p < length (socks s)"
    by (auto simp: sys_inv_def inst_inv_def map_inv_def dest!: map_of_SomeD)
  moreover from g_close have "sys_inv (s\<lparr>sockets := Some (AList.delete i m)\<rparr>, Idle)"
    by (intro sys_inv_idle [OF g_close.prems keeps_delete_socket])
  ultimately show ?case by (simp add: sys_inv_def)
next
  case (dispatch s ev es f)
  show ?case
    by (rule sys_inv_keeps [OF dispatch.prems keeps_events]) (simp add: dispatch.hyps)
next
  case (go_connect n s p a bp ip port f E)
  have "p < length (socks s)" "egressAllowed (AddrPortFrom ip port)"
    using sys_inv_go [OF go_connect.prems go_connect.hyps(1)] go_connect.hyps(2) by simp_all
  then have "keeps (s\<lparr>gos := remove_nth n (gos s)\<rparr>)
      (connectTCP E p a bp ip port (s\<lparr>gos := remove_nth n (gos s)\<rparr>))"
    by (intro keeps_connectTCP) simp_all
  then show ?case
    using go_connect.prems by (blast intro: sys_inv_keeps keeps_trans keeps_go_remove)
qed (auto intro: sys_inv_keeps sys_inv_idle
       keeps_sockOpen keeps_checkEgress keeps_sockError keeps_sockCloseHeap keeps_enqueue
       keeps_timerStart keeps_timerStop keeps_timerCallback keeps_shutdown_sections
       keeps_readUDPIter keeps_readTCPIter keeps_trans [OF keeps_go_remove keeps_readUDPIter]
       keeps_trans [OF keeps_go_remove keeps_readTCPIter]
     simp: timerExpire_def)

lemma steps_inv: "steps x y \<Longrightarrow> sys_inv x \<Longrightarrow> sys_inv y"
  by (induction rule: rtranclp_induct) (auto intro: step_inv)

lemma reachable_inv: "reachable x \<Longrightarrow> sys_inv x"
  unfolding reachable_def using newInstanceState_inv by (rule steps_inv [rotated])

lemma reachable_start: "reachable (newInstanceState, Idle)"
  by (simp add: reachable_def)

lemma reachable_step: "reachable x \<Longrightarrow> step x y \<Longrightarrow> reachable y"
  by (auto simp: reachable_def intro: rtranclp.rtrancl_into_rtrancl)

lemma reachable_steps: "reachable x \<Longrightarrow> steps x y \<Longrightarrow> reachable y"
  by (auto simp: reachable_def intro: rtranclp_trans)

section \<open>Host calls as sequences of steps\<close>

lemma step_steps: "step x y \<Longrightarrow> steps x y"
  by (rule r_into_rtranclp)

lemma steps2: "step x y \<Longrightarrow> step y z \<Longrightarrow> steps x z"
  by (meson r_into_rtranclp rtranclp.rtrancl_into_rtrancl)

lemma call_sockBind:
  assumes "replay E = None"
  shows "steps (s, Idle) (fst (sockBind E i port s), Idle)"
proof (cases "(sint port < 0 \<or> sint port > 65535) \<or> sockLookup i s = None")
  case True
  then show ?thesis by (auto simp: sockBind_def)
next
  case False
  then obtain p where p: "sockLookup i s = Some p" by auto
  with False assms show ?thesis
    by (auto simp: sockBind_def intro: steps2 [OF g_bind g_bind_locked])
qed

lemma checkEgress_cases:
  obtains (denied) s' where "checkEgress ip port s = (s', False)"
  | (allowed) "checkEgress ip port s = (s, True)"
  by (cases "egressAllowed (AddrPortFrom ip port)") (auto simp: checkEgress_def Let_def)

lemma call_sockConnect:
  assumes "replay E = None"
  shows "steps (s, Idle) (fst (sockConnect E i ip port s), Idle)"
proof (cases "sint port \<le> 0 \<or> sint port > 65535")
  case True
  then show ?thesis by (simp add: sockConnect_def)
next
  case False
  show ?thesis
  proof (cases rule: checkEgress_cases [of ip "ucast port" s])
    case (denied s')
    with False assms show ?thesis
      by (auto simp: sockConnect_def intro: step_steps g_connect_denied)
  next
    case allowed
    with False assms show ?thesis
      by (auto simp: sockConnect_def split: option.splits
          intro: steps2 [OF g_connect g_connect_locked])
  qed
qed

lemma call_sockSendTo:
  assumes "replay E = None"
  shows "steps (s, Idle) (fst (sockSendTo E i ip port d s), Idle)"
proof (cases "(sint port \<le> 0 \<or> sint port > 65535)")
  case True
  then show ?thesis by (simp add: sockSendTo_def)
next
  case False
  show ?thesis
  proof (cases rule: checkEgress_cases [of ip "ucast port" s])
    case (denied s')
    with False assms show ?thesis
      by (auto simp: sockSendTo_def intro: step_steps g_connect_denied)
  next
    case allowed
    show ?thesis
    proof (cases "sockLookup i s")
      case None
      with allowed False assms show ?thesis by (simp add: sockSendTo_def)
    next
      case (Some p)
      let ?r = "AddrPortFrom ip (ucast port)"
      have b: "step (s, Idle) (s, InSendTo p ?r d)"
        using allowed Some by (rule g_sendto)
      show ?thesis
      proof (cases "sockSendToCheck p s")
        case None
        with allowed Some False assms b show ?thesis
          by (simp add: sockSendTo_def steps2 [OF b g_sendto_closed])
      next
        case check: (Some k)
        have "steps (s, Idle) (fst (sockSendToWrite E p k ?r d s), Idle)"
          using steps2 [OF b g_sendto_check [OF check]] g_sendto_write [OF assms]
          by (rule rtranclp.rtrancl_into_rtrancl)
        with allowed Some False assms check show ?thesis by (simp add: sockSendTo_def)
      qed
    qed
  qed
qed

lemma call_sockSend:
  "replay E = None \<Longrightarrow> steps (s, Idle) (fst (sockSend E i d s), Idle)"
  by (auto simp: sockSend_def Let_def call_sockSendTo split: option.splits)

lemma sockRecv_locked:
  assumes "sockLookup i s = Some p"
  shows "\<exists>ok. fst (sockRecv M E i ptr capacity withFrom ipOut portOut m s) =
    (case sockRecvLocked i p capacity ok s of
       (s', InEnqueue ev) \<Rightarrow> enqueue E ev s' | (s', _) \<Rightarrow> s')
    \<and> (snd (sockRecvLocked i p capacity ok s) = Idle \<or>
       snd (sockRecvLocked i p capacity ok s) = InEnqueue (ioEvent i ioRead))"
proof (cases "queue (socks s ! p)")
  case Nil
  with assms show ?thesis
    by (simp add: sockRecv_def sockRecvLocked_def Let_def split: option.splits)
next
  case (Cons pkt q)
  obtain s1 chunk where t: "sockRecvTake p capacity s = (s1, chunk)" by fastforce
  let ?R = "sockRecv M E i ptr capacity withFrom ipOut portOut m s"
  have "fst ?R = s1 \<or> fst ?R = (if queue (socks s1 ! p) \<noteq> [] then enqueue E (ioEvent i ioRead) s1 else s1)"
    using assms Cons by (auto simp: sockRecv_def t Let_def split: option.splits)
  then show ?thesis
  proof
    assume "fst ?R = s1"
    with Cons t show ?thesis by (intro exI [of _ False]) (simp add: sockRecvLocked_def)
  next
    assume "fst ?R = (if queue (socks s1 ! p) \<noteq> [] then enqueue E (ioEvent i ioRead) s1 else s1)"
    with Cons t show ?thesis by (intro exI [of _ True]) (simp add: sockRecvLocked_def)
  qed
qed

lemma call_sockRecv:
  "steps (s, Idle) (fst (sockRecv M E i ptr capacity withFrom ipOut portOut m s), Idle)"
proof (cases "sockLookup i s")
  case None
  then show ?thesis by (simp add: sockRecv_def)
next
  case (Some p)
  from sockRecv_locked [OF this, of M E ptr capacity withFrom ipOut portOut m] obtain ok where
    ok: "fst (sockRecv M E i ptr capacity withFrom ipOut portOut m s) =
      (case sockRecvLocked i p capacity ok s of (s', InEnqueue ev) \<Rightarrow> enqueue E ev s' | (s', _) \<Rightarrow> s')"
      "snd (sockRecvLocked i p capacity ok s) = Idle \<or>
       snd (sockRecvLocked i p capacity ok s) = InEnqueue (ioEvent i ioRead)" by blast
  obtain s1 f where l: "sockRecvLocked i p capacity ok s = (s1, f)" by fastforce
  have st: "steps (s, Idle) (s1, f)"
    using steps2 [OF g_recv [OF Some] g_recv_locked [of s i p capacity ok]] l by simp
  have "step (s1, InEnqueue ev) (enqueue E ev s1, Idle)" for ev
    by (rule g_enqueue)
  with ok l show ?thesis
    using st rtranclp.rtrancl_into_rtrancl [OF st, of "(enqueue E (ioEvent i ioRead) s1, Idle)"]
    by auto
qed

lemma call_sockClose: "steps (s, Idle) (sockClose i s, Idle)"
proof (cases "sockets s")
  case None
  then show ?thesis by (simp add: sockClose_def)
next
  case (Some m)
  show ?thesis
  proof (cases "map_of m i")
    case None
    then have "AList.delete i m = m" by (simp add: delete_id map_of_eq_None_iff)
    then have "sockClose i s = s\<lparr>sockets := sockets s\<rparr>"
      using None Some by (simp add: sockClose_def)
    then show ?thesis by simp
  next
    case found: (Some p)
    with Some show ?thesis
      by (simp add: sockClose_def steps2 [OF g_close g_close_locked])
  qed
qed

text \<open>
  The calls of the \<open>unbound_wasm\<close> import module that act on the instance state, and a guest
  run: a sequence of calls, each answered by its own environment.
\<close>

datatype hostCall =
    CallOpen i32 i32
  | CallBind i32 i32
  | CallConnect i32 addr i32
  | CallSend i32 bytes
  | CallSendTo i32 addr i32 bytes
  | CallRecv i32 u32 u32 bool u32 u32 bytes
  | CallError i32
  | CallClose i32
  | CallTimerStart i32
  | CallTimerStop u64

fun exec :: "hostenv \<Rightarrow> hostCall \<Rightarrow> istate \<Rightarrow> istate" where
  "exec E (CallOpen a t) s = fst (sockOpen a t s)"
| "exec E (CallBind i port) s = fst (sockBind E i port s)"
| "exec E (CallConnect i ip port) s = fst (sockConnect E i ip port s)"
| "exec E (CallSend i d) s = fst (sockSend E i d s)"
| "exec E (CallSendTo i ip port d) s = fst (sockSendTo E i ip port d s)"
| "exec E (CallRecv i ptr n withFrom ipOut portOut m) s =
     fst (sockRecv flat_ops E i ptr n withFrom ipOut portOut m s)"
| "exec E (CallError i) s = fst (sockError i s)"
| "exec E (CallClose i) s = sockClose i s"
| "exec E (CallTimerStart ms) s = fst (timerStart E ms s)"
| "exec E (CallTimerStop t) s = timerStop E t s"

fun runCalls :: "(hostenv \<times> hostCall) list \<Rightarrow> istate \<Rightarrow> istate" where
  "runCalls [] s = s"
| "runCalls ((E, c) # cs) s = runCalls cs (exec E c s)"

lemma exec_steps: "replay E = None \<Longrightarrow> steps (s, Idle) (exec E c s, Idle)"
  by (cases c) (auto intro: call_sockBind call_sockConnect call_sockSendTo call_sockSend
      call_sockRecv call_sockClose step_steps g_open g_error g_timer_start g_timer_stop)

lemma runCalls_steps:
  "\<forall>(E, c) \<in> set cs. replay E = None \<Longrightarrow> steps (s, Idle) (runCalls cs s, Idle)"
  by (induction cs s rule: runCalls.induct) (auto intro: rtranclp_trans exec_steps)

lemma runCalls_reachable:
  "\<forall>(E, c) \<in> set cs. replay E = None \<Longrightarrow> reachable (runCalls cs newInstanceState, Idle)"
  by (auto simp: reachable_def intro: runCalls_steps)

lemma shutdown_steps: "steps (s, f) (shutdown err s, f)"
proof -
  have c: "steps (s, f) (shutdownSockets s, f)" if "once s = OnceTimers" for s
    by (rule step_steps) (rule sd_sockets [OF that])
  have b: "steps (s, f) (shutdownSockets (shutdownTimers s), f)" if "once s = OnceMarked" for s
    by (rule converse_rtranclp_into_rtranclp [OF sd_timers [OF that] c]) simp
  have a: "steps (s, f) (shutdownSockets (shutdownTimers (shutdownMark err s)), f)"
    if "once s = OnceNew" for s
    by (rule converse_rtranclp_into_rtranclp [OF sd_mark [OF that] b]) simp
  show ?thesis by (cases "once s") (simp_all add: shutdown_def a b c)
qed

end
