(* ===== verification/HostEffect.thy ===== *)
theory HostEffect
  imports Interleaving
begin

text \<open>
  The interface between the critical sections of the host and the facts that hold along whole
  runs: the locale \<open>host_effect\<close> names the kinds of updates the sections are made of, and shows
  that a preorder they satisfy relates the states of every step. Its interpretations on the model
  are in the theory \<open>Ownership\<close>.
\<close>

section \<open>Effects shared by every step\<close>

text \<open>
  The critical sections are built from a few kinds of updates. A preorder on instance states that
  each kind of update satisfies relates the two states of every step; the locale proves that once,
  and the monotone facts about runs are its interpretations. Removing a socket from the map is
  set apart: it is the only update after which a socket is neither open for lookup nor closed.
\<close>

lemma sys_inv_close: "sys_inv (s, InClose p) \<Longrightarrow> p < length (socks s)"
  by (simp add: sys_inv_def)

locale host_effect =
  fixes R :: "istate \<Rightarrow> istate \<Rightarrow> bool"
  assumes refl [simp]: "R s s"
    and trans: "R s s' \<Longrightarrow> R s' s'' \<Longrightarrow> R s s''"
    and sock: "(\<And>k. sockId (f k) = sockId k \<and> stype (f k) = stype k \<and> af (f k) = af k
                   \<and> (closed k \<longrightarrow> closed (f k))) \<Longrightarrow> R s (s\<lparr>socks := upd (socks s) p f\<rparr>)"
    and conn_add: "R s (s\<lparr>conns := conns s @ [c]\<rparr>)"
    and close: "p < length (socks s) \<Longrightarrow> R s (sockCloseHeap p s)"
    and net: "R s (s\<lparr>net := net s @ [act]\<rparr>)"
    and gos: "R s (s\<lparr>gos := g\<rparr>)"
    and logs: "R s (s\<lparr>logs := l\<rparr>)"
    and events: "R s (s\<lparr>events := es\<rparr>)"
    and open': "sockets s = Some m \<Longrightarrow> length m < maxSocketsPerInstance \<Longrightarrow>
       R s (s\<lparr>nextSocket := nextSocket s + 1, socks := socks s @ [newSocket (nextSocket s) fam ty],
              sockets := Some (AList.update (nextSocket s) (length (socks s)) m)\<rparr>)"
    and nextTimer: "R s (s\<lparr>nextTimer := n\<rparr>)"
    and timer_add: "timers s = Some tm \<Longrightarrow>
       R s (s\<lparr>timerHeap := timerHeap s @ [\<lparr>timerId = t, timerMs = ms, status = Armed\<rparr>],
              timers := Some (AList.update t (length (timerHeap s)) tm)\<rparr>)"
    and timer_del: "timers s = Some tm \<Longrightarrow> R s (s\<lparr>timers := Some (AList.delete t tm)\<rparr>)"
    and timer_stop: "R s (timerStopHeap p s)"
    and timer_expire: "p < length (timerHeap s) \<Longrightarrow> status (timerHeap s ! p) = Armed \<Longrightarrow>
       R s (timerExpire p s)"
    and timer_fired: "p < length (timerHeap s) \<Longrightarrow> status (timerHeap s ! p) = Firing \<Longrightarrow>
       R s (s\<lparr>timerHeap := upd (timerHeap s) p (\<lambda>k. k\<lparr>status := Stopped\<rparr>)\<rparr>)"
    and sd_mark: "once s = OnceNew \<Longrightarrow> R s (shutdownMark err s)"
    and sd_timers: "once s = OnceMarked \<Longrightarrow> R s (shutdownTimers s)"
    and sd_sockets: "once s = OnceTimers \<Longrightarrow> R s (shutdownSockets s)"
begin

lemma eff_shutdown: "R s (shutdown err s)"
  by (auto simp: shutdown_def split: oncePhase.splits
      intro: sd_sockets trans [OF sd_timers sd_sockets]
        trans [OF sd_mark trans [OF sd_timers sd_sockets]])

lemma eff_enqueue: "R s (enqueue E ev s)"
  by (auto simp: enqueue_def Let_def fail_def intro: events eff_shutdown)

lemma eff_enqueue_after: "R s s' \<Longrightarrow> R s (enqueue E ev s')"
  by (rule trans [OF _ eff_enqueue])

lemma eff_checkEgress: "checkEgress ip port s = (s', b) \<Longrightarrow> R s s'"
  by (auto simp: checkEgress_def Let_def intro: logs split: if_splits)

lemma eff_sockOpen: "R s (fst (sockOpen a t s))"
  by (auto simp: sockOpen_def Let_def not_le intro: open' split: option.splits)

lemma eff_listen: "R s (fst (listenUDPLocked E p s))"
  using trans [OF conn_add trans [OF sock gos]]
  by (auto simp: listenUDPLocked_def Let_def split: sum.splits)

lemma eff_bind: "R s (fst (sockBindLocked E p port s))"
proof -
  define s1 where "s1 = s\<lparr>socks := upd (socks s) p (\<lambda>k. k\<lparr>bindPort := ucast port\<rparr>)\<rparr>"
  have k1: "R s s1" unfolding s1_def by (rule sock) simp
  obtain s2 r where l: "listenUDPLocked E p s1 = (s2, r)" by fastforce
  have k2: "R s s2" using trans [OF k1 eff_listen [of s1 E p]] l by simp
  show ?thesis
    using k1 k2 by (simp add: sockBindLocked_def Let_def l flip: s1_def split: option.splits)
qed

lemma eff_connect: "R s (fst (sockConnectLocked E i p ip port s))"
proof -
  define s1 where "s1 = s\<lparr>socks := upd (socks s) p (\<lambda>k. k\<lparr>remote := AddrPortFrom ip port\<rparr>)\<rparr>"
  have k1: "R s s1" unfolding s1_def by (rule sock) simp
  obtain s2 r where
    l: "(if udp (socks s1 ! p) = None then listenUDPLocked E p s1 else (s1, None)) = (s2, r)"
    by fastforce
  have k2: "R s s2" using trans [OF k1 eff_listen [of s1 E p]] k1 l by (auto split: if_splits)
  have k3: "R s (s1\<lparr>gos := g\<rparr>)" for g by (rule trans [OF k1 gos])
  show ?thesis
    using k1 k2 k3 eff_enqueue_after [OF k2]
    by (simp add: sockConnectLocked_def Let_def l flip: s1_def split: option.splits)
qed

lemma eff_write: "R s (fst (sockSendToWrite E p k rem d s))"
proof -
  obtain t u c where k: "k = (t, u, c)" by (cases k)
  obtain s2 r where l: "(case u of Some x \<Rightarrow> (s, None) | None \<Rightarrow> listenUDPLocked E p s) = (s2, r)"
    by fastforce
  have k2: "R s s2" using eff_listen [of s E p] l by (cases u) auto
  have "R s (s2\<lparr>net := net s2 @ [a]\<rparr>)" for a by (rule trans [OF k2 net])
  with k2 net show ?thesis
    by (simp add: sockSendToWrite_def k l Let_def split: option.splits sum.splits)
qed

lemma eff_recv: "R s (fst (sockRecvLocked i p capacity ok s))"
  by (auto simp: sockRecvLocked_def sockRecvTake_def Let_def intro!: sock)

lemma eff_error: "R s (fst (sockError i s))"
  by (auto simp: sockError_def intro!: sock split: option.splits)

lemma eff_push: "R s (push E p d from s)"
  by (auto simp: push_def Let_def intro!: eff_enqueue_after sock)

lemma eff_readError: "R s (readError E p err s)"
  by (auto simp: readError_def Let_def intro!: eff_enqueue_after sock)

lemma eff_readUDPIter: "readUDPIter E p r s = (s', b) \<Longrightarrow> R s s'"
  by (auto simp: readUDPIter_def eff_push eff_readError split: sum.splits)

lemma eff_readTCPIter: "readTCPIter E p d err s = (s', b) \<Longrightarrow> R s s'"
  by (auto simp: readTCPIter_def Let_def eff_push eff_readError
      intro: trans [OF eff_push eff_readError] split: option.splits if_splits)

lemma eff_connectTCP: "R s (connectTCP E p a bp ip port s)"
proof -
  let ?r = "AddrPortFrom ip port"
  define s1 where "s1 = s\<lparr>net := net s @ [NetDial ?r]\<rparr>"
  have k1: "R s s1" unfolding s1_def by (rule net)
  have k2: "R s (s1\<lparr>conns := conns s1 @ [x]\<rparr>)" for x
    by (rule trans [OF k1 conn_add])
  have k3: "R s (s1\<lparr>socks := upd (socks s1) p (\<lambda>k. k\<lparr>sockErr := e\<rparr>)\<rparr>)" for e
    by (rule trans [OF k1 sock]) simp
  have "R (s1\<lparr>conns := conns s1 @ [x]\<rparr>) (s1\<lparr>conns := conns s1 @ [x],
      socks := upd (socks s1) p (\<lambda>k. k\<lparr>sockErr := None, tcp := c\<rparr>)\<rparr>)" for x c
    using sock [of "\<lambda>k. k\<lparr>sockErr := None, tcp := c\<rparr>" "s1\<lparr>conns := conns s1 @ [x]\<rparr>" p] by simp
  then have "R s (enqueue E ev (s1\<lparr>conns := conns s1 @ [x],
      socks := upd (socks s1) p (\<lambda>k. k\<lparr>sockErr := None, tcp := c\<rparr>)\<rparr>))" for x c ev
    by (blast intro: eff_enqueue_after trans k2)
  then show ?thesis
    using k1 k2 eff_enqueue_after [OF k3]
    by (auto simp: connectTCP_def Let_def simp flip: s1_def intro: trans [OF _ gos] split: sum.splits)
qed

lemma eff_timerStart:
  assumes "replay E = None"
  shows "R s (fst (timerStart E ms s))"
proof (cases "timers s")
  case None
  with assms nextTimer show ?thesis by (simp add: timerStart_def Let_def)
next
  case (Some m)
  then have "R (s\<lparr>nextTimer := n\<rparr>)
      (s\<lparr>nextTimer := n, timerHeap := timerHeap s @ [\<lparr>timerId = t, timerMs = ms, status = Armed\<rparr>],
         timers := Some (AList.update t (length (timerHeap s)) m)\<rparr>)" for n t ms
    using timer_add [of "s\<lparr>nextTimer := n\<rparr>" m t ms] by simp
  with trans [OF nextTimer] have "R s (s\<lparr>nextTimer := n,
         timerHeap := timerHeap s @ [\<lparr>timerId = t, timerMs = ms, status = Armed\<rparr>],
         timers := Some (AList.update t (length (timerHeap s)) m)\<rparr>)" for n t ms
    by blast
  with assms Some nextTimer show ?thesis by (simp add: timerStart_def Let_def)
qed

lemma eff_timerStop: "replay E = None \<Longrightarrow> R s (timerStop E t s)"
  by (auto simp: timerStop_def split: option.splits intro: trans [OF timer_stop timer_del])

lemma eff_timerCallback:
  assumes "p < length (timerHeap s)" and "status (timerHeap s ! p) = Firing"
  shows "R s (timerCallback E p s)"
proof -
  define s1 where "s1 = s\<lparr>timerHeap := upd (timerHeap s) p (\<lambda>k. k\<lparr>status := Stopped\<rparr>)\<rparr>"
  have "R s s1" unfolding s1_def using assms by (rule timer_fired)
  then have "timers s1 = Some m \<Longrightarrow> R s (s1\<lparr>timers := Some (AList.delete t m)\<rparr>)" for m t
    by (blast intro: trans timer_del)
  with \<open>R s s1\<close> show ?thesis
    by (auto simp: timerCallback_def Let_def simp flip: s1_def intro!: eff_enqueue_after
        split: option.splits)
qed

theorem step_effect:
  "step x y \<Longrightarrow> sys_inv x \<Longrightarrow> R (fst x) (fst y) \<or>
     (\<exists>s m i p. x = (s, Idle) \<and> sockets s = Some m \<and> map_of m i = Some p
        \<and> y = (s\<lparr>sockets := Some (AList.delete i m)\<rparr>, InClose p))"
  by (induction rule: step.induct)
     (auto intro: close [OF sys_inv_close] eff_checkEgress eff_readUDPIter eff_readTCPIter trans [OF gos eff_readUDPIter]
        trans [OF gos eff_readTCPIter] trans [OF gos eff_connectTCP] events
      simp: eff_sockOpen eff_bind eff_connect eff_write eff_recv eff_enqueue eff_error
        eff_timerStart eff_timerStop eff_timerCallback timer_expire logs sd_mark sd_timers sd_sockets)

end

text \<open>A preorder that removing a map entry satisfies as well holds across whole runs.\<close>

locale host_effect_run = host_effect +
  assumes delete: "sockets s = Some m \<Longrightarrow> R s (s\<lparr>sockets := Some (AList.delete i m)\<rparr>)"
begin

lemma step_run: "step x y \<Longrightarrow> sys_inv x \<Longrightarrow> R (fst x) (fst y)"
  using step_effect delete by fastforce

lemma steps_run: "steps x y \<Longrightarrow> sys_inv x \<Longrightarrow> R (fst x) (fst y)"
  by (induction rule: rtranclp_induct) (auto intro: trans step_run steps_inv)

end

end
