(* ===== verification/Ownership.thy ===== *)
theory Ownership
  imports HostEffect
begin

text \<open>
  Facts that hold along every run of an instance, as interpretations of \<open>host_effect\<close>: the
  first cause of a shutdown is kept, timers only move forward, socket identifiers are unique,
  and a socket that no identifier leads to any more is closed.
\<close>

section \<open>The first cause of a shutdown wins\<close>

definition cause_kept :: "istate \<Rightarrow> istate \<Rightarrow> bool" where
  "cause_kept s s' \<longleftrightarrow> ((isDone s \<longleftrightarrow> once s \<noteq> OnceNew) \<longrightarrow> (isDone s' \<longleftrightarrow> once s' \<noteq> OnceNew)
     \<and> (isDone s \<longrightarrow> isDone s' \<and> stErr s' = stErr s))"

interpretation cause: host_effect_run cause_kept
proof unfold_locales
  show "cause_kept a c" if "cause_kept a b" "cause_kept b c" for a b c
    using that unfolding cause_kept_def by metis
qed (simp_all add: cause_kept_def shutdownMark_def timerExpire_def timerStopHeap_def)

section \<open>Timers only move forward\<close>

fun timer_le :: "timerStatus \<Rightarrow> timerStatus \<Rightarrow> bool" where
  "timer_le Armed b = True"
| "timer_le Firing b = (b \<noteq> Armed)"
| "timer_le Stopped b = (b = Stopped)"

definition timers_mono :: "timer list \<Rightarrow> timer list \<Rightarrow> bool" where
  "timers_mono h h' \<longleftrightarrow> length h \<le> length h'
     \<and> (\<forall>p < length h. timerId (h' ! p) = timerId (h ! p) \<and> timer_le (status (h ! p)) (status (h' ! p)))"

lemma timer_le_refl [simp]: "timer_le a a"
  by (cases a) auto

lemma timer_le_trans: "timer_le a b \<Longrightarrow> timer_le b c \<Longrightarrow> timer_le a c"
  by (cases a; cases b) auto

lemma timers_mono_refl [simp]: "timers_mono h h"
  by (simp add: timers_mono_def)

lemma timers_mono_trans: "timers_mono a b \<Longrightarrow> timers_mono b c \<Longrightarrow> timers_mono a c"
  unfolding timers_mono_def by (auto intro: timer_le_trans dest: order.strict_trans2)

lemma timers_mono_append [simp]: "timers_mono h (h @ t)"
  by (simp add: timers_mono_def nth_append)

lemma timers_mono_stop: "timers_mono (timerHeap s) (timerHeap (timerStopHeap p s))"
  by (auto simp: timers_mono_def timerStopHeap_def nth_upd)

lemma timers_mono_fold_stop:
  "timers_mono (timerHeap s) (timerHeap (fold (\<lambda>(_, p). timerStopHeap p) m s))"
  by (rule fold_keeps [where P = "\<lambda>s'. timers_mono (timerHeap s) (timerHeap s')"])
     (auto intro: timers_mono_trans timers_mono_stop)

interpretation tmono: host_effect_run "\<lambda>s s'. timers_mono (timerHeap s) (timerHeap s')"
proof unfold_locales
  show "timers_mono (timerHeap s) (timerHeap (shutdownTimers s))" if "once s = OnceMarked" for s
    by (simp add: shutdownTimers_def timers_mono_fold_stop split: option.splits)
  show "timers_mono (timerHeap s) (timerHeap (shutdownSockets s))" if "once s = OnceTimers" for s
    by (simp add: shutdownSockets_def split: option.splits)
  show "timers_mono (timerHeap a) (timerHeap c)"
    if "timers_mono (timerHeap a) (timerHeap b)" "timers_mono (timerHeap b) (timerHeap c)" for a b c
    using that by (rule timers_mono_trans)
  show "timers_mono (timerHeap s) (timerHeap (timerExpire p s))"
    if "p < length (timerHeap s)" "status (timerHeap s ! p) = Armed" for p s
    using that by (auto simp: timers_mono_def timerExpire_def nth_upd)
  show "timers_mono (timerHeap s) (timerHeap (s\<lparr>timerHeap := upd (timerHeap s) p (status_update (\<lambda>_. Stopped))\<rparr>))"
    if "p < length (timerHeap s)" "status (timerHeap s ! p) = Firing" for p s
    using that by (auto simp: timers_mono_def nth_upd)
qed (simp_all add: shutdownMark_def timers_mono_stop)

section \<open>Socket identities\<close>

text \<open>
  Socket \<open>p\<close> of the heap has the identifier \<open>p + 1\<close> modulo \<open>2 ^ 32\<close>, the map is keyed by
  those identifiers, and the next one is as fresh as 32 bits allow.
\<close>

definition ids_ok :: "i32 \<Rightarrow> hostSocket list \<Rightarrow> (i32 \<times> nat) list option \<Rightarrow> bool" where
  "ids_ok n ks om \<longleftrightarrow> n = of_nat (Suc (length ks))
     \<and> (\<forall>p < length ks. sockId (ks ! p) = of_nat (Suc p))
     \<and> (\<forall>m. om = Some m \<longrightarrow> distinct (map fst m)
          \<and> (\<forall>(i, p) \<in> set m. p < length ks \<and> i = of_nat (Suc p)))"

abbreviation ids_inv :: "istate \<Rightarrow> bool" where
  "ids_inv s \<equiv> ids_ok (nextSocket s) (socks s) (sockets s)"

lemma set_update_subset: "set (AList.update k v m) \<subseteq> insert (k, v) (set m)"
  by (induction m) auto

lemma ids_ok_open:
  assumes "ids_ok n ks (Some m)"
  shows "ids_ok (n + 1) (ks @ [newSocket n fam ty]) (Some (AList.update n (length ks) m))"
  using assms set_update_subset [of n "length ks" m]
  by (fastforce simp: ids_ok_def nth_append newSocket_def less_Suc_eq distinct_update)

lemma ids_ok_upd: "ids_ok n ks om \<Longrightarrow> (\<And>k. sockId (f k) = sockId k) \<Longrightarrow> ids_ok n (upd ks p f) om"
  by (auto simp: ids_ok_def nth_upd)

lemma ids_ok_delete: "ids_ok n ks (Some m) \<Longrightarrow> ids_ok n ks (Some (AList.delete i m))"
  by (auto simp: ids_ok_def distinct_delete) (auto simp: AList.delete_eq)

lemma ids_ok_None: "ids_ok n ks om \<Longrightarrow> ids_ok n ks None"
  by (simp add: ids_ok_def)

lemma ids_ok_close: "ids_inv s \<Longrightarrow> ids_ok (nextSocket s) (socks (sockCloseHeap p s)) (sockets s)"
  by (simp add: sockCloseHeap_def ids_ok_upd)

lemma ids_ok_fold_close: "ids_inv s \<Longrightarrow> ids_inv (fold (\<lambda>(_, p). sockCloseHeap p) m s)"
  for m :: "(i32 \<times> nat) list"
  by (rule fold_keeps) (auto simp: ids_ok_close)

lemma ids_ok_shutdownSockets: "ids_inv s \<Longrightarrow> ids_ok (nextSocket (shutdownSockets s)) (socks (shutdownSockets s)) None"
  using ids_ok_None [OF ids_ok_fold_close [of s]]
  by (auto simp: shutdownSockets_def intro: ids_ok_None split: option.splits)

interpretation ids: host_effect_run "\<lambda>s s'. ids_inv s \<longrightarrow> ids_inv s'"
  by unfold_locales
     (auto simp: ids_ok_upd ids_ok_delete ids_ok_shutdownSockets shutdownMark_def
        shutdownTimers_def timerStopHeap_def timerExpire_def dest: ids_ok_open ids_ok_close
        split: option.splits)

section \<open>A socket that left the map is closed\<close>

text \<open>
  A socket is orphaned when it is still open but no identifier leads to it any more. While fewer
  than \<open>2 ^ 32\<close> sockets were opened, only the section between removing the map entry and closing
  the socket has one.
\<close>

definition orphan :: "hostSocket list \<Rightarrow> (i32 \<times> nat) list option \<Rightarrow> nat \<Rightarrow> bool" where
  "orphan ks om p \<longleftrightarrow> p < length ks \<and> \<not> closed (ks ! p)
     \<and> (\<forall>m. om = Some m \<longrightarrow> p \<notin> snd ` set m)"

definition no_new_orphan :: "istate \<Rightarrow> istate \<Rightarrow> bool" where
  "no_new_orphan s s' \<longleftrightarrow> length (socks s) \<le> length (socks s') \<and>
     (ids_inv s \<and> length (socks s') < 2 ^ 32 \<longrightarrow> ids_inv s'
        \<and> (\<forall>p. orphan (socks s') (sockets s') p \<longrightarrow> orphan (socks s) (sockets s) p))"

lemma fresh_id:
  assumes "ids_ok n ks (Some m)" and "Suc (length ks) < 2 ^ 32"
  shows "n \<notin> fst ` set m"
proof
  assume "n \<in> fst ` set m"
  then obtain p where "(n, p) \<in> set m" by auto
  with assms(1) have p: "p < length ks" "n = (of_nat (Suc p) :: i32)" "n = of_nat (Suc (length ks))"
    by (auto simp: ids_ok_def)
  then have "unat (of_nat (Suc p) :: i32) = unat (of_nat (Suc (length ks)) :: i32)" by simp
  with p(1) assms(2) show False by (simp add: unat_of_nat del: of_nat_Suc)
qed

lemma set_update_fresh: "k \<notin> fst ` set m \<Longrightarrow> set (AList.update k v m) = insert (k, v) (set m)"
  by (induction m) auto

lemma orphan_open:
  assumes "ids_ok n ks (Some m)" and "Suc (length ks) < 2 ^ 32"
    and "orphan (ks @ [k]) (Some (AList.update n (length ks) m)) p"
  shows "orphan ks (Some m) p"
  using assms(3) set_update_fresh [OF fresh_id [OF assms(1,2)], of "length ks"]
  by (auto simp: orphan_def nth_append less_Suc_eq split: if_splits)

lemma orphan_upd:
  "orphan (upd ks q f) om p \<Longrightarrow> (\<And>k. closed k \<longrightarrow> closed (f k)) \<Longrightarrow> orphan ks om p"
  by (auto simp: orphan_def nth_upd split: if_splits)

lemma closed_sockCloseHeap:
  "closed (socks s ! p) \<Longrightarrow> p < length (socks s) \<Longrightarrow> closed (socks (sockCloseHeap q s) ! p)"
  by (auto simp: sockCloseHeap_def nth_upd)

lemma closed_sockCloseHeap_same: "p < length (socks s) \<Longrightarrow> closed (socks (sockCloseHeap p s) ! p)"
  by (auto simp: sockCloseHeap_def)

lemma length_sockCloseHeap [simp]: "length (socks (sockCloseHeap p s)) = length (socks s)"
  by (simp add: sockCloseHeap_def)

lemma length_fold_sockCloseHeap [simp]:
  "length (socks (fold (\<lambda>(_, p). sockCloseHeap p) m s)) = length (socks s)"
  by (rule fold_same [where g = "\<lambda>s. length (socks s)"]) (simp split: prod.splits)

lemma closed_fold_keep:
  "closed (socks s ! p) \<Longrightarrow> p < length (socks s) \<Longrightarrow>
   closed (socks (fold (\<lambda>(_, q). sockCloseHeap q) m s) ! p)"
  by (induction m arbitrary: s) (auto simp: closed_sockCloseHeap)

lemma closed_fold_mem:
  "p \<in> snd ` set m \<Longrightarrow> p < length (socks s) \<Longrightarrow>
   closed (socks (fold (\<lambda>(_, q). sockCloseHeap q) m s) ! p)"
  by (induction m arbitrary: s) (fastforce simp: closed_fold_keep closed_sockCloseHeap_same image_iff)+

lemma orphan_shutdownSockets:
  assumes "orphan (socks (shutdownSockets s)) None p"
  shows "orphan (socks s) (sockets s) p"
proof (cases "sockets s")
  case None
  with assms show ?thesis by (simp add: shutdownSockets_def)
next
  case (Some m)
  let ?F = "fold (\<lambda>(_, q). sockCloseHeap q) m s"
  from assms Some have p: "p < length (socks s)" "\<not> closed (socks ?F ! p)"
    by (auto simp: shutdownSockets_def orphan_def)
  with closed_fold_mem [of p m s] closed_fold_keep [of s p m] Some show ?thesis
    by (auto simp: orphan_def)
qed

lemma length_shutdownSockets [simp]: "length (socks (shutdownSockets s)) = length (socks s)"
  by (simp add: shutdownSockets_def split: option.splits)

interpretation orph: host_effect no_new_orphan
proof unfold_locales
  show "no_new_orphan a c" if "no_new_orphan a b" "no_new_orphan b c" for a b c
    using that by (auto simp: no_new_orphan_def)
  show "no_new_orphan s (s\<lparr>socks := upd (socks s) p f\<rparr>)"
    if "\<And>k. sockId (f k) = sockId k \<and> stype (f k) = stype k \<and> af (f k) = af k
          \<and> (closed k \<longrightarrow> closed (f k))" for f s p
    using that by (auto simp: no_new_orphan_def ids_ok_upd intro: orphan_upd)
  show "no_new_orphan s (s\<lparr>nextSocket := nextSocket s + 1,
      socks := socks s @ [newSocket (nextSocket s) fam ty],
      sockets := Some (AList.update (nextSocket s) (length (socks s)) m)\<rparr>)"
    if "sockets s = Some m" "length m < maxSocketsPerInstance" for s m fam ty
    using that by (auto simp: no_new_orphan_def intro: orphan_open ids_ok_open)
  show "no_new_orphan s (sockCloseHeap p s)" for s p
    using ids_ok_close [of s p]
    by (auto simp: no_new_orphan_def sockCloseHeap_def intro: orphan_upd)
  show "no_new_orphan s (shutdownSockets s)" if "once s = OnceTimers" for s
    using that ids_ok_shutdownSockets [of s]
    by (auto simp: no_new_orphan_def intro: orphan_shutdownSockets)
qed (simp_all add: no_new_orphan_def shutdownMark_def shutdownTimers_def timerStopHeap_def timerExpire_def
     split: option.splits)

lemma step_InClose:
  assumes "step (s, InClose p) y" and "p < length (socks s)"
  shows "snd y = InClose p \<or> closed (socks (fst y) ! p)"
  using assms(1)
proof (cases rule: step.cases)
  case g_close_locked
  with assms(2) show ?thesis by (simp add: closed_sockCloseHeap_same)
qed simp_all

lemma newInstanceState_ids: "ids_inv newInstanceState"
  by (simp add: newInstanceState_def ids_ok_def)

lemma reachable_ids: "reachable x \<Longrightarrow> ids_inv (fst x)"
  using ids.steps_run [of "(newInstanceState, Idle)" x] newInstanceState_ids newInstanceState_inv
  by (simp add: reachable_def)

lemma step_orphans:
  assumes "step x y" and "ids_inv (fst x)" and "length (socks (fst y)) < 2 ^ 32"
    and "sys_inv x"
    and "\<And>p. orphan (socks (fst x)) (sockets (fst x)) p \<Longrightarrow> snd x = InClose p"
    and "orphan (socks (fst y)) (sockets (fst y)) p"
  shows "snd y = InClose p"
  using orph.step_effect [OF assms(1,4)]
proof
  assume "no_new_orphan (fst x) (fst y)"
  with assms(2,3,6) have "orphan (socks (fst x)) (sockets (fst x)) p"
    by (auto simp: no_new_orphan_def)
  with assms(5) have "x = (fst x, InClose p)" "p < length (socks (fst x))"
    by (auto simp: orphan_def prod_eq_iff)
  with step_InClose [of "fst x" p y] assms(1,6) show ?thesis by (auto simp: orphan_def)
next
  assume "\<exists>s m i q. x = (s, Idle) \<and> sockets s = Some m \<and> map_of m i = Some q
            \<and> y = (s\<lparr>sockets := Some (AList.delete i m)\<rparr>, InClose q)"
  then obtain s m i q where x: "x = (s, Idle)" "sockets s = Some m" "map_of m i = Some q"
    "y = (s\<lparr>sockets := Some (AList.delete i m)\<rparr>, InClose q)" by blast
  from assms(5) x(1) have "\<not> orphan (socks s) (sockets s) p" by fastforce
  with assms(6) x have "p \<in> snd ` set m" "p \<notin> snd ` set (AList.delete i m)"
    by (auto simp: orphan_def)
  then obtain j where j: "(j, p) \<in> set m" by auto
  have "j = i"
  proof (rule ccontr)
    assume "j \<noteq> i"
    with j have "(j, p) \<in> set (AList.delete i m)" by (simp add: AList.delete_eq)
    then have "p \<in> snd ` set (AList.delete i m)" by (metis image_eqI snd_conv)
    with \<open>p \<notin> snd ` set (AList.delete i m)\<close> show False by blast
  qed
  moreover from assms(2) x have "distinct (map fst m)" by (simp add: ids_ok_def)
  ultimately have "map_of m i = Some p" using j by (simp add: map_of_eq_Some_iff)
  with x show ?thesis by simp
qed

lemma reachable_orphans:
  assumes "reachable x" and "length (socks (fst x)) < 2 ^ 32"
    and "orphan (socks (fst x)) (sockets (fst x)) p"
  shows "snd x = InClose p"
  using assms unfolding reachable_def
proof (induction arbitrary: p rule: rtranclp_induct)
  case base
  then show ?case by (simp add: orphan_def newInstanceState_def)
next
  case (step y z)
  have ids: "ids_inv (fst y)" using reachable_ids [unfolded reachable_def, OF step.hyps(1)] .
  have si: "sys_inv y" using reachable_inv [unfolded reachable_def, OF step.hyps(1)] .
  have "length (socks (fst y)) \<le> length (socks (fst z))"
    using orph.step_effect [OF step.hyps(2) si] by (auto simp: no_new_orphan_def)
  with step.prems(1) have "length (socks (fst y)) < 2 ^ 32" by simp
  with step.IH have "\<And>q. orphan (socks (fst y)) (sockets (fst y)) q \<Longrightarrow> snd y = InClose q" by blast
  then show ?case by (rule step_orphans [OF step.hyps(2) ids step.prems(1) si _ step.prems(2)])
qed

end
