(* ===== verification/InstanceProps.thy ===== *)
theory InstanceProps
  imports Ownership
begin

text \<open>
  The properties of a running instance: what reaches the network, the bounds on its resources,
  what a shutdown does, socket and timer identities, the event queue and the receive path, each
  over all reachable states of the interleaving model. Two statements are about what the code does
  not guarantee: a send that races with a shutdown leaves a UDP socket behind, and repeated
  connects give one socket any number of open connections.
\<close>

section \<open>Definitions used by the statements\<close>

text \<open>The destination of what the host sends: a write goes to the peer its connection dialed.\<close>

fun destination :: "istate \<Rightarrow> netAction \<Rightarrow> addrport" where
  "destination s (NetDial r) = r"
| "destination s (NetSendTo c r d) = r"
| "destination s (NetWrite c d) = peer (conns s ! c)"

text \<open>The bytes received on a socket and not yet read.\<close>

definition stream :: "nat \<Rightarrow> istate \<Rightarrow> bytes" where
  "stream p s = concat (map pktData (queue (socks s ! p)))"

text \<open>
  A concrete environment for examples: every operating system call succeeds. Two example runs: a
  guest that opens a UDP socket and sends a datagram; a socket that received three bytes.
\<close>

definition quietEnv :: hostenv where
  "quietEnv = \<lparr>replay = None, selDone = False, osListenUDP = (\<lambda>_ _. Inr 40000),
     osDialTCP = (\<lambda>_ _ _. Inr 40000), osWriteUDP = (\<lambda>_ d _. Inr (length d)),
     osWriteTCP = (\<lambda>_ d. Inr (length d))\<rparr>"

definition sendRun :: "(hostenv \<times> hostCall) list" where
  "sendRun = [(quietEnv, CallOpen 4 1), (quietEnv, CallSendTo 1 (ip4 8 8 8 8) 53 [1, 2, 3])]"

definition recvState :: "i32 \<Rightarrow> istate" where
  "recvState t = push quietEnv 0 [1, 2, 3] (AddrPortFrom (ip4 8 8 8 8) 53)
     (fst (sockOpen 4 t newInstanceState))"

lemmas run_eval = newInstanceState_def quietEnv_def sockOpen_def sockSendTo_def sockLookup_def
  checkEgress_def public_dns_allowed sockSendToCheck_def sockSendToWrite_def listenUDPLocked_def
  newSocket_def upd_def

lemma sendRun_net:
  "net (runCalls sendRun newInstanceState) = [NetSendTo 0 (AddrPortFrom (ip4 8 8 8 8) 53) [1, 2, 3]]"
  by (simp add: sendRun_def run_eval Let_def)

lemma sendRun_reachable: "reachable (runCalls sendRun newInstanceState, Idle)"
  by (rule runCalls_reachable) (simp add: sendRun_def quietEnv_def)

lemma recvState_eval:
  assumes "t = socketUDP \<or> t = socketTCP"
  shows "sockLookup 1 (recvState t) = Some 0" "0 < length (socks (recvState t))"
    "queue (socks (recvState t) ! 0) = [\<lparr>pktData = [1, 2, 3], pktFrom = AddrPortFrom (ip4 8 8 8 8) 53\<rparr>]"
    "stype (socks (recvState t) ! 0) = t"
  using assms by (auto simp: recvState_def push_def enqueue_def run_eval Let_def)

section \<open>What reaches the network\<close>

text \<open>C2: every packet and connection the host ever makes for a guest, in any interleaving of guest calls, goroutines, timers and shutdown, goes to port 53 of a public unicast address.\<close>

theorem egress_safety:
  assumes "reachable (s, f)" and "a \<in> set (net s)"
  shows "apPort (destination s a) = 53 \<and> public_unicast (Unmap (apAddr (destination s a)))"
proof -
  from reachable_inv [OF assms(1)] assms(2) have "act_ok (conns s) a"
    by (simp add: sys_inv_def inst_inv_def net_inv_def)
  then show ?thesis by (cases a) (simp_all add: egressAllowed_eq tcp_ok_def)
qed

theorem egress_safety_witness:
  "reachable (runCalls sendRun newInstanceState, Idle)
   \<and> NetSendTo 0 (AddrPortFrom (ip4 8 8 8 8) 53) [1, 2, 3]
       \<in> set (net (runCalls sendRun newInstanceState))
   \<and> public_unicast (Unmap (ip4 8 8 8 8))"
proof -
  have m: "NetSendTo 0 (AddrPortFrom (ip4 8 8 8 8) 53) [1, 2, 3]
       \<in> set (net (runCalls sendRun newInstanceState))"
    by (simp add: sendRun_net)
  show ?thesis
    using sendRun_reachable m egress_safety [OF sendRun_reachable m] by (simp add: AddrPortFrom_def)
qed

text \<open>C38: a send or connect to a destination the policy denies returns EACCES, logs the destination and changes nothing else; in particular nothing is sent.\<close>

theorem denied_destination:
  assumes "\<not> egressAllowed (AddrPortFrom ip (ucast port))" and "0 < sint port" and "sint port \<le> 65535"
    and "replay E = None"
  shows "sockSendTo E i ip port d s = (s\<lparr>logs := logs s @ [EgressDenied (AddrPortFrom ip (ucast port))]\<rparr>, - wasiEACCES)
    \<and> sockConnect E i ip port s = (s\<lparr>logs := logs s @ [EgressDenied (AddrPortFrom ip (ucast port))]\<rparr>, - wasiEACCES)"
  using assms by (simp add: sockSendTo_def sockConnect_def checkEgress_def Let_def)

theorem denied_destination_witness:
  "snd (sockSendTo quietEnv 1 (ip4 127 0 0 1) 53 [] newInstanceState) = - wasiEACCES"
proof -
  have d: "\<not> egressAllowed (AddrPortFrom (ip4 127 0 0 1) (ucast (53 :: i32)))"
    by (simp add: egressAllowed_eq AddrPortFrom_def ip4_def Unmap_def in_ranges_def special4_def)
  show ?thesis
    using denied_destination [OF d, of quietEnv 1 "[]" newInstanceState]
    by (simp add: quietEnv_def)
qed

section \<open>Bounds\<close>

text \<open>C5: in every reachable state at most 1024 events are queued, at most 256 sockets are in the map and at most 8192 timers are pending.\<close>

theorem resource_bounds:
  assumes "reachable (s, f)"
  shows "length (events s) \<le> 1024
    \<and> (\<forall>m. sockets s = Some m \<longrightarrow> length m \<le> 256)
    \<and> (\<forall>m. timers s = Some m \<longrightarrow> length m \<le> 8192)"
  using reachable_inv [OF assms] by (simp add: sys_inv_def inst_inv_def len_inv_def)

theorem resource_bounds_witness:
  "reachable (runCalls sendRun newInstanceState, Idle)
   \<and> length (events (runCalls sendRun newInstanceState)) \<le> 1024"
  using sendRun_reachable resource_bounds [OF sendRun_reachable] by blast

section \<open>Shutdown\<close>

lemma shutdown_once [simp]:
  "once (shutdown err s) = OnceDone" 
  by (cases "once s") (simp_all add: shutdown_def)
lemma length_shutdownTimers [simp]: "length (socks (shutdownTimers s)) = length (socks s)"
  by (simp add: shutdownTimers_def split: option.split)
lemma length_shutdownMark [simp]: "length (socks (shutdownMark e s)) = length (socks s)"
  by (simp add: shutdownMark_def)
lemma shutdown_length [simp]:  "length (socks (shutdown err s)) = length (socks s)"
  by (cases "once s") (simp_all add: shutdown_def)

text \<open>C7: once an instance is done it stays done, and the error it reports is the one of the first shutdown: a later failure or Close never replaces it.\<close>

theorem first_cause_wins:
  assumes "reachable (s, f)" and "isDone s" and "steps (s, f) (s', f')"
  shows "isDone s' \<and> stErr s' = stErr s"
proof -
  from reachable_inv [OF assms(1)] have i: "isDone s \<longleftrightarrow> once s \<noteq> OnceNew"
    by (simp add: sys_inv_def inst_inv_def once_inv_def)
  have "cause_kept s s'" using cause.steps_run [OF assms(3) reachable_inv [OF assms(1)]] by simp
  then show ?thesis unfolding cause_kept_def using i assms(2) by blast
qed

theorem first_cause_wins_witness:
  "stErr (stateClose (fail errEventQueueOverflow newInstanceState)) = Some errEventQueueOverflow"
proof -
  let ?s = "fail errEventQueueOverflow newInstanceState"
  have r: "reachable (?s, Idle)"
    using shutdown_steps by (simp add: reachable_def fail_def)
  have d: "isDone ?s" "stErr ?s = Some errEventQueueOverflow"
    by (simp_all add: fail_def shutdown_def newInstanceState_def)
  have "steps (?s, Idle) (stateClose ?s, Idle)"
    using shutdown_steps by (simp add: stateClose_def)
  from first_cause_wins [OF r d(1) this] d(2) show ?thesis by simp
qed



section \<open>Socket and timer identities\<close>

lemma sint_pos: 
  assumes "n < 2 ^ 31" shows "sint (of_nat n :: i32) = int n"
proof -
  have "int n < 2 ^ 31" using assms by simp
  then have "signed_take_bit 31 (int n) = int n"
    by (intro signed_take_bit_int_eq_self) simp_all
  then show ?thesis by (simp add: signed_of_nat)
qed

text \<open>While fewer than 2^31 - 1 sockets were opened and the limit of 256 is not reached, sock_open returns a positive identifier that was not in use, which then names the new socket, and leaves every other identifier as it was.\<close>

theorem sockOpen_fresh:
  assumes "reachable (s, f)" and "sockets s = Some m" and "length m < 256"
    and "Suc (length (socks s)) < 2 ^ 31" and "a = 4 \<or> a = 6" and "t = socketUDP \<or> t = socketTCP"
  shows "let (s', i) = sockOpen a t s in
      0 < sint i \<and> sockLookup i s = None \<and> sockLookup i s' = Some (length (socks s))
      \<and> (\<forall>j. j \<noteq> i \<longrightarrow> sockLookup j s' = sockLookup j s)"
proof -
  from reachable_ids [OF assms(1)] assms(2)
  have ids: "ids_ok (nextSocket s) (socks s) (Some m)" by simp
  have "Suc (length (socks s)) < 2 ^ 32" using assms(4) by (rule order.strict_trans) simp
  then have "nextSocket s \<notin> fst ` set m" by (rule fresh_id [OF ids])
  then have n: "map_of m (nextSocket s) = None" by (simp add: map_of_eq_None_iff)
  have "nextSocket s = of_nat (Suc (length (socks s)))" using ids by (simp add: ids_ok_def)
  with sint_pos [OF assms(4)] have p: "0 < sint (nextSocket s)" by (simp del: of_nat_Suc)
  have "\<not> ((a \<noteq> 4 \<and> a \<noteq> 6) \<or> (t \<noteq> socketUDP \<and> t \<noteq> socketTCP))" using assms(5,6) by blast
  then have o: "sockOpen a t s = (s\<lparr>nextSocket := nextSocket s + 1, socks := socks s @ [newSocket (nextSocket s) a t],
      sockets := Some (AList.update (nextSocket s) (length (socks s)) m)\<rparr>, nextSocket s)"
    using assms(2,3) by (simp only: sockOpen_def Let_def if_False option.case) simp
  show ?thesis unfolding o by (simp add: p n sockLookup_def assms(2) update_conv')
qed

theorem sockOpen_fresh_witness:
  "let (s', i) = sockOpen 4 1 newInstanceState in 0 < sint i \<and> sockLookup i s' = Some 0"
proof -
  have m: "sockets newInstanceState = Some []" "length ([] :: (i32 \<times> nat) list) < 256"
    "socks newInstanceState = []"
    by (simp_all add: newInstanceState_def)
  have l: "Suc (length (socks newInstanceState)) < 2 ^ 31"
    by (simp add: m)
  from sockOpen_fresh [OF reachable_start m(1,2) l, of 4 1]
  show ?thesis unfolding m by (auto simp: Let_def)
qed

text \<open>C25: a timer that timer_stop found pending never fires: it is stopped, and it is stopped in every later state.\<close>

theorem stopped_timer_stays_stopped:
  assumes "reachable (s, Idle)" and "replay E = None" and "timers s = Some m" and "map_of m t = Some p"
    and "p < length (timerHeap s)" and "status (timerHeap s ! p) = Armed"
    and "steps (timerStop E t s, Idle) (s', f')"
  shows "status (timerHeap s' ! p) = Stopped"
proof -
  let ?s = "timerStop E t s"
  have "sys_inv (?s, Idle)"
    by (rule reachable_inv, rule reachable_step [OF assms(1)], rule g_timer_stop, rule assms(2))
  from tmono.steps_run [OF assms(7) this] have "timers_mono (timerHeap ?s) (timerHeap s')" by simp
  moreover have "p < length (timerHeap ?s)" "status (timerHeap ?s ! p) = Stopped"
    using assms(2-6) by (simp_all add: timerStop_def timerStopHeap_def)
  ultimately show ?thesis by (auto simp: timers_mono_def)
qed

theorem stopped_timer_stays_stopped_witness:
  "status (timerHeap (timerStop quietEnv 1 (fst (timerStart quietEnv 5 newInstanceState))) ! 0) = Stopped"
proof -
  let ?s = "fst (timerStart quietEnv 5 newInstanceState)"
  have r: "reachable (?s, Idle)"
    by (rule reachable_step [OF reachable_start]) (rule g_timer_start, simp add: quietEnv_def)
  have m: "timers ?s = Some [(1, 0)]" "map_of [(1 :: u64, 0 :: nat)] 1 = Some 0"
    "0 < length (timerHeap ?s)" "status (timerHeap ?s ! 0) = Armed" "replay quietEnv = None"
    by (simp_all add: timerStart_def newInstanceState_def quietEnv_def)
  show ?thesis
    by (rule stopped_timer_stays_stopped [OF r m(5) m(1-4) rtranclp.rtrancl_refl])
qed

section \<open>The event queue\<close>

text \<open>C23: enqueue never loses an event silently: it appends the event; or the instance was done already and nothing changes; or the queue of 1024 is full and the instance is shut down with the overflow error.\<close>

theorem enqueue_spec:
  assumes "reachable (s, f)"
  shows "(events (enqueue E ev s) = events s @ [ev] \<and> stErr (enqueue E ev s) = stErr s)
    \<or> (isDone s \<and> enqueue E ev s = s)
    \<or> (\<not> isDone s \<and> length (events s) = 1024 \<and> events (enqueue E ev s) = events s
        \<and> isDone (enqueue E ev s) \<and> stErr (enqueue E ev s) = Some errEventQueueOverflow)"
proof -
  from reachable_inv [OF assms] have i: "length (events s) \<le> 1024" "\<not> isDone s \<longleftrightarrow> once s = OnceNew"
    by (auto simp: sys_inv_def inst_inv_def once_inv_def)
  have ev: "events (shutdownTimers s) = events s" "events (shutdownSockets s) = events s"
    "events (shutdownMark e s) = events s" for s e
    by (simp_all add: shutdownTimers_def shutdownSockets_def shutdownMark_def split: option.splits)
  show ?thesis using i by (auto simp: enqueue_def Let_def fail_def shutdown_def ev)
qed

theorem enqueue_spec_witness:
  "events (enqueue quietEnv (timerEvent 7) newInstanceState) = [timerEvent 7]"
  using enqueue_spec [OF reachable_start, of quietEnv "timerEvent 7"]
  by (simp add: newInstanceState_def enqueue_def)

section \<open>Receiving\<close>

lemma queue_close: "queue (socks (sockCloseHeap q s) ! p) = queue (socks s ! p)" if "p < length (socks s)"
  using that by (auto simp: sockCloseHeap_def nth_upd)

lemma queue_fold_close:
  "p < length (socks s) \<Longrightarrow>
   queue (socks (fold (\<lambda>(_, q). sockCloseHeap q) m s) ! p) = queue (socks s ! p)"
  by (induction m arbitrary: s) (auto simp: queue_close)

lemma queue_shutdown:
  assumes "p < length (socks s)"
  shows "queue (socks (shutdown err s) ! p) = queue (socks s ! p)"
proof -
  have t: "socks (shutdownTimers s) = socks s" "socks (shutdownMark err s) = socks s" for s
    by (simp_all add: shutdownTimers_def shutdownMark_def split: option.split)
  have k: "queue (socks (shutdownSockets x) ! p) = queue (socks x ! p)" if "p < length (socks x)" for x
    using that by (auto simp: shutdownSockets_def queue_fold_close split: option.split)
  show ?thesis using assms by (cases "once s") (simp_all add: shutdown_def k t)
qed

lemma queue_enqueue:
  "p < length (socks s) \<Longrightarrow> queue (socks (enqueue E ev s) ! p) = queue (socks s ! p)"
  by (simp add: enqueue_def Let_def fail_def queue_shutdown)

lemma recvTake_tcp:
  assumes "p < length (socks s)" and "queue (socks s ! p) = pkt # q"
    and "stype (socks s ! p) = socketTCP" and "length (pktData pkt) < 2 ^ 32"
    and "sockRecvTake p capacity s = (s', chunk)"
  shows "chunk @ stream p s' = stream p s" "chunk = take (unat capacity) (pktData pkt)"
    "socks s' = upd (socks s) p (\<lambda>k. k\<lparr>queue := queue (socks s' ! p)\<rparr>)"
proof -
  have u: "unat (of_nat (length (pktData pkt)) :: u32) = length (pktData pkt)"
    using assms(4) by (simp add: unat_of_nat)
  then have g: "(of_nat (length (pktData pkt)) :: u32) > capacity \<longleftrightarrow> unat capacity < length (pktData pkt)"
    by (simp add: word_less_nat_alt)
  show "chunk = take (unat capacity) (pktData pkt)"
    using assms by (auto simp: sockRecvTake_def Let_def g)
  show "chunk @ stream p s' = stream p s"
    using assms by (auto simp: sockRecvTake_def Let_def g stream_def)
  show "socks s' = upd (socks s) p (\<lambda>k. k\<lparr>queue := queue (socks s' ! p)\<rparr>)"
    using assms by (auto simp: sockRecvTake_def Let_def)
qed

text \<open>The chunk \<open>sockRecv\<close> takes: as much of the first packet as the buffer holds.\<close>

lemma recvTake_chunk:
  assumes "queue (socks s ! p) = pkt # q" and "length (pktData pkt) < 2 ^ 32"
    and "sockRecvTake p capacity s = (s', chunk)"
  shows "chunk = take (unat capacity) (pktData pkt)" and "length (socks s') = length (socks s)"
proof -
  have "unat (of_nat (length (pktData pkt)) :: u32) = length (pktData pkt)"
    using assms(2) by (simp add: unat_of_nat)
  then have "(of_nat (length (pktData pkt)) :: u32) > capacity \<longleftrightarrow> unat capacity < length (pktData pkt)"
    by (simp add: word_less_nat_alt)
  with assms show "chunk = take (unat capacity) (pktData pkt)" "length (socks s') = length (socks s)"
    by (auto simp: sockRecvTake_def Let_def)
qed

lemma recv_no_from:
  assumes "linear_memory M memLen" and "sockLookup i s = Some p" and "p < length (socks s)"
    and "queue (socks s ! p) = pkt # q" and "length (pktData pkt) < 2 ^ 32"
    and "unat ptr + min (unat capacity) (length (pktData pkt)) \<le> memLen m"
    and "sockRecvTake p capacity s = (s1, chunk)"
    and "sockRecv M E i ptr capacity False ipOut portOut m s = (s', m', r)"
  shows "memRead M m' ptr r = Some chunk" and "queue (socks s' ! p) = queue (socks s1 ! p)"
proof -
  note chunk = recvTake_chunk [OF assms(4,5,7)]
  have "unat ptr + length chunk \<le> memLen m" using assms(6) chunk(1) by (simp add: min.commute)
  then obtain m1 where w: "memWrite M m ptr chunk = Some m1"
    using linear_memory.write_range [OF assms(1), of m ptr chunk] by auto
  have "length chunk < 2 ^ 32" using assms(5) chunk(1) by simp
  then have n: "unat (of_nat (length chunk) :: u32) = length chunk" by (simp add: unat_of_nat)
  from assms(2,4,7,8) w have e: "m' = m1" "r = of_nat (length chunk)"
    "s' = (if queue (socks s1 ! p) \<noteq> [] then enqueue E (ioEvent i ioRead) s1 else s1)"
    by (auto simp: sockRecv_def Let_def)
  show "memRead M m' ptr r = Some chunk"
    unfolding e using linear_memory.write_read_prefix [OF assms(1) w, of "of_nat (length chunk)"] n by simp
  show "queue (socks s' ! p) = queue (socks s1 ! p)"
    unfolding e using queue_enqueue [of p s1] chunk(2) assms(3) by simp
qed

text \<open>C21: on a TCP socket, sock_recv writes the next bytes of the stream to the guest buffer, as many as fit of the first packet, and what it wrote followed by what is left is the stream as it was: no byte is lost, repeated or reordered.\<close>

theorem sockRecv_tcp_stream:
  assumes "linear_memory M memLen" and "sockLookup i s = Some p" and "p < length (socks s)"
    and "queue (socks s ! p) = pkt # q" and "stype (socks s ! p) = socketTCP"
    and "length (pktData pkt) < 2 ^ 32"
    and "unat ptr + min (unat capacity) (length (pktData pkt)) \<le> memLen m"
    and "sockRecv M E i ptr capacity False ipOut portOut m s = (s', m', r)"
  shows "\<exists>chunk. memRead M m' ptr r = Some chunk \<and> chunk @ stream p s' = stream p s
    \<and> length chunk = min (unat capacity) (length (pktData pkt))"
proof -
  obtain s1 chunk where t: "sockRecvTake p capacity s = (s1, chunk)" by fastforce
  note r = recv_no_from [OF assms(1-4,6,7) t assms(8)]
  have "stream p s' = stream p s1" using r(2) by (simp add: stream_def)
  with r(1) recvTake_tcp [OF assms(3-6) t] show ?thesis by (auto simp: min.commute)
qed

theorem sockRecv_tcp_stream_witness:
  "\<exists>chunk s' m' r. sockRecv flat_ops quietEnv 1 0 2 False 0 0 (replicate 8 0) (recvState 2) = (s', m', r)
     \<and> memRead flat_ops m' 0 r = Some chunk \<and> chunk @ stream 0 s' = [1, 2, 3]"
proof -
  obtain s' m' r where e:
    "sockRecv flat_ops quietEnv 1 0 2 False 0 0 (replicate 8 0) (recvState 2) = (s', m', r)"
    by (metis prod_cases3)
  note st = recvState_eval [OF disjI2 [OF HOL.refl]]
  have "stream 0 (recvState 2) = [1, 2, 3]" by (simp add: stream_def st)
  with sockRecv_tcp_stream [OF flat.linear_memory_axioms st(1,2,3,4) _ _ e] e show ?thesis
    by auto
qed

text \<open>C22: on a UDP socket, sock_recv writes the first datagram, cut to the guest buffer, and consumes it whole; the datagrams behind it stay queued in order.\<close>

theorem sockRecv_udp_datagram:
  assumes "linear_memory M memLen" and "sockLookup i s = Some p" and "p < length (socks s)"
    and "queue (socks s ! p) = pkt # q" and "stype (socks s ! p) = socketUDP"
    and "length (pktData pkt) < 2 ^ 32"
    and "unat ptr + min (unat capacity) (length (pktData pkt)) \<le> memLen m"
    and "sockRecv M E i ptr capacity False ipOut portOut m s = (s', m', r)"
  shows "memRead M m' ptr r = Some (take (unat capacity) (pktData pkt)) \<and> queue (socks s' ! p) = q"
proof -
  obtain s1 chunk where t: "sockRecvTake p capacity s = (s1, chunk)" by fastforce
  note r = recv_no_from [OF assms(1-4,6,7) t assms(8)]
  have "queue (socks s1 ! p) = q" using t assms(3-5) by (auto simp: sockRecvTake_def Let_def)
  with r recvTake_chunk [OF assms(4,6) t] show ?thesis by simp
qed

theorem sockRecv_udp_datagram_witness:
  "\<exists>s' m' r. sockRecv flat_ops quietEnv 1 0 2 False 0 0 (replicate 8 0) (recvState 1) = (s', m', r)
     \<and> memRead flat_ops m' 0 r = Some [1, 2] \<and> queue (socks s' ! 0) = []"
proof -
  obtain s' m' r where e:
    "sockRecv flat_ops quietEnv 1 0 2 False 0 0 (replicate 8 0) (recvState 1) = (s', m', r)"
    by (metis prod_cases3)
  note st = recvState_eval [OF disjI1 [OF HOL.refl]]
  from sockRecv_udp_datagram [OF flat.linear_memory_axioms st(1,2,3,4) _ _ e] e show ?thesis by simp
qed

section \<open>A send that races with a shutdown\<close>

text \<open>Once every socket is closed and the map is gone, no step closes a connection any more.\<close>

definition stay_open :: "istate \<Rightarrow> istate \<Rightarrow> bool" where
  "stay_open s s' \<longleftrightarrow> (sockets s = None \<and> (\<forall>p < length (socks s). closed (socks s ! p)) \<longrightarrow>
     sockets s' = None \<and> (\<forall>p < length (socks s'). closed (socks s' ! p))
     \<and> length (conns s) \<le> length (conns s')
     \<and> (\<forall>c < length (conns s). isOpen (conns s ! c) \<longrightarrow> isOpen (conns s' ! c)))"

interpretation stay: host_effect_run stay_open
proof unfold_locales
  show "stay_open a c" if "stay_open a b" "stay_open b c" for a b c
    using that unfolding stay_open_def by (auto dest: order.strict_trans2)
  show "stay_open s (s\<lparr>socks := upd (socks s) p f\<rparr>)"
    if "\<And>k. sockId (f k) = sockId k \<and> stype (f k) = stype k \<and> af (f k) = af k
          \<and> (closed k \<longrightarrow> closed (f k))" for f s p
    using that by (auto simp: stay_open_def nth_upd)
  show "stay_open s (shutdownSockets s)" if "once s = OnceTimers" for s
    by (auto simp: stay_open_def shutdownSockets_def split: option.splits)
qed (auto simp: stay_open_def shutdownMark_def shutdownTimers_def timerStopHeap_def timerExpire_def
      sockCloseHeap_def nth_append split: option.splits)

text \<open>The race: a guest send has checked a fresh UDP socket, the shutdown closes it, the send goes on.\<close>

definition leakStart :: istate where
  "leakStart = fst (sockOpen 4 1 newInstanceState)"

definition leakEnd :: istate where
  "leakEnd = fst (sockSendToWrite quietEnv 0 (1, None, None) (AddrPortFrom (ip4 8 8 8 8) 53) []
     (stateClose leakStart))"

lemma leak_reachable: "reachable (leakEnd, Idle)"
proof -
  let ?r = "AddrPortFrom (ip4 8 8 8 8) 53"
  have "reachable (leakStart, Idle)"
    unfolding leakStart_def by (rule reachable_step [OF reachable_start g_open])
  then have "reachable (leakStart, InSendTo 0 ?r [])"
    by (rule reachable_step) (rule g_sendto [of _ _ _ _ 1], simp_all add: leakStart_def run_eval Let_def)
  then have "reachable (leakStart, InSendWrite 0 (1, None, None) ?r [])"
    by (rule reachable_step) (rule g_sendto_check, simp add: leakStart_def run_eval Let_def)
  then have "reachable (stateClose leakStart, InSendWrite 0 (1, None, None) ?r [])"
    using shutdown_steps by (auto simp: stateClose_def intro: reachable_steps)
  then show ?thesis
    unfolding leakEnd_def by (rule reachable_step) (rule g_sendto_write, simp add: quietEnv_def)
qed

lemma leakEnd_eval:
  "once leakEnd = OnceDone" "sockets leakEnd = None" "length (conns leakEnd) = 1"
  "isOpen (conns leakEnd ! 0)" "\<forall>p < length (socks leakEnd). closed (socks leakEnd ! p)"
  by (simp_all add: leakEnd_def leakStart_def stateClose_def shutdown_def shutdownSockets_def
      shutdownTimers_def shutdownMark_def sockCloseHeap_def closeConn_def run_eval Let_def)

text \<open>A sock_sendto that checked its UDP socket before a concurrent shutdown closed it opens the socket afterwards: after the shutdown completed a connection is open, and it stays open in every later state.\<close>

theorem shutdown_udp_leak:
  "\<exists>s c. reachable (s, Idle) \<and> once s = OnceDone \<and> c < length (conns s)
     \<and> (\<forall>s' f'. steps (s, Idle) (s', f') \<longrightarrow> isOpen (conns s' ! c))"
proof -
  have "isOpen (conns s' ! 0)" if "steps (leakEnd, Idle) (s', f')" for s' f'
    using stay.steps_run [OF that reachable_inv [OF leak_reachable]] leakEnd_eval
    by (simp add: stay_open_def)
  with leak_reachable leakEnd_eval show ?thesis
    by (intro exI [of _ leakEnd] exI [of _ 0]) auto
qed

theorem shutdown_udp_leak_witness:
  "\<exists>s c. reachable (s, Idle) \<and> once s = OnceDone \<and> c < length (conns s) \<and> isOpen (conns s ! c)"
  using shutdown_udp_leak by (meson rtranclp.rtrancl_refl)

section \<open>Repeated connects\<close>

text \<open>\<open>dialing k c s\<close>: one TCP socket, \<open>k\<close> dialers still running, \<open>c\<close> connections open.\<close>

definition dialer :: goroutine where
  "dialer = GoConnectTCP 0 4 0 (ip4 8 8 8 8) 53"

definition dialing :: "nat \<Rightarrow> nat \<Rightarrow> istate \<Rightarrow> bool" where
  "dialing k c s \<longleftrightarrow> reachable (s, Idle) \<and> sockets s = Some [(1, 0)] \<and> events s = []
     \<and> (\<exists>sk. socks s = [sk] \<and> \<not> closed sk \<and> stype sk = socketTCP \<and> af sk = 4 \<and> bindPort sk = 0
          \<and> (c = 0 \<longrightarrow> tcp sk = None))
     \<and> (\<exists>rest. gos s = replicate k dialer @ rest \<and> (c = 0 \<longrightarrow> rest = []))
     \<and> length (filter isOpen (conns s)) = c"

lemma dialing_start: "dialing 0 0 (fst (sockOpen 4 2 newInstanceState))"
  using reachable_step [OF reachable_start g_open [of _ 4 2]]
  by (simp add: dialing_def run_eval Let_def)

lemma dialing_connect:
  assumes "dialing k 0 s"
  shows "dialing (Suc k) 0 (fst (sockConnectLocked quietEnv 1 0 (ip4 8 8 8 8) 53 s))"
proof -
  let ?y = "fst (sockConnectLocked quietEnv 1 0 (ip4 8 8 8 8) 53 s)"
  from assms have r: "reachable (s, Idle)" and l: "sockLookup 1 s = Some 0"
    by (simp_all add: dialing_def sockLookup_def)
  have "step (s, Idle) (s, InConnect 1 0 (ip4 8 8 8 8) 53)"
    by (rule g_connect) (simp_all add: checkEgress_True public_dns_allowed l)
  moreover have "step (s, InConnect 1 0 (ip4 8 8 8 8) 53) (?y, Idle)"
    by (rule g_connect_locked) (simp add: quietEnv_def)
  ultimately have "reachable (?y, Idle)" using r by (blast intro: reachable_step)
  then show ?thesis
    using assms
    by (auto simp: dialing_def sockConnectLocked_def Let_def upd_def dialer_def
        replicate_append_same simp flip: replicate_Suc)
qed

lemma dialing_dialed:
  assumes "dialing (Suc k) c s"
  shows "\<exists>s'. dialing k (Suc c) s'"
proof -
  let ?y = "connectTCP quietEnv 0 4 0 (ip4 8 8 8 8) 53 (s\<lparr>gos := remove_nth 0 (gos s)\<rparr>)"
  let ?z = "?y\<lparr>events := []\<rparr>"
  from assms obtain sk rest where s: "reachable (s, Idle)" "sockets s = Some [(1, 0)]" "events s = []"
    "socks s = [sk]" "\<not> closed sk" "stype sk = socketTCP" "af sk = 4" "bindPort sk = 0"
    "gos s = dialer # replicate k dialer @ rest" "length (filter isOpen (conns s)) = c"
    by (auto simp: dialing_def)
  have "step (s, Idle) (?y, Idle)"
    using s by (intro go_connect) (simp_all add: dialer_def)
  moreover have y: "events ?y = [ioEvent (sockId sk) ioWrite]"
    using s by (simp add: connectTCP_def quietEnv_def Let_def enqueue_def)
  then have "step (?y, Idle) (?z, Idle)"
    by (rule dispatch)
  ultimately have "reachable (?z, Idle)" using s(1) by (blast intro: reachable_step)
  then have "dialing k (Suc c) ?z"
    using s by (simp add: dialing_def connectTCP_def quietEnv_def Let_def enqueue_def upd_def remove_nth_def)
  then show ?thesis ..
qed

lemma dialing_many: "\<exists>s. dialing k 0 s"
  by (induction k) (blast intro: dialing_start dialing_connect)+

lemma dialing_open: "dialing (k + c) 0 s \<Longrightarrow> \<exists>s'. dialing k c s'"
proof (induction c arbitrary: k)
  case (Suc c)
  then obtain s' where "dialing (Suc k) c s'" by fastforce
  then show ?case by (rule dialing_dialed)
qed auto

text \<open>The limit on sockets does not limit connections: calling sock_connect again while a dial is pending starts another dialer, so for every n there is a reachable state with a single socket and n open TCP connections.\<close>

theorem tcp_connections_unbounded:
  "\<exists>s. reachable (s, Idle) \<and> sockets s = Some [(1, 0)] \<and> length (filter isOpen (conns s)) = n"
proof -
  from dialing_many obtain s where "dialing (0 + n) 0 s" by blast
  from dialing_open [OF this] obtain s' where "dialing 0 n s'" ..
  then show ?thesis by (auto simp: dialing_def)
qed

end
