(* ===== verification/Registry.thy ===== *)
theory Registry
  imports Prelude
begin

text \<open>
  The life of the wasm modules of a \<open>Runtime\<close>: \<open>newModuleInstance\<close>, the guest lock (\<open>guest\<close>,
  \<open>closeModule\<close>), \<open>Instance.Close\<close> and \<open>Runtime.Close\<close> as concurrent goroutines over the map
  \<open>r.states\<close>. Every instance ever created has a number; its goroutine, its \<open>instanceState\<close> and its
  module are the record \<open>obj\<close>. A step is one critical section, so a step that takes \<open>guestMu\<close> is
  only possible while no guest call holds it.

  The start functions that instantiation runs in the guest do not hold \<open>guestMu\<close> and are part of the
  phase \<open>Instantiating\<close>; the shutdown of sockets and timers that \<open>state.close()\<close> starts is the
  subject of \<open>HostState\<close> and does not touch the fields below. Building the zygote (\<open>initZygote\<close>, once per
  runtime) is a goroutine whose end may leave a zygote with its image file; \<open>Close\<close> waits for it.
\<close>

section \<open>State\<close>

text \<open>
  How far an instance has come. \<open>Closing\<close> and \<open>Unregistered\<close> are the two waits inside
  \<open>Instance.Close\<close>: after it won the compare-and-swap, and after it removed the state from the map.
\<close>

datatype phase = Fresh | Instantiating | Unpublished | Live | Closing | Unregistered | Gone

record obj =
  phase :: phase
  modDead :: bool
  hasMod :: bool
  modOpen :: bool
  inCall :: bool

text \<open>The progress of \<open>Runtime.Close\<close>; \<open>Sweeping\<close> holds the states still to be closed.\<close>

datatype closer = Open | Marked | Waited | Sweeping "nat list" | LoopDone | WazeroClosed | Finished

text \<open>The \<open>sync.Once\<close> of the zygote.\<close>

datatype zyOnce = ZyFresh | ZyRunning | ZyDone

text \<open>\<open>zyFile\<close> is \<open>r.zygote\<close>: not set, or set with a file that is open or closed.\<close>

record rsys =
  closer :: closer
  rtClosed :: bool
  states :: "nat list"
  objs :: "nat \<Rightarrow> obj"
  zyOnce :: zyOnce
  zyFile :: "bool option"

definition freshObj :: obj where
  "freshObj = \<lparr>phase = Fresh, modDead = False, hasMod = False, modOpen = False, inCall = False\<rparr>"

definition newRegistry :: rsys where
  "newRegistry = \<lparr>closer = Open, rtClosed = False, states = [], objs = (\<lambda>_. freshObj),
     zyOnce = ZyFresh, zyFile = None\<rparr>"

abbreviation obj_of :: "rsys \<Rightarrow> nat \<Rightarrow> obj" where
  "obj_of x t \<equiv> objs x t"

definition setObj :: "nat \<Rightarrow> (obj \<Rightarrow> obj) \<Rightarrow> rsys \<Rightarrow> rsys" where
  "setObj t f x = x\<lparr>objs := (objs x)(t := f (objs x t))\<rparr>"

definition removeState :: "nat \<Rightarrow> rsys \<Rightarrow> rsys" where
  "removeState t x = x\<lparr>states := removeAll t (states x)\<rparr>"

text \<open>\<open>Runtime.state\<close>, with which a host function finds the state of the module that calls it; it panics
  (\<^const>\<open>None\<close>) when there is none.\<close>

definition stateOf :: "nat \<Rightarrow> rsys \<Rightarrow> nat option" where
  "stateOf t x = (if t \<in> set (states x) then Some t else None)"

section \<open>Operations\<close>

text \<open>The section of \<open>newModuleInstance\<close> under \<open>r.mu\<close>: fail when closed, else register.\<close>

definition registerState :: "nat \<Rightarrow> rsys \<Rightarrow> rsys" where
  "registerState t x =
     (if rtClosed x then setObj t (\<lambda>p. p\<lparr>phase := Gone\<rparr>) x
      else setObj t (\<lambda>p. p\<lparr>phase := Instantiating\<rparr>) (x\<lparr>states := t # states x\<rparr>))"

definition instantiated :: "nat \<Rightarrow> rsys \<Rightarrow> rsys" where
  "instantiated t = setObj t (\<lambda>p. p\<lparr>phase := Unpublished, modOpen := True\<rparr>)"

definition instantiateFailed :: "nat \<Rightarrow> rsys \<Rightarrow> rsys" where
  "instantiateFailed t x = setObj t (\<lambda>p. p\<lparr>phase := Gone\<rparr>) (removeState t x)"

text \<open>The section under \<open>guestMu\<close> and, when the state was swept, the cleanup after it.\<close>

definition publish :: "nat \<Rightarrow> rsys \<Rightarrow> rsys" where
  "publish t x =
     (if modDead (obj_of x t) then setObj t (\<lambda>p. p\<lparr>phase := Gone, modOpen := False\<rparr>) (removeState t x)
      else setObj t (\<lambda>p. p\<lparr>phase := Live, hasMod := True\<rparr>) x)"

text \<open>\<open>guest\<close>: entering fails once the module is dead.\<close>

definition guestEnter :: "nat \<Rightarrow> rsys \<Rightarrow> rsys" where
  "guestEnter t x = (if modDead (obj_of x t) then x else setObj t (\<lambda>p. p\<lparr>inCall := True\<rparr>) x)"

definition guestLeave :: "nat \<Rightarrow> rsys \<Rightarrow> rsys" where
  "guestLeave t = setObj t (\<lambda>p. p\<lparr>inCall := False\<rparr>)"

definition closeModule :: "nat \<Rightarrow> rsys \<Rightarrow> rsys" where
  "closeModule t = setObj t (\<lambda>p. p\<lparr>modDead := True, modOpen := (if hasMod p then False else modOpen p)\<rparr>)"

text \<open>\<open>zygoteOnce.Do(initZygote)\<close> begins, and ends with or without a zygote.\<close>

definition zygoteBegin :: "rsys \<Rightarrow> rsys" where
  "zygoteBegin x = x\<lparr>zyOnce := ZyRunning\<rparr>"

definition zygoteEnd :: "bool \<Rightarrow> rsys \<Rightarrow> rsys" where
  "zygoteEnd installed x = x\<lparr>zyOnce := ZyDone, zyFile := (if installed then Some True else zyFile x)\<rparr>"

text \<open>\<open>zygoteOnce.Do(func() {})\<close>: nothing runs later.\<close>

definition zygoteWait :: "rsys \<Rightarrow> rsys" where
  "zygoteWait x = x\<lparr>closer := Waited, zyOnce := ZyDone\<rparr>"

definition zygoteClose :: "rsys \<Rightarrow> rsys" where
  "zygoteClose x = x\<lparr>closer := Finished, zyFile := map_option (\<lambda>_. False) (zyFile x)\<rparr>"

definition sweep :: "nat list \<Rightarrow> rsys \<Rightarrow> rsys" where
  "sweep l x = x\<lparr>states := [], closer := Sweeping l\<rparr>"

text \<open>\<open>r.wazero.Close\<close> closes every module that is still open.\<close>

definition wazeroClose :: "rsys \<Rightarrow> rsys" where
  "wazeroClose x = x\<lparr>closer := WazeroClosed, objs := (\<lambda>t. (objs x t)\<lparr>modOpen := False\<rparr>)\<rparr>"

section \<open>Steps\<close>

inductive rstep :: "rsys \<Rightarrow> rsys \<Rightarrow> bool" where
  register: "phase (obj_of x t) = Fresh \<Longrightarrow> rstep x (registerState t x)"
| instantiate: "phase (obj_of x t) = Instantiating \<Longrightarrow> rstep x (instantiated t x)"
| instantiate_fail: "phase (obj_of x t) = Instantiating \<Longrightarrow> rstep x (instantiateFailed t x)"
| publish: "phase (obj_of x t) = Unpublished \<Longrightarrow> \<not> inCall (obj_of x t) \<Longrightarrow> rstep x (publish t x)"
| enter: "phase (obj_of x t) \<in> {Live, Closing, Unregistered, Gone} \<Longrightarrow> hasMod (obj_of x t) \<Longrightarrow>
     \<not> inCall (obj_of x t) \<Longrightarrow> rstep x (guestEnter t x)"
| leave: "inCall (obj_of x t) \<Longrightarrow> rstep x (guestLeave t x)"
| close_start: "phase (obj_of x t) = Live \<Longrightarrow> rstep x (setObj t (\<lambda>p. p\<lparr>phase := Closing\<rparr>) x)"
| close_remove: "phase (obj_of x t) = Closing \<Longrightarrow>
     rstep x (setObj t (\<lambda>p. p\<lparr>phase := Unregistered\<rparr>) (removeState t x))"
| close_module: "phase (obj_of x t) = Unregistered \<Longrightarrow> \<not> inCall (obj_of x t) \<Longrightarrow>
     rstep x (setObj t (\<lambda>p. p\<lparr>phase := Gone\<rparr>) (closeModule t x))"
| rt_mark: "closer x = Open \<Longrightarrow> rstep x (x\<lparr>closer := Marked, rtClosed := True\<rparr>)"
| zy_begin: "zyOnce x = ZyFresh \<Longrightarrow> rstep x (zygoteBegin x)"
| zy_end: "zyOnce x = ZyRunning \<Longrightarrow> rstep x (zygoteEnd installed x)"
| rt_wait: "closer x = Marked \<Longrightarrow> zyOnce x \<noteq> ZyRunning \<Longrightarrow> rstep x (zygoteWait x)"
| rt_sweep: "closer x = Waited \<Longrightarrow> distinct l \<Longrightarrow> set l = set (states x) \<Longrightarrow> rstep x (sweep l x)"
| rt_close: "closer x = Sweeping (t # ts) \<Longrightarrow> \<not> inCall (obj_of x t) \<Longrightarrow>
     rstep x ((closeModule t x)\<lparr>closer := Sweeping ts\<rparr>)"
| rt_done: "closer x = Sweeping [] \<Longrightarrow> rstep x (x\<lparr>closer := LoopDone\<rparr>)"
| rt_wazero: "closer x = LoopDone \<Longrightarrow> rstep x (wazeroClose x)"
| rt_file: "closer x = WazeroClosed \<Longrightarrow> rstep x (zygoteClose x)"

definition rreachable :: "rsys \<Rightarrow> bool" where
  "rreachable x \<longleftrightarrow> rstep\<^sup>*\<^sup>* newRegistry x"

lemmas reg_ops = setObj_def removeState_def registerState_def instantiated_def instantiateFailed_def
  publish_def guestEnter_def guestLeave_def closeModule_def zygoteBegin_def zygoteEnd_def zygoteWait_def
  zygoteClose_def sweep_def wazeroClose_def

section \<open>The invariant\<close>

definition covered :: "rsys \<Rightarrow> nat \<Rightarrow> bool" where
  "covered x t \<longleftrightarrow> t \<in> set (states x) \<or> (\<exists>l. closer x = Sweeping l \<and> t \<in> set l)"

text \<open>
  For one instance, which is registered or about to be swept when \<open>c\<close> holds: a guest call in flight has
  a live module; an instance that has not removed itself from the map is covered or dead; and an open module
  belongs to a phase that will close it, a dead one only to an instance that was never published.
\<close>

definition objOk :: "bool \<Rightarrow> obj \<Rightarrow> bool" where
  "objOk c p \<longleftrightarrow>
     (inCall p \<longrightarrow> phase p \<in> {Live, Closing, Unregistered} \<and> \<not> modDead p)
     \<and> (phase p \<in> {Instantiating, Unpublished, Live, Closing} \<longrightarrow> c \<or> modDead p)
     \<and> (phase p \<in> {Live, Closing, Unregistered} \<longrightarrow> hasMod p)
     \<and> (phase p \<in> {Fresh, Instantiating, Unpublished} \<longrightarrow> \<not> hasMod p)
     \<and> (modOpen p \<longrightarrow> phase p \<in> {Unpublished, Live, Closing, Unregistered})
     \<and> (modOpen p \<and> modDead p \<longrightarrow> phase p = Unpublished)
     \<and> (phase p = Gone \<and> hasMod p \<longrightarrow> modDead p)"

definition regInv :: "rsys \<Rightarrow> bool" where
  "regInv x \<longleftrightarrow> (\<forall>t. objOk (covered x t) (obj_of x t)) \<and> (rtClosed x \<longleftrightarrow> closer x \<noteq> Open)
     \<and> (closer x \<notin> {Open, Marked, Waited} \<longrightarrow> states x = []) \<and> (closer x \<notin> {Open, Marked} \<longrightarrow> zyOnce x = ZyDone)
     \<and> (zyFile x \<noteq> None \<longrightarrow> zyOnce x = ZyDone) \<and> (closer x = Finished \<longrightarrow> zyFile x \<noteq> Some True)"

lemma regInv_new: "regInv newRegistry"
  by (simp add: regInv_def newRegistry_def objOk_def freshObj_def)

lemma objOk_ops:
  "objOk c p \<Longrightarrow> phase p = Fresh \<Longrightarrow> objOk c' (p\<lparr>phase := Gone\<rparr>)"
  "objOk c p \<Longrightarrow> phase p = Fresh \<Longrightarrow> objOk True (p\<lparr>phase := Instantiating\<rparr>)"
  "objOk c p \<Longrightarrow> phase p = Instantiating \<Longrightarrow> objOk c (p\<lparr>phase := Unpublished, modOpen := True\<rparr>)"
  "objOk c p \<Longrightarrow> phase p = Instantiating \<Longrightarrow> objOk c' (p\<lparr>phase := Gone\<rparr>)"
  "objOk c p \<Longrightarrow> phase p = Unpublished \<Longrightarrow> objOk c' (p\<lparr>phase := Gone, modOpen := False\<rparr>)"
  "objOk c p \<Longrightarrow> phase p = Unpublished \<Longrightarrow> \<not> modDead p \<Longrightarrow> objOk c (p\<lparr>phase := Live, hasMod := True\<rparr>)"
  "objOk c p \<Longrightarrow> phase p \<in> {Live, Closing, Unregistered, Gone} \<Longrightarrow> hasMod p \<Longrightarrow> \<not> modDead p \<Longrightarrow>
     objOk c (p\<lparr>inCall := True\<rparr>)"
  "objOk c p \<Longrightarrow> objOk c (p\<lparr>inCall := False\<rparr>)"
  "objOk c p \<Longrightarrow> phase p = Live \<Longrightarrow> objOk c (p\<lparr>phase := Closing\<rparr>)"
  "objOk c p \<Longrightarrow> phase p = Closing \<Longrightarrow> objOk c' (p\<lparr>phase := Unregistered\<rparr>)"
  "objOk c p \<Longrightarrow> phase p = Unregistered \<Longrightarrow> \<not> inCall p \<Longrightarrow>
     objOk c' (p\<lparr>modDead := True, modOpen := (if hasMod p then False else modOpen p), phase := Gone\<rparr>)"
  "objOk c p \<Longrightarrow> \<not> inCall p \<Longrightarrow>
     objOk c' (p\<lparr>modDead := True, modOpen := (if hasMod p then False else modOpen p)\<rparr>)"
  "objOk c p \<Longrightarrow> objOk c (p\<lparr>modOpen := False\<rparr>)"
  by (cases "phase p"; simp add: objOk_def)+

text \<open>A step on one instance keeps the invariant when it keeps that instance's part of it.\<close>

lemma regInv_setObj:
  assumes "regInv x" and "objOk (covered x t) (f (obj_of x t))"
  shows "regInv (setObj t f x)"
proof -
  have "covered (setObj t f x) s = covered x s" for s by (simp add: covered_def setObj_def)
  with assms show ?thesis by (simp add: regInv_def setObj_def)
qed

lemma regInv_remove:
  assumes "regInv x" and "\<And>c. objOk c (f (obj_of x t))"
  shows "regInv (setObj t f (removeState t x))"
proof -
  have c: "covered (setObj t f (removeState t x)) s = covered x s" if "s \<noteq> t" for s
    using that by (simp add: covered_def setObj_def removeState_def)
  have "objOk (covered (setObj t f (removeState t x)) s) (obj_of (setObj t f (removeState t x)) s)" for s
    using assms c [of s] by (cases "s = t") (simp_all add: regInv_def setObj_def removeState_def)
  with assms(1) show ?thesis by (simp add: regInv_def setObj_def removeState_def)
qed

lemma regInv_register:
  assumes "regInv x" and "phase (obj_of x t) = Fresh"
  shows "regInv (registerState t x)"
proof (cases "rtClosed x")
  case True
  from assms objOk_ops(1) [of "covered x t"] have "objOk c ((obj_of x t)\<lparr>phase := Gone\<rparr>)" for c
    by (simp add: regInv_def)
  with True assms(1) show ?thesis by (simp add: registerState_def regInv_setObj)
next
  case False
  let ?y = "registerState t x"
  have o: "closer x = Open" using False assms(1) by (simp add: regInv_def)
  have "objOk (covered ?y s) (obj_of ?y s)" for s
  proof (cases "s = t")
    case True
    then have "covered ?y s" using False by (simp add: covered_def registerState_def setObj_def)
    moreover have "objOk True ((obj_of x t)\<lparr>phase := Instantiating\<rparr>)"
      by (rule objOk_ops(2) [of "covered x t"]) (use assms in \<open>simp_all add: regInv_def\<close>)
    ultimately show ?thesis using True False by (simp add: registerState_def setObj_def)
  next
    case s: False
    then have "covered ?y s = covered x s" using False by (simp add: covered_def registerState_def setObj_def)
    with assms(1) s False show ?thesis by (simp add: regInv_def registerState_def setObj_def)
  qed
  with False o assms(1) show ?thesis by (simp add: regInv_def registerState_def setObj_def)
qed

lemma regInv_rt_close:
  assumes "regInv x" and "closer x = Sweeping (t # ts)" and "\<not> inCall (obj_of x t)"
  shows "regInv ((closeModule t x)\<lparr>closer := Sweeping ts\<rparr>)"
proof -
  let ?y = "(closeModule t x)\<lparr>closer := Sweeping ts\<rparr>"
  have "objOk (covered ?y s) (obj_of ?y s)" for s
  proof (cases "s = t")
    case True
    have "objOk (covered ?y t) ((obj_of x t)\<lparr>modDead := True, modOpen := (if hasMod (obj_of x t) then False else modOpen (obj_of x t))\<rparr>)"
      by (rule objOk_ops(12) [of "covered x t"]) (use assms in \<open>simp_all add: regInv_def\<close>)
    with True show ?thesis by (simp add: closeModule_def setObj_def)
  next
    case False
    then have "covered ?y s = covered x s" using assms(2) by (simp add: covered_def closeModule_def setObj_def)
    with False assms(1) show ?thesis by (simp add: regInv_def closeModule_def setObj_def)
  qed
  with assms show ?thesis by (simp add: regInv_def closeModule_def setObj_def)
qed

lemma regInv_obj: "regInv x \<Longrightarrow> objOk (covered x t) (obj_of x t)"
  by (simp add: regInv_def)

lemma regInv_step: "rstep x y \<Longrightarrow> regInv x \<Longrightarrow> regInv y"
proof (induction rule: rstep.induct)
  case (instantiate x t)
  then show ?case unfolding instantiated_def by (intro regInv_setObj objOk_ops(3) regInv_obj)
next
  case (instantiate_fail x t)
  then show ?case unfolding instantiateFailed_def by (intro regInv_remove objOk_ops(4) [OF regInv_obj])
next
  case (publish x t)
  then show ?case
    using regInv_remove [of x "\<lambda>p. p\<lparr>phase := Gone, modOpen := False\<rparr>" t] objOk_ops(5) [OF regInv_obj [OF publish(3)] publish(1)]
      regInv_setObj [of x t "\<lambda>p. p\<lparr>phase := Live, hasMod := True\<rparr>"] objOk_ops(6) [OF regInv_obj [OF publish(3)] publish(1)]
    by (simp add: publish_def)
next
  case (enter x t)
  then show ?case
    using regInv_setObj [of x t "\<lambda>p. p\<lparr>inCall := True\<rparr>"] objOk_ops(7) [OF regInv_obj [OF enter(4)] enter(1,2)]
    by (simp add: guestEnter_def)
next
  case (leave x t)
  then show ?case unfolding guestLeave_def by (intro regInv_setObj objOk_ops(8) regInv_obj)
next
  case (close_start x t)
  then show ?case by (intro regInv_setObj objOk_ops(9) regInv_obj)
next
  case (close_remove x t)
  then show ?case by (intro regInv_remove objOk_ops(10) [OF regInv_obj])
next
  case (close_module x t)
  have "setObj t (\<lambda>p. p\<lparr>phase := Gone\<rparr>) (closeModule t x)
      = setObj t (\<lambda>p. p\<lparr>modDead := True, modOpen := (if hasMod p then False else modOpen p), phase := Gone\<rparr>) x"
    by (simp add: setObj_def closeModule_def)
  with close_module show ?case by (simp only:) (intro regInv_setObj objOk_ops(11) [OF regInv_obj])
next
  case (rt_sweep x l)
  then have "covered (sweep l x) s = covered x s" for s by (simp add: covered_def sweep_def)
  with rt_sweep show ?case by (simp add: regInv_def sweep_def)
next
  case (rt_mark x)
  then have "covered (x\<lparr>closer := Marked, rtClosed := True\<rparr>) s = covered x s" for s by (simp add: covered_def)
  with rt_mark show ?case by (simp add: regInv_def)
next
  case (rt_wait x)
  then have "covered (zygoteWait x) s = covered x s" for s by (simp add: covered_def zygoteWait_def)
  with rt_wait show ?case by (simp add: regInv_def zygoteWait_def)
next
  case (zy_begin x)
  then have "covered (zygoteBegin x) s = covered x s" for s by (simp add: covered_def zygoteBegin_def)
  with zy_begin show ?case by (auto simp: regInv_def zygoteBegin_def)
next
  case (zy_end x installed)
  then have "covered (zygoteEnd installed x) s = covered x s" for s by (simp add: covered_def zygoteEnd_def)
  with zy_end show ?case by (auto simp: regInv_def zygoteEnd_def)
next
  case (rt_file x)
  then have "covered (zygoteClose x) s = covered x s" for s by (simp add: covered_def zygoteClose_def)
  with rt_file show ?case by (auto simp: regInv_def zygoteClose_def)
next
  case (rt_done x)
  then have "covered (x\<lparr>closer := LoopDone\<rparr>) s = covered x s" for s by (simp add: covered_def)
  with rt_done show ?case by (simp add: regInv_def)
next
  case (rt_wazero x)
  then have "covered (wazeroClose x) s = covered x s" for s by (simp add: covered_def wazeroClose_def)
  with rt_wazero objOk_ops(13) show ?case by (simp add: regInv_def wazeroClose_def)
qed (auto intro: regInv_register regInv_rt_close)

lemma rreachable_inv: "rreachable x \<Longrightarrow> regInv x"
  unfolding rreachable_def by (induction rule: rtranclp_induct) (auto intro: regInv_new regInv_step)

lemma rreachable_new: "rreachable newRegistry"
  by (simp add: rreachable_def)

lemma rreachable_step: "rreachable x \<Longrightarrow> rstep x y \<Longrightarrow> rreachable y"
  by (simp add: rreachable_def)

text \<open>A schedule in which \<open>Instance.Close\<close> is overtaken by \<open>Runtime.Close\<close> while a guest call runs.\<close>

definition raceState :: rsys where
  "raceState = newRegistry\<lparr>closer := LoopDone, rtClosed := True, zyOnce := ZyDone,
     objs := (objs newRegistry)(0 := \<lparr>phase = Unregistered, modDead = False, hasMod = True, modOpen = True, inCall = True\<rparr>)\<rparr>"

lemma race_reachable: "rreachable raceState"
proof -
  define x1 where "x1 = registerState 0 newRegistry"
  define x2 where "x2 = instantiated 0 x1"
  define x3 where "x3 = publish 0 x2"
  define x4 where "x4 = guestEnter 0 x3"
  define x5 where "x5 = setObj 0 (\<lambda>p. p\<lparr>phase := Closing\<rparr>) x4"
  define x6 where "x6 = setObj 0 (\<lambda>p. p\<lparr>phase := Unregistered\<rparr>) (removeState 0 x5)"
  define x7 where "x7 = x6\<lparr>closer := Marked, rtClosed := True\<rparr>"
  define x8 where "x8 = zygoteWait x7"
  define x9 where "x9 = sweep [] x8"
  note defs = x1_def x2_def x3_def x4_def x5_def x6_def x7_def x8_def x9_def newRegistry_def freshObj_def reg_ops
  have "rreachable x1" unfolding x1_def
    by (rule rreachable_step [OF rreachable_new], rule register) (simp add: newRegistry_def freshObj_def)
  then have "rreachable x2" unfolding x2_def by (rule rreachable_step, intro instantiate) (simp add: defs)
  then have "rreachable x3" unfolding x3_def by (rule rreachable_step, intro rstep.publish) (simp_all add: defs)
  then have "rreachable x4" unfolding x4_def by (rule rreachable_step, intro enter) (simp_all add: defs)
  then have "rreachable x5" unfolding x5_def by (rule rreachable_step, intro close_start) (simp add: defs)
  then have "rreachable x6" unfolding x6_def by (rule rreachable_step, intro close_remove) (simp add: defs)
  then have "rreachable x7" unfolding x7_def by (rule rreachable_step, intro rt_mark) (simp add: defs)
  then have "rreachable x8" unfolding x8_def by (rule rreachable_step, intro rt_wait) (simp_all add: defs)
  then have "rreachable x9" unfolding x9_def by (rule rreachable_step, intro rt_sweep) (simp_all add: defs)
  then have "rreachable (x9\<lparr>closer := LoopDone\<rparr>)" by (rule rreachable_step, intro rt_done) (simp add: defs)
  moreover have "x9\<lparr>closer := LoopDone\<rparr> = raceState" by (simp add: defs raceState_def)
  ultimately show ?thesis by simp
qed

text \<open>A schedule in which a zygote is built and the runtime closed.\<close>

definition closedState :: rsys where
  "closedState = newRegistry\<lparr>closer := Finished, rtClosed := True, zyOnce := ZyDone, zyFile := Some False\<rparr>"

lemma closed_reachable: "rreachable closedState"
proof -
  define x1 where "x1 = zygoteEnd True (zygoteBegin newRegistry)"
  define x2 where "x2 = zygoteWait (x1\<lparr>closer := Marked, rtClosed := True\<rparr>)"
  define x3 where "x3 = (sweep [] x2)\<lparr>closer := LoopDone\<rparr>"
  note defs = x1_def x2_def x3_def newRegistry_def freshObj_def reg_ops
  have "rreachable (zygoteBegin newRegistry)"
    by (rule rreachable_step [OF rreachable_new], rule zy_begin) (simp add: newRegistry_def)
  then have "rreachable x1" unfolding x1_def by (rule rreachable_step, intro zy_end) (simp add: defs)
  then have "rreachable (x1\<lparr>closer := Marked, rtClosed := True\<rparr>)" by (rule rreachable_step, intro rt_mark) (simp add: defs)
  then have "rreachable x2" unfolding x2_def by (rule rreachable_step, intro rt_wait) (simp_all add: defs)
  then have "rreachable (sweep [] x2)" by (rule rreachable_step, intro rt_sweep) (simp_all add: defs)
  then have "rreachable x3" unfolding x3_def by (rule rreachable_step, intro rt_done) (simp add: defs)
  then have "rreachable (wazeroClose x3)" by (rule rreachable_step, intro rt_wazero) (simp add: defs)
  then have "rreachable (zygoteClose (wazeroClose x3))" by (rule rreachable_step, intro rt_file) (simp add: defs)
  moreover have "zygoteClose (wazeroClose x3) = closedState" by (simp add: defs closedState_def)
  ultimately show ?thesis by simp
qed

section \<open>Properties\<close>



text \<open>\<open>Instance.Close\<close> leaves the map before it closes the module. A \<open>Runtime.Close\<close> in between does not
  wait for that instance: it closes the module under a guest call in flight, whose host calls by then find no
  state.\<close>

theorem teardown_race:
  "\<exists>x t. rreachable x \<and> inCall (obj_of x t) \<and> modOpen (obj_of x t) \<and> t \<notin> set (states x)
     \<and> rstep x (wazeroClose x) \<and> inCall (obj_of (wazeroClose x) t) \<and> \<not> modOpen (obj_of (wazeroClose x) t)"
proof (intro exI [of _ raceState] exI [of _ 0] conjI)
  show "rreachable raceState" by (rule race_reachable)
  show "rstep raceState (wazeroClose raceState)" by (rule rt_wazero) (simp add: raceState_def)
qed (simp_all add: raceState_def newRegistry_def wazeroClose_def)

text \<open>C9: a host function finds the state of the module that calls it as long as the runtime is open and the instance is
  not inside its own \<open>Close\<close>. In any reachable state a guest call in flight whose state is not found belongs
  to an instance that left the map in its own \<open>Close\<close> or that \<open>Runtime.Close\<close> is about to close, and no guest
  call runs in a module that was closed for it.\<close>

theorem host_call_finds_state:
  assumes "rreachable x" and "inCall (obj_of x t)"
  shows "(stateOf t x = Some t \<or> phase (obj_of x t) = Unregistered \<or> (\<exists>l. closer x = Sweeping l \<and> t \<in> set l))
     \<and> \<not> modDead (obj_of x t)"
proof -
  have "objOk (covered x t) (obj_of x t)" by (rule regInv_obj [OF rreachable_inv [OF assms(1)]])
  with assms(2) show ?thesis by (cases "phase (obj_of x t)"; simp add: objOk_def covered_def stateOf_def) blast+
qed

theorem host_call_finds_state_witness:
  "rreachable raceState \<and> inCall (obj_of raceState 0) \<and> phase (obj_of raceState 0) = Unregistered \<and> \<not> modDead (obj_of raceState 0)"
proof -
  have c: "inCall (obj_of raceState 0)" by (simp add: raceState_def)
  from host_call_finds_state [OF race_reachable c] race_reachable c show ?thesis
    by (simp add: raceState_def newRegistry_def stateOf_def)
qed

text \<open>C10: when \<open>Runtime.Close\<close> has returned, the image file of the zygote is closed, and it stays so: no zygote
  is built or installed later, whatever else goes on.\<close>

theorem no_image_file_after_close:
  assumes "rreachable x" and "closer x = Finished" and "rstep\<^sup>*\<^sup>* x y"
  shows "zyFile y \<noteq> Some True \<and> zyOnce y = ZyDone \<and> states y = []"
proof -
  have "closer y = Finished" using assms(3,2) by (induction rule: rtranclp_induct) (auto elim!: rstep.cases simp: reg_ops)
  moreover have "rreachable y" using assms(1,3) by (auto simp: rreachable_def)
  ultimately show ?thesis using rreachable_inv by (fastforce simp: regInv_def)
qed

theorem no_image_file_after_close_witness:
  "rreachable closedState \<and> zyFile closedState = Some False \<and> zyOnce closedState = ZyDone"
  using closed_reachable no_image_file_after_close [OF closed_reachable _ rtranclp.rtrancl_refl]
  by (simp add: closedState_def)

end
