(* ===== verification/Hashes.thy ===== *)
theory Hashes
  imports Prelude
begin

text \<open>
  The hash functions of Go's standard library that \<open>crypto.go\<close> uses (\<open>crypto/sha1\<close>,
  \<open>crypto/sha256\<close>, \<open>crypto/sha512\<close>), written out from FIPS 180-4 on byte lists, with the
  sizes of their results. The constants of SHA-2 are computed from what the standard says they are:
  the leading bits of the fractional parts of the cube and square roots of the first primes.
\<close>

section \<open>Words and bytes\<close>

definition rotl32 :: "nat \<Rightarrow> u32 \<Rightarrow> u32" where
  "rotl32 n x = push_bit n x OR drop_bit (32 - n) x"

definition rotr32 :: "nat \<Rightarrow> u32 \<Rightarrow> u32" where
  "rotr32 n x = drop_bit n x OR push_bit (32 - n) x"

definition rotr64 :: "nat \<Rightarrow> u64 \<Rightarrow> u64" where
  "rotr64 n x = drop_bit n x OR push_bit (64 - n) x"

definition word32s :: "bytes \<Rightarrow> nat \<Rightarrow> u32 list" where
  "word32s b n = map (\<lambda>i. of_nat (be_nat (take 4 (drop (4 * i) b)))) [0..<n]"

definition word64s :: "bytes \<Rightarrow> nat \<Rightarrow> u64 list" where
  "word64s b n = map (\<lambda>i. of_nat (be_nat (take 8 (drop (8 * i) b)))) [0..<n]"

text \<open>
  Padding to a multiple of \<open>bs\<close> bytes: a one bit, zeros, and the length in bits as a big-endian
  integer of \<open>ls\<close> bytes.
\<close>

definition shaPad :: "nat \<Rightarrow> nat \<Rightarrow> bytes \<Rightarrow> bytes" where
  "shaPad bs ls d =
     d @ [0x80] @ replicate ((2 * bs - (length d + 1 + ls) mod bs) mod bs) 0
       @ nat_be ls (8 * length d mod 256 ^ ls)"

fun chunks :: "nat \<Rightarrow> nat \<Rightarrow> bytes \<Rightarrow> bytes list" where
  "chunks bs 0 b = []"
| "chunks bs (Suc n) b = take bs b # chunks bs n (drop bs b)"

definition shaBlocks :: "nat \<Rightarrow> nat \<Rightarrow> bytes \<Rightarrow> bytes list" where
  "shaBlocks bs ls d = (let p = shaPad bs ls d in chunks bs (length p div bs) p)"

section \<open>SHA-1\<close>

definition sha1Schedule :: "u32 list \<Rightarrow> u32 list" where
  "sha1Schedule w = fold (\<lambda>t w. w @ [rotl32 1 (w ! (t - 3) XOR w ! (t - 8) XOR w ! (t - 14) XOR w ! (t - 16))])
     [16..<80] w"

type_synonym sha1st = "u32 \<times> u32 \<times> u32 \<times> u32 \<times> u32"

definition sha1F :: "nat \<Rightarrow> u32 \<Rightarrow> u32 \<Rightarrow> u32 \<Rightarrow> u32 \<times> u32" where
  "sha1F t b c d =
     (if t < 20 then ((b AND c) OR (NOT b AND d), 0x5a827999)
      else if t < 40 then (b XOR c XOR d, 0x6ed9eba1)
      else if t < 60 then ((b AND c) OR (b AND d) OR (c AND d), 0x8f1bbcdc)
      else (b XOR c XOR d, 0xca62c1d6))"

fun sha1Round :: "nat \<times> u32 \<Rightarrow> sha1st \<Rightarrow> sha1st" where
  "sha1Round (t, w) (a, b, c, d, e) =
     (case sha1F t b c d of (f, k) \<Rightarrow> (rotl32 5 a + f + e + k + w, a, rotl32 30 b, c, d))"

fun sha1Block :: "bytes \<Rightarrow> sha1st \<Rightarrow> sha1st" where
  "sha1Block blk (a, b, c, d, e) =
     (case fold sha1Round (zip [0..<80] (sha1Schedule (word32s blk 16))) (a, b, c, d, e) of
        (a', b', c', d', e') \<Rightarrow> (a + a', b + b', c + c', d + d', e + e'))"

definition sha1Sum :: "bytes \<Rightarrow> bytes" where
  "sha1Sum data =
     (case fold sha1Block (shaBlocks 64 8 data)
             (0x67452301, 0xefcdab89, 0x98badcfe, 0x10325476, 0xc3d2e1f0) of
        (a, b, c, d, e) \<Rightarrow> concat (map (\<lambda>w. nat_be 4 (unat w)) [a, b, c, d, e]))"

section \<open>The constants of SHA-2\<close>

definition isPrime :: "nat \<Rightarrow> bool" where
  "isPrime n \<longleftrightarrow> 2 \<le> n \<and> list_all (\<lambda>d. n mod d \<noteq> 0) [2..<n]"

text \<open>The first 80 primes are those below 410.\<close>

definition shaPrimes :: "nat list" where
  "shaPrimes = filter isPrime [2..<410]"

text \<open>The integer \<open>k\<close>-th root of \<open>n\<close>, if it has at most \<open>b\<close> bits, from its highest bit down.\<close>

definition iroot :: "nat \<Rightarrow> nat \<Rightarrow> nat \<Rightarrow> nat" where
  "iroot b k n = fold (\<lambda>i r. if (r + 2 ^ i) ^ k \<le> n then r + 2 ^ i else r) (rev [0..<b]) 0"

text \<open>
  The first \<open>w\<close> bits of the fractional part of the \<open>k\<close>-th root of \<open>p\<close>; the integer part,
  at most 7 for the primes used, disappears when the value is read as a word of \<open>w\<close> bits.
\<close>

definition fracRoot :: "nat \<Rightarrow> nat \<Rightarrow> nat \<Rightarrow> nat" where
  "fracRoot w k p = iroot (w + 3) k (p * 2 ^ (k * w))"

section \<open>SHA-256\<close>

definition sha256K :: "u32 list" where
  "sha256K = map (\<lambda>p. of_nat (fracRoot 32 3 p)) (take 64 shaPrimes)"

definition sha256Schedule :: "u32 list \<Rightarrow> u32 list" where
  "sha256Schedule w = fold (\<lambda>t w.
      (let x = w ! (t - 2); y = w ! (t - 15);
           s1 = rotr32 17 x XOR rotr32 19 x XOR drop_bit 10 x;
           s0 = rotr32 7 y XOR rotr32 18 y XOR drop_bit 3 y
       in w @ [s1 + w ! (t - 7) + s0 + w ! (t - 16)])) [16..<64] w"

type_synonym 'w sha2st = "'w \<times> 'w \<times> 'w \<times> 'w \<times> 'w \<times> 'w \<times> 'w \<times> 'w"

fun sha256Round :: "u32 \<times> u32 \<Rightarrow> u32 sha2st \<Rightarrow> u32 sha2st" where
  "sha256Round (k, w) (a, b, c, d, e, f, g, h) =
     (let t1 = h + (rotr32 6 e XOR rotr32 11 e XOR rotr32 25 e) + ((e AND f) XOR (NOT e AND g)) + k + w;
          t2 = (rotr32 2 a XOR rotr32 13 a XOR rotr32 22 a) + ((a AND b) XOR (a AND c) XOR (b AND c))
      in (t1 + t2, a, b, c, d + t1, e, f, g))"

fun addState :: "'w::plus sha2st \<Rightarrow> 'w sha2st \<Rightarrow> 'w sha2st" where
  "addState (a, b, c, d, e, f, g, h) (a', b', c', d', e', f', g', h') =
     (a + a', b + b', c + c', d + d', e + e', f + f', g + g', h + h')"

fun state8 :: "'w list \<Rightarrow> 'w sha2st" where
  "state8 ws = (ws ! 0, ws ! 1, ws ! 2, ws ! 3, ws ! 4, ws ! 5, ws ! 6, ws ! 7)"

definition sha256Block :: "bytes \<Rightarrow> u32 sha2st \<Rightarrow> u32 sha2st" where
  "sha256Block blk st =
     addState st (fold sha256Round (zip sha256K (sha256Schedule (word32s blk 16))) st)"

definition sha256Sum256 :: "bytes \<Rightarrow> bytes" where
  "sha256Sum256 data =
     (case fold sha256Block (shaBlocks 64 8 data)
             (state8 (map (\<lambda>p. of_nat (fracRoot 32 2 p)) (take 8 shaPrimes))) of
        (a, b, c, d, e, f, g, h) \<Rightarrow>
          concat (map (\<lambda>w. nat_be 4 (unat w)) [a, b, c, d, e, f, g, h]))"

section \<open>SHA-512 and SHA-384\<close>

definition sha512K :: "u64 list" where
  "sha512K = map (\<lambda>p. of_nat (fracRoot 64 3 p)) shaPrimes"

definition sha512Schedule :: "u64 list \<Rightarrow> u64 list" where
  "sha512Schedule w = fold (\<lambda>t w.
      (let x = w ! (t - 2); y = w ! (t - 15);
           s1 = rotr64 19 x XOR rotr64 61 x XOR drop_bit 6 x;
           s0 = rotr64 1 y XOR rotr64 8 y XOR drop_bit 7 y
       in w @ [s1 + w ! (t - 7) + s0 + w ! (t - 16)])) [16..<80] w"

fun sha512Round :: "u64 \<times> u64 \<Rightarrow> u64 sha2st \<Rightarrow> u64 sha2st" where
  "sha512Round (k, w) (a, b, c, d, e, f, g, h) =
     (let t1 = h + (rotr64 14 e XOR rotr64 18 e XOR rotr64 41 e) + ((e AND f) XOR (NOT e AND g)) + k + w;
          t2 = (rotr64 28 a XOR rotr64 34 a XOR rotr64 39 a) + ((a AND b) XOR (a AND c) XOR (b AND c))
      in (t1 + t2, a, b, c, d + t1, e, f, g))"

definition sha512Block :: "bytes \<Rightarrow> u64 sha2st \<Rightarrow> u64 sha2st" where
  "sha512Block blk st =
     addState st (fold sha512Round (zip sha512K (sha512Schedule (word64s blk 16))) st)"

definition sha512Digest :: "u64 sha2st \<Rightarrow> bytes \<Rightarrow> bytes" where
  "sha512Digest iv data =
     (case fold sha512Block (shaBlocks 128 16 data) iv of
        (a, b, c, d, e, f, g, h) \<Rightarrow>
          concat (map (\<lambda>w. nat_be 8 (unat w)) [a, b, c, d, e, f, g, h]))"

definition sha512Sum512 :: "bytes \<Rightarrow> bytes" where
  "sha512Sum512 data = sha512Digest
     (state8 (map (\<lambda>p. of_nat (fracRoot 64 2 p)) (take 8 shaPrimes))) data"

definition sha512Sum384 :: "bytes \<Rightarrow> bytes" where
  "sha512Sum384 data = take 48 (sha512Digest
     (state8 (map (\<lambda>p. of_nat (fracRoot 64 2 p)) (take 8 (drop 8 shaPrimes)))) data)"

section \<open>Sizes\<close>

lemma length_sha1Sum [simp]: "length (sha1Sum data) = 20"
  by (simp add: sha1Sum_def split: prod.split)

lemma length_sha256Sum256 [simp]: "length (sha256Sum256 data) = 32"
  by (simp add: sha256Sum256_def split: prod.split)

lemma length_sha512Digest [simp]: "length (sha512Digest iv data) = 64"
  by (simp add: sha512Digest_def split: prod.split)

lemma length_sha512Sum512 [simp]: "length (sha512Sum512 data) = 64"
  by (simp add: sha512Sum512_def)

lemma length_sha512Sum384 [simp]: "length (sha512Sum384 data) = 48"
  by (simp add: sha512Sum384_def)

end
