(* ===== verification/Crypto.thy ===== *)
theory Crypto
  imports Hashes
begin

text \<open>
  The DNSSEC primitives of \<open>crypto.go\<close>. The hashes are those of the theory \<open>Hashes\<close>. The
  signature checks of Go's standard library (\<open>rsa.VerifyPKCS1v15\<close>,
  \<open>ecdsa.ParseUncompressedPublicKey\<close>, \<open>ecdsa.Verify\<close>, \<open>ed25519.Verify\<close>) are a parameter,
  the record \<open>sigprims\<close>; no statement assumes anything about them. A \<open>big.Int\<close> that
  \<open>SetBytes\<close> fills is the natural number its big-endian bytes denote.
\<close>

section \<open>Algorithms\<close>

abbreviation (input) algRSASHA256 :: u32 where "algRSASHA256 \<equiv> 8"
abbreviation (input) algRSASHA512 :: u32 where "algRSASHA512 \<equiv> 10"
abbreviation (input) algECDSAP256SHA256 :: u32 where "algECDSAP256SHA256 \<equiv> 13"
abbreviation (input) algECDSAP384SHA384 :: u32 where "algECDSAP384SHA384 \<equiv> 14"
abbreviation (input) algED25519 :: u32 where "algED25519 \<equiv> 15"

datatype curve = P256 | P384
datatype cryptoHash = HashSHA256 | HashSHA384 | HashSHA512

record rsaPublicKey =
  rsaN :: nat
  rsaE :: nat

record 'pub sigprims =
  rsaVerifyPKCS1v15 :: "rsaPublicKey \<Rightarrow> cryptoHash \<Rightarrow> bytes \<Rightarrow> bytes \<Rightarrow> bool"
  ecdsaParseUncompressed :: "curve \<Rightarrow> bytes \<Rightarrow> 'pub option"
  ecdsaVerify :: "'pub \<Rightarrow> bytes \<Rightarrow> nat \<Rightarrow> nat \<Rightarrow> bool"
  ed25519Verify :: "bytes \<Rightarrow> bytes \<Rightarrow> bytes \<Rightarrow> bool"

definition cryptoSupported :: "u32 \<Rightarrow> bool" where
  "cryptoSupported alg \<longleftrightarrow> alg = algRSASHA256 \<or> alg = algRSASHA512 \<or> alg = algECDSAP256SHA256
     \<or> alg = algECDSAP384SHA384 \<or> alg = algED25519"

section \<open>Keys and signatures\<close>

definition parseDNSKEYRSA :: "bytes \<Rightarrow> rsaPublicKey option" where
  "parseDNSKEYRSA key =
     (if length key < 3 then None
      else
        (let (elen, off) = (if key ! 0 \<noteq> 0 then (unat (key ! 0), 1)
                            else (be_nat (take 2 (drop 1 key)), 3))
         in if elen = 0 \<or> off + elen \<ge> length key then None
            else
              (let e = be_nat (take elen (drop off key)) in
               if \<not> e < 2 ^ 63 \<or> e < 3 \<or> e > 2 ^ 31 - 1 then None
               else
                 (let n = be_nat (drop (off + elen) key) in
                  if n = 0 then None else Some \<lparr>rsaN = n, rsaE = e\<rparr>))))"

definition verifyECDSA ::
    "'pub sigprims \<Rightarrow> curve \<Rightarrow> cryptoHash \<Rightarrow> bytes \<Rightarrow> bytes \<Rightarrow> bytes \<Rightarrow> nat \<Rightarrow> bool" where
  "verifyECDSA P c hash key data sig width =
     (if length key \<noteq> 2 * width \<or> length sig \<noteq> 2 * width then False
      else case ecdsaParseUncompressed P c (4 # key) of None \<Rightarrow> False
      | Some pub \<Rightarrow>
          (case (case hash of HashSHA256 \<Rightarrow> Some (sha256Sum256 data)
                 | HashSHA384 \<Rightarrow> Some (sha512Sum384 data) | _ \<Rightarrow> None) of
             None \<Rightarrow> False
           | Some digest \<Rightarrow>
               ecdsaVerify P pub digest (be_nat (take width sig)) (be_nat (drop width sig))))"

definition cryptoVerify :: "'pub sigprims \<Rightarrow> u32 \<Rightarrow> bytes \<Rightarrow> bytes \<Rightarrow> bytes \<Rightarrow> bool" where
  "cryptoVerify P alg key data sig =
     (if alg = algRSASHA256 \<or> alg = algRSASHA512 then
        (case parseDNSKEYRSA key of None \<Rightarrow> False
         | Some pub \<Rightarrow>
             (if alg = algRSASHA256
              then rsaVerifyPKCS1v15 P pub HashSHA256 (sha256Sum256 data) sig
              else rsaVerifyPKCS1v15 P pub HashSHA512 (sha512Sum512 data) sig))
      else if alg = algECDSAP256SHA256 then verifyECDSA P P256 HashSHA256 key data sig 32
      else if alg = algECDSAP384SHA384 then verifyECDSA P P384 HashSHA384 key data sig 48
      else if alg = algED25519 then length key = 32 \<and> ed25519Verify P key data sig
      else False)"

section \<open>Digests\<close>

definition cryptoDigest :: "u32 \<Rightarrow> bytes \<Rightarrow> bytes option" where
  "cryptoDigest alg data =
     (if alg = 1 then Some (sha1Sum data)
      else if alg = 2 then Some (sha256Sum256 data)
      else if alg = 4 then Some (sha512Sum384 data)
      else if alg = 5 then Some (sha512Sum512 data)
      else None)"

text \<open>The loop of \<open>nsec3Hash\<close>, with its 32-bit counter.\<close>

function nsec3Loop :: "bytes \<Rightarrow> u32 \<Rightarrow> u32 \<Rightarrow> bytes \<Rightarrow> bytes" where
  "nsec3Loop salt iterations i h =
     (if i < iterations then nsec3Loop salt iterations (i + 1) (sha1Sum (h @ salt)) else h)"
  by pat_completeness auto

lemma unat_Suc_below:
  fixes i n :: u32
  assumes "i < n"
  shows "unat (i + 1) = Suc (unat i)"
proof -
  have "Suc (unat i) \<le> unat n" using assms by (simp add: word_less_nat_alt Suc_le_eq)
  also have "unat n < 2 ^ 32" by (rule order.strict_trans2 [OF unsigned_less]) simp
  finally show ?thesis by (simp add: unat_word_ariths(1))
qed

termination nsec3Loop
  by (relation "measure (\<lambda>(salt, n, i, h). unat n - unat i)") (auto simp: unat_Suc_below word_less_nat_alt)

declare nsec3Loop.simps [simp del]

definition nsec3Hash :: "bytes \<Rightarrow> u32 \<Rightarrow> bytes \<Rightarrow> bytes option" where
  "nsec3Hash salt iterations name =
     (if iterations > push_bit 20 1 then None
      else Some (nsec3Loop salt iterations 0 (sha1Sum (name @ salt))))"

section \<open>The iterated hash of RFC 5155\<close>

fun IH :: "bytes \<Rightarrow> bytes \<Rightarrow> nat \<Rightarrow> bytes" where
  "IH salt x 0 = sha1Sum (x @ salt)"
| "IH salt x (Suc k) = sha1Sum (IH salt x k @ salt)"

lemma length_IH [simp]: "length (IH salt x k) = 20"
  by (cases k) simp_all

lemma nsec3Loop_IH:
  "i \<le> n \<Longrightarrow> nsec3Loop salt n i (IH salt x (unat i)) = IH salt x (unat n)"
proof (induction "unat n - unat i" arbitrary: i)
  case 0
  then have "i = n" by (simp add: word_le_nat_alt word_unat_eq_iff)
  then show ?case by (simp add: nsec3Loop.simps [of salt n n])
next
  case (Suc k)
  then have l: "i < n" by (simp add: word_less_nat_alt)
  note u = unat_Suc_below [OF l]
  from l u have "i + 1 \<le> n" "k = unat n - unat (i + 1)"
    using Suc.hyps(2) by (simp_all add: word_less_nat_alt word_le_nat_alt)
  with Suc.hyps(1) [of "i + 1"] have "nsec3Loop salt n (i + 1) (IH salt x (unat (i + 1))) = IH salt x (unat n)"
    by blast
  with l u show ?case by (simp add: nsec3Loop.simps [of salt n i])
qed

section \<open>The key format of RFC 3110\<close>

definition encodeRSA :: "bytes \<Rightarrow> bytes \<Rightarrow> bytes" where
  "encodeRSA e n = (if length e < 256 then [of_nat (length e)] else 0 # nat_be 2 (length e)) @ e @ n"

lemma parse_encodeRSA:
  assumes "e \<noteq> []" and "length e < 65536" and "n \<noteq> []"
  shows "parseDNSKEYRSA (encodeRSA e n) =
    (if 3 \<le> be_nat e \<and> be_nat e < 2 ^ 31 \<and> be_nat n \<noteq> 0
     then Some \<lparr>rsaN = be_nat n, rsaE = be_nat e\<rparr> else None)"
proof (cases "length e < 256")
  case True
  have u: "unat (of_nat (length e) :: u8) = length e" using True by (simp add: unat_of_nat)
  have z: "(of_nat (length e) :: u8) \<noteq> 0"
    using u assms(1) by (metis length_0_conv unsigned_0)
  have len: "\<not> length (encodeRSA e n) < 3" "length n > 0"
    using True assms by (cases e; cases n; simp add: encodeRSA_def)+
  show ?thesis
    using True u z len assms(1) by (auto simp: parseDNSKEYRSA_def encodeRSA_def Let_def)
next
  case False
  have b: "be_nat (nat_be 2 (length e)) = length e" using assms(2) by (simp add: be_nat_nat_be)
  have l: "length (nat_be 2 (length e)) = 2" by simp
  have d: "drop (3 + length e) (0 # nat_be 2 (length e) @ e @ n) = n"
    unfolding add.commute [of 3] drop_drop [symmetric] by simp
  show ?thesis
    using False b l d assms by (auto simp: parseDNSKEYRSA_def encodeRSA_def Let_def)
qed

lemma parseDNSKEYRSA_bounds:
  "parseDNSKEYRSA key = Some k \<Longrightarrow> 3 \<le> rsaE k \<and> rsaE k < 2 ^ 31 \<and> 0 < rsaN k"
  by (auto simp: parseDNSKEYRSA_def Let_def split: if_splits prod.splits)

section \<open>Properties\<close>

text \<open>C32: \<open>nsec3Hash\<close> computes the iterated, salted hash of RFC 5155, Section 5, for every iteration
  count up to \<open>2 ^ 20\<close>, and refuses larger counts.\<close>

theorem nsec3Hash_rfc5155:
  "nsec3Hash salt iterations name =
     (if unat iterations \<le> 2 ^ 20 then Some (IH salt name (unat iterations)) else None)"
proof -
  have "push_bit 20 1 < iterations \<longleftrightarrow> 2 ^ 20 < unat iterations"
    by (simp add: word_less_nat_alt)
  then show ?thesis
    using nsec3Loop_IH [of 0 iterations salt name] by (simp add: nsec3Hash_def not_less)
qed

text \<open>C33: the RSA key parser inverts the RFC 3110 encoding, in both its short and its long form, for
  every exponent from 3 to \<open>2 ^ 31 - 1\<close> and every non-zero modulus, and rejects the others.\<close>

theorem parseDNSKEYRSA_roundtrip:
  assumes "e \<noteq> []" and "length e < 65536" and "n \<noteq> []"
  shows "parseDNSKEYRSA (encodeRSA e n) =
    (if 3 \<le> be_nat e \<and> be_nat e < 2 ^ 31 \<and> be_nat n \<noteq> 0
     then Some \<lparr>rsaN = be_nat n, rsaE = be_nat e\<rparr> else None)"
  using assms by (rule parse_encodeRSA)

theorem parseDNSKEYRSA_roundtrip_witness:
  "parseDNSKEYRSA (encodeRSA [1, 0, 1] [0x8f, 3]) = Some \<lparr>rsaN = 0x8f03, rsaE = 65537\<rparr>"
  using parseDNSKEYRSA_roundtrip [of "[1, 0, 1]" "[0x8f, 3]"] by (simp add: be_nat_def)

text \<open>A signature is only ever accepted for a supported algorithm and a key of that algorithm's
  format: an RSA key with an exponent from 3 to \<open>2 ^ 31 - 1\<close>, an ECDSA key and signature of
  exactly two coordinates, an Ed25519 key of 32 bytes.\<close>

theorem cryptoVerify_wellformed:
  assumes "cryptoVerify P alg key data sig"
  shows "cryptoSupported alg
    \<and> (alg = 8 \<or> alg = 10 \<longrightarrow> (\<exists>k. parseDNSKEYRSA key = Some k \<and> 3 \<le> rsaE k \<and> rsaE k < 2 ^ 31 \<and> 0 < rsaN k))
    \<and> (alg = 13 \<longrightarrow> length key = 64 \<and> length sig = 64)
    \<and> (alg = 14 \<longrightarrow> length key = 96 \<and> length sig = 96)
    \<and> (alg = 15 \<longrightarrow> length key = 32)"
  using assms parseDNSKEYRSA_bounds [of key]
  by (auto simp: cryptoVerify_def cryptoSupported_def verifyECDSA_def split: if_splits option.splits)

theorem cryptoVerify_wellformed_witness:
  "\<exists>P :: unit sigprims. cryptoVerify P 15 (replicate 32 0) [] [] \<and> cryptoSupported 15"
proof -
  let ?P = "\<lparr>rsaVerifyPKCS1v15 = \<lambda>_ _ _ _. False, ecdsaParseUncompressed = \<lambda>_ _. None,
     ecdsaVerify = \<lambda>_ _ _ _. False, ed25519Verify = \<lambda>_ _ _. True\<rparr> :: unit sigprims"
  have v: "cryptoVerify ?P 15 (replicate 32 0) [] []" by (simp add: cryptoVerify_def)
  show ?thesis using v cryptoVerify_wellformed [OF v] by blast
qed

text \<open>The digest types 1, 2, 4 and 5 are supported, with digests of 20, 32, 48 and 64 bytes, and no
  other type is.\<close>

theorem cryptoDigest_lengths:
  "map_option length (cryptoDigest alg data) =
     map_of [(1, 20), (2, 32), (4, 48), (5, 64)] alg"
  by (simp add: cryptoDigest_def)

end
