(* ===== verification/HostABI.thy ===== *)
theory HostABI
  imports Interleaving Crypto
begin

text \<open>
  The import modules a guest links against: \<open>unbound_wasm\<close> (\<open>instantiateHostModules\<close> of
  \<open>host.go\<close>) and the restricted \<open>wasi_snapshot_preview1\<close> (\<open>wasi.go\<close>). An import takes the
  guest memory and the state of the calling instance and returns both, with its result or the
  trap it raises. The clock, the random bytes and the signature checks are fields of the
  environment \<open>abienv\<close>; \<open>abiHost\<close> is the environment of the socket operations.
\<close>

section \<open>Environment and results\<close>

text \<open>Times are in nanoseconds, of the wall clock since the epoch and of the monotonic clock.\<close>

record 'pub abienv =
  abiHost :: hostenv
  abiSig :: "'pub sigprims"
  timeNow :: int
  timeSince :: int
  randByte :: "nat \<Rightarrow> u8"

datatype trap = TrapEntropy | TrapAbort i32 bytes | TrapPollOneoff

datatype 'a outcome = Ret 'a | Trap trap | Exit u32

datatype retval = RetVoid | RetI32 i32 | RetI64 i64

definition randRead :: "'pub abienv \<Rightarrow> nat \<Rightarrow> bytes" where
  "randRead A n = map (randByte A) [0..<n]"

lemma length_randRead [simp]: "length (randRead A n) = n"
  by (simp add: randRead_def)

text \<open>\<open>Time.UnixMilli\<close> rounds down, \<open>Duration.Milliseconds\<close> towards zero.\<close>

definition unixMilli :: "int \<Rightarrow> i64" where
  "unixMilli ns = word_of_int (ns div 1000000)"

definition durMilli :: "int \<Rightarrow> i64" where
  "durMilli ns = word_of_int (if ns < 0 then - ((- ns) div 1000000) else ns div 1000000)"

definition b2i :: "bool \<Rightarrow> i32" where
  "b2i b = (if b then 1 else 0)"

definition mapLogLevel :: "i32 \<Rightarrow> level" where
  "mapLogLevel v =
     (if sint v \<le> 0 then LevelDebug else if v = 1 then LevelInfo else if v = 2 then LevelWarn
      else LevelError)"

definition logMsg :: "level \<Rightarrow> bytes \<Rightarrow> istate \<Rightarrow> istate" where
  "logMsg l msg s = s\<lparr>logs := logs s @ [GuestLog l (string_of_bytes msg)]\<rparr>"

section \<open>Imports that read or write guest memory\<close>

definition hostSockConnect ::
    "'m memops \<Rightarrow> hostenv \<Rightarrow> i32 \<Rightarrow> u32 \<Rightarrow> u32 \<Rightarrow> i32 \<Rightarrow> 'm \<Rightarrow> istate \<Rightarrow> istate \<times> i32" where
  "hostSockConnect M E i ipPtr ipLen port m s =
     (case readAddr M m ipPtr ipLen of None \<Rightarrow> (s, - wasiEFAULT)
      | Some ip \<Rightarrow> sockConnect E i ip port s)"

definition hostSockSend ::
    "'m memops \<Rightarrow> hostenv \<Rightarrow> i32 \<Rightarrow> u32 \<Rightarrow> u32 \<Rightarrow> 'm \<Rightarrow> istate \<Rightarrow> istate \<times> i32" where
  "hostSockSend M E i ptr n m s =
     (case readCopy M m ptr n of None \<Rightarrow> (s, - wasiEFAULT)
      | Some buf \<Rightarrow> sockSend E i buf s)"

definition hostSockSendTo ::
    "'m memops \<Rightarrow> hostenv \<Rightarrow> i32 \<Rightarrow> u32 \<Rightarrow> u32 \<Rightarrow> i32 \<Rightarrow> u32 \<Rightarrow> u32 \<Rightarrow> 'm \<Rightarrow> istate \<Rightarrow> istate \<times> i32" where
  "hostSockSendTo M E i ipPtr ipLen port ptr n m s =
     (case readAddr M m ipPtr ipLen of None \<Rightarrow> (s, - wasiEFAULT)
      | Some ip \<Rightarrow>
          (case readCopy M m ptr n of None \<Rightarrow> (s, - wasiEFAULT)
           | Some buf \<Rightarrow> sockSendTo E i ip port buf s))"

definition hostEntropy :: "'m memops \<Rightarrow> 'pub abienv \<Rightarrow> u32 \<Rightarrow> u32 \<Rightarrow> 'm \<Rightarrow> 'm outcome" where
  "hostEntropy M A ptr n m =
     (if unat ptr + unat n > unat (memSize M m) then Trap TrapEntropy
      else case memWrite M m ptr (randRead A (unat n)) of None \<Rightarrow> Trap TrapEntropy
      | Some m \<Rightarrow> Ret m)"

definition hostCryptoVerify ::
    "'m memops \<Rightarrow> 'pub sigprims \<Rightarrow> u32 \<Rightarrow> u32 \<Rightarrow> u32 \<Rightarrow> u32 \<Rightarrow> u32 \<Rightarrow> u32 \<Rightarrow> u32 \<Rightarrow> 'm \<Rightarrow> i32" where
  "hostCryptoVerify M P alg kp kn dp dn sp sn m =
     (case (readCopy M m kp kn, readCopy M m dp dn, readCopy M m sp sn) of
        (Some key, Some data, Some sig) \<Rightarrow> b2i (cryptoVerify P alg key data sig)
      | _ \<Rightarrow> 0)"

definition hostCryptoDigest ::
    "'m memops \<Rightarrow> u32 \<Rightarrow> u32 \<Rightarrow> u32 \<Rightarrow> u32 \<Rightarrow> 'm \<Rightarrow> 'm \<times> i32" where
  "hostCryptoDigest M alg ptr n out m =
     (case readCopy M m ptr n of None \<Rightarrow> (m, 0)
      | Some data \<Rightarrow>
          (case cryptoDigest alg data of None \<Rightarrow> (m, 0)
           | Some digest \<Rightarrow> (case memWrite M m out digest of None \<Rightarrow> (m, 0) | Some m \<Rightarrow> (m, 1))))"

definition hostNSEC3Hash ::
    "'m memops \<Rightarrow> u32 \<Rightarrow> u32 \<Rightarrow> u32 \<Rightarrow> u32 \<Rightarrow> u32 \<Rightarrow> u32 \<Rightarrow> 'm \<Rightarrow> 'm \<times> i32" where
  "hostNSEC3Hash M sp sn iters np nn out m =
     (case (readCopy M m sp sn, readCopy M m np nn) of
        (Some salt, Some name) \<Rightarrow>
          (case nsec3Hash salt iters name of None \<Rightarrow> (m, 0)
           | Some hash \<Rightarrow> (case memWrite M m out hash of None \<Rightarrow> (m, 0) | Some m \<Rightarrow> (m, 1)))
      | _ \<Rightarrow> (m, 0))"

definition hostLogMsg :: "'m memops \<Rightarrow> i32 \<Rightarrow> u32 \<Rightarrow> u32 \<Rightarrow> 'm \<Rightarrow> istate \<Rightarrow> istate" where
  "hostLogMsg M l ptr n m s =
     (case readCopy M m ptr n of None \<Rightarrow> s | Some msg \<Rightarrow> logMsg (mapLogLevel l) msg s)"

definition hostAbortMsg :: "'m memops \<Rightarrow> i32 \<Rightarrow> u32 \<Rightarrow> u32 \<Rightarrow> 'm \<Rightarrow> istate \<Rightarrow> istate \<times> trap" where
  "hostAbortMsg M code ptr n m s =
     (let msg = (case readCopy M m ptr n of None \<Rightarrow> [] | Some b \<Rightarrow> b)
      in (logMsg LevelError msg s, TrapAbort code msg))"

section \<open>The module unbound_wasm\<close>

datatype import =
    sock_open i32 i32
  | sock_bind i32 i32
  | sock_connect i32 u32 u32 i32
  | sock_send i32 u32 u32
  | sock_send_to i32 u32 u32 i32 u32 u32
  | sock_recv i32 u32 u32
  | sock_recv_from i32 u32 u32 u32 u32
  | sock_error i32
  | sock_local_port i32
  | sock_close i32
  | timer_start i32
  | timer_stop i64
  | now_wall_ms
  | now_mono_ms
  | entropy u32 u32
  | crypto_supported u32
  | crypto_verify u32 u32 u32 u32 u32 u32 u32
  | crypto_digest u32 u32 u32 u32
  | nsec3_hash u32 u32 u32 u32 u32 u32
  | log_msg i32 u32 u32
  | abort_msg i32 u32 u32

type_synonym 'm called = "istate \<times> 'm \<times> retval outcome"

text \<open>An import that returns an \<open>int32\<close> and leaves memory alone; one that acts on memory only.\<close>

definition retI32 :: "'m \<Rightarrow> istate \<times> i32 \<Rightarrow> 'm called" where
  "retI32 m x = (fst x, m, Ret (RetI32 (snd x)))"

definition memI32 :: "istate \<Rightarrow> 'm \<times> i32 \<Rightarrow> 'm called" where
  "memI32 s x = (s, fst x, Ret (RetI32 (snd x)))"

fun hostImport :: "'m memops \<Rightarrow> 'pub abienv \<Rightarrow> import \<Rightarrow> 'm \<Rightarrow> istate \<Rightarrow> 'm called" where
  "hostImport M A (sock_open a t) m s = retI32 m (sockOpen a t s)"
| "hostImport M A (sock_bind i port) m s = retI32 m (sockBind (abiHost A) i port s)"
| "hostImport M A (sock_connect i ipPtr ipLen port) m s =
     retI32 m (hostSockConnect M (abiHost A) i ipPtr ipLen port m s)"
| "hostImport M A (sock_send i ptr n) m s = retI32 m (hostSockSend M (abiHost A) i ptr n m s)"
| "hostImport M A (sock_send_to i ipPtr ipLen port ptr n) m s =
     retI32 m (hostSockSendTo M (abiHost A) i ipPtr ipLen port ptr n m s)"
| "hostImport M A (sock_recv i ptr c) m s =
     (case sockRecv M (abiHost A) i ptr c False 0 0 m s of (s, m, r) \<Rightarrow> (s, m, Ret (RetI32 r)))"
| "hostImport M A (sock_recv_from i ptr c ipOut portOut) m s =
     (case sockRecv M (abiHost A) i ptr c True ipOut portOut m s of (s, m, r) \<Rightarrow> (s, m, Ret (RetI32 r)))"
| "hostImport M A (sock_error i) m s = retI32 m (sockError i s)"
| "hostImport M A (sock_local_port i) m s = retI32 m (s, sockLocalPort (abiHost A) i s)"
| "hostImport M A (sock_close i) m s = (sockClose i s, m, Ret RetVoid)"
| "hostImport M A (timer_start ms) m s =
     (case timerStart (abiHost A) ms s of (s, t) \<Rightarrow> (s, m, Ret (RetI64 t)))"
| "hostImport M A (timer_stop t) m s = (timerStop (abiHost A) t s, m, Ret RetVoid)"
| "hostImport M A now_wall_ms m s =
     (s, m, Ret (RetI64 (case replay (abiHost A) of Some h \<Rightarrow> unixMilli (rpNowWall h)
                         | None \<Rightarrow> unixMilli (timeNow A))))"
| "hostImport M A now_mono_ms m s =
     (s, m, Ret (RetI64 (case replay (abiHost A) of Some h \<Rightarrow> durMilli (rpNowMono h)
                         | None \<Rightarrow> durMilli (timeSince A))))"
| "hostImport M A (entropy ptr n) m s =
     (case hostEntropy M A ptr n m of Ret m' \<Rightarrow> (s, m', Ret RetVoid)
      | Trap t \<Rightarrow> (s, m, Trap t) | Exit c \<Rightarrow> (s, m, Exit c))"
| "hostImport M A (crypto_supported alg) m s = retI32 m (s, b2i (cryptoSupported alg))"
| "hostImport M A (crypto_verify alg kp kn dp dn sp sn) m s =
     retI32 m (s, hostCryptoVerify M (abiSig A) alg kp kn dp dn sp sn m)"
| "hostImport M A (crypto_digest alg ptr n out) m s = memI32 s (hostCryptoDigest M alg ptr n out m)"
| "hostImport M A (nsec3_hash sp sn iters np nn out) m s =
     memI32 s (hostNSEC3Hash M sp sn iters np nn out m)"
| "hostImport M A (log_msg l ptr n) m s = (hostLogMsg M l ptr n m s, m, Ret RetVoid)"
| "hostImport M A (abort_msg code ptr n) m s =
     (case hostAbortMsg M code ptr n m s of (s, t) \<Rightarrow> (s, m, Trap t))"

section \<open>The module wasi_snapshot_preview1\<close>

definition wasiClockTimeGet :: "'m memops \<Rightarrow> 'pub abienv \<Rightarrow> u32 \<Rightarrow> u32 \<Rightarrow> 'm \<Rightarrow> 'm \<times> i32" where
  "wasiClockTimeGet M A clockID out m =
     (let ns = (if clockID = 0 then
                  Some (case replay (abiHost A) of Some h \<Rightarrow> rpNowWall h | None \<Rightarrow> timeNow A)
                else if clockID = 1 then
                  Some (case replay (abiHost A) of Some h \<Rightarrow> rpNowMono h | None \<Rightarrow> timeSince A)
                else None)
      in case ns of None \<Rightarrow> (m, wasiEINVAL)
      | Some ns \<Rightarrow>
          (case memWriteUint64Le M m out (word_of_int ns) of None \<Rightarrow> (m, wasiEFAULT)
           | Some m \<Rightarrow> (m, wasiSuccess)))"

definition wasiRandomGet :: "'m memops \<Rightarrow> 'pub abienv \<Rightarrow> u32 \<Rightarrow> u32 \<Rightarrow> 'm \<Rightarrow> 'm \<times> i32" where
  "wasiRandomGet M A ptr n m =
     (if unat ptr + unat n > unat (memSize M m) then (m, wasiEFAULT)
      else case memWrite M m ptr (randRead A (unat n)) of None \<Rightarrow> (m, wasiEFAULT)
      | Some m \<Rightarrow> (m, wasiSuccess))"

text \<open>The loop over the \<open>count\<close> vectors; their addresses wrap around at 32 bits.\<close>

function fdGather :: "'m memops \<Rightarrow> 'm \<Rightarrow> u32 \<Rightarrow> u32 \<Rightarrow> u32 \<Rightarrow> bytes \<Rightarrow> bytes option" where
  "fdGather M m iovs count n msg =
     (if n < count then
        (let base = iovs + n * 8 in
         case (memReadUint32Le M m base, memReadUint32Le M m (base + 4)) of
           (Some ptr, Some len) \<Rightarrow>
             (case memRead M m ptr len of None \<Rightarrow> None
              | Some part \<Rightarrow> fdGather M m iovs count (n + 1) (msg @ part))
         | _ \<Rightarrow> None)
      else Some msg)"
  by pat_completeness auto
termination fdGather
  by (relation "measure (\<lambda>(M, m, iovs, count, n, msg). unat count - unat n)")
     (auto simp: unat_Suc_below word_less_nat_alt)

declare fdGather.simps [simp del]

definition wasiFDWrite ::
    "'m memops \<Rightarrow> u32 \<Rightarrow> u32 \<Rightarrow> u32 \<Rightarrow> u32 \<Rightarrow> 'm \<Rightarrow> istate \<Rightarrow> istate \<times> 'm \<times> i32" where
  "wasiFDWrite M fd iovs count written m s =
     (if fd \<noteq> 1 \<and> fd \<noteq> 2 then (s, m, wasiEBADF)
      else case fdGather M m iovs count 0 [] of None \<Rightarrow> (s, m, wasiEFAULT)
      | Some msg \<Rightarrow>
          (case memWriteUint32Le M m written (of_nat (length msg)) of None \<Rightarrow> (s, m, wasiEFAULT)
           | Some m \<Rightarrow> (logMsg (if fd = 2 then LevelError else LevelInfo) msg s, m, wasiSuccess)))"

definition environSizesGet :: "'m memops \<Rightarrow> u32 \<Rightarrow> u32 \<Rightarrow> 'm \<Rightarrow> 'm \<times> i32" where
  "environSizesGet M count sz m =
     (case memWriteUint32Le M m count 0 of None \<Rightarrow> (m, wasiEFAULT)
      | Some m \<Rightarrow> (case memWriteUint32Le M m sz 0 of None \<Rightarrow> (m, wasiEFAULT)
          | Some m \<Rightarrow> (m, wasiSuccess)))"

datatype wasiImport =
    clock_time_get u32 u64 u32
  | random_get u32 u32
  | fd_write u32 u32 u32 u32
  | proc_exit u32
  | environ_sizes_get u32 u32
  | environ_get u32 u32
  | fd_close | fd_fdstat_get | fd_fdstat_set_flags | fd_prestat_get | fd_prestat_dir_name
  | fd_read | fd_seek | fd_sync | path_open | path_rename | path_unlink_file
  | poll_oneoff

fun wasiCall :: "'m memops \<Rightarrow> 'pub abienv \<Rightarrow> wasiImport \<Rightarrow> 'm \<Rightarrow> istate \<Rightarrow> 'm called" where
  "wasiCall M A (clock_time_get c prec out) m s = memI32 s (wasiClockTimeGet M A c out m)"
| "wasiCall M A (random_get ptr n) m s = memI32 s (wasiRandomGet M A ptr n m)"
| "wasiCall M A (fd_write fd iovs count written) m s =
     (case wasiFDWrite M fd iovs count written m s of (s, m, r) \<Rightarrow> (s, m, Ret (RetI32 r)))"
| "wasiCall M A (proc_exit code) m s = (s, m, Exit code)"
| "wasiCall M A (environ_sizes_get count sz) m s = memI32 s (environSizesGet M count sz m)"
| "wasiCall M A (environ_get a b) m s = (s, m, Ret (RetI32 wasiSuccess))"
| "wasiCall M A poll_oneoff m s = (s, m, Trap TrapPollOneoff)"
| "wasiCall M A _ m s = (s, m, Ret (RetI32 wasiENOSYS))"

section \<open>Imports are runs of steps\<close>

text \<open>
  A guest as its host sees it: a sequence of import calls, before each of which the guest changes
  its memory in any way. A trap or an exit ends the run.
\<close>

datatype guestCall = Unbound import | Wasi wasiImport

fun callImport :: "'m memops \<Rightarrow> 'pub abienv \<Rightarrow> guestCall \<Rightarrow> 'm \<Rightarrow> istate \<Rightarrow> 'm called" where
  "callImport M A (Unbound c) m s = hostImport M A c m s"
| "callImport M A (Wasi c) m s = wasiCall M A c m s"

fun guestRun :: "'m memops \<Rightarrow> ('pub abienv \<times> ('m \<Rightarrow> 'm) \<times> guestCall) list \<Rightarrow> 'm \<Rightarrow> istate \<Rightarrow> istate \<times> 'm" where
  "guestRun M [] m s = (s, m)"
| "guestRun M ((A, g, c) # cs) m s =
     (case callImport M A c (g m) s of
        (s, m, Ret v) \<Rightarrow> guestRun M cs m s
      | (s, m, _) \<Rightarrow> (s, m))"

lemma step_logMsg: "step (s, Idle) (logMsg l msg s, Idle)"
  unfolding logMsg_def by (rule g_log)

lemmas [host_defs] = retI32_def memI32_def hostSockConnect_def hostSockSend_def hostSockSendTo_def
  hostLogMsg_def hostAbortMsg_def wasiFDWrite_def

lemma hostImport_steps:
  assumes "replay (abiHost A) = None"
  shows "steps (s, Idle) (fst (hostImport M A c m s), Idle)"
proof (cases c)
  case (sock_recv i ptr n)
  then show ?thesis
    using call_sockRecv [of s M "abiHost A" i ptr n False 0 0 m] by (simp add: case_prod_unfold)
next
  case (sock_recv_from i ptr n ipOut portOut)
  then show ?thesis
    using call_sockRecv [of s M "abiHost A" i ptr n True ipOut portOut m] by (simp add: case_prod_unfold)
next
  case (timer_start ms)
  then show ?thesis
    using step_steps [OF g_timer_start [OF assms, of s ms]] by (simp add: case_prod_unfold)
qed (use assms in \<open>auto simp: host_defs Let_def
     intro: call_sockBind call_sockConnect call_sockSend call_sockSendTo call_sockClose
       step_steps [OF g_open] step_steps [OF g_error] step_steps [OF g_timer_stop]
       step_steps [OF step_logMsg]
     split: option.splits outcome.splits\<close>)

lemma wasiCall_steps: "steps (s, Idle) (fst (wasiCall M A c m s), Idle)"
  by (cases c) (auto simp: host_defs intro: step_steps [OF step_logMsg] split: option.splits)

lemma guestRun_steps:
  assumes "list_all (\<lambda>(A, g, c). replay (abiHost A) = None) cs"
  shows "steps (s, Idle) (fst (guestRun M cs m s), Idle)"
  using assms
proof (induction M cs m s rule: guestRun.induct)
  case (2 M A g c cs m s)
  obtain s' m' r where e: "callImport M A c (g m) s = (s', m', r)" by (metis prod_cases3)
  have "steps (s, Idle) (s', Idle)"
    using hostImport_steps [of A s M _ "g m"] wasiCall_steps [of s M A _ "g m"] e 2(2)
    by (cases c) (auto, metis fst_conv, metis fst_conv)
  with 2 e show ?case
    by (cases r) (auto intro: rtranclp_trans)
qed simp

section \<open>Properties\<close>



text \<open>The entropy import either fills exactly the requested range with random bytes and leaves the rest
  of guest memory alone, or the range does not fit and it traps: a guest never goes on without its
  entropy.\<close>

theorem entropy_fills_or_traps:
  assumes "linear_memory M memLen" and "memLen m < 2 ^ 32"
  shows "if unat ptr + unat n \<le> memLen m
    then \<exists>m'. hostEntropy M A ptr n m = Ret m' \<and> memRead M m' ptr n = Some (randRead A (unat n))
       \<and> (\<forall>q k. unat q + unat k \<le> unat ptr \<or> unat ptr + unat n \<le> unat q \<longrightarrow>
            memRead M m' q k = memRead M m q k)
    else hostEntropy M A ptr n m = Trap TrapEntropy"
proof (cases "unat ptr + unat n \<le> memLen m")
  case True
  have sz: "unat (memSize M m) = memLen m"
    using assms(2) linear_memory.size [OF assms(1), of m] by (simp add: unat_of_nat)
  from True linear_memory.write_range [OF assms(1), of m ptr "randRead A (unat n)"]
  obtain m' where w: "memWrite M m ptr (randRead A (unat n)) = Some m'" by auto
  from linear_memory.write_read_prefix [OF assms(1) w, of n] linear_memory.write_outside [OF assms(1) w]
  show ?thesis using True sz w by (simp add: hostEntropy_def)
next
  case False
  have "unat (memSize M m) = memLen m"
    using assms(2) linear_memory.size [OF assms(1), of m] by (simp add: unat_of_nat)
  with False show ?thesis by (simp add: hostEntropy_def)
qed

theorem entropy_fills_or_traps_witness:
  "\<exists>A :: unit abienv. hostEntropy flat_ops A 6 4 (replicate 8 0) = Trap TrapEntropy"
proof -
  fix A :: "unit abienv"
  have "hostEntropy flat_ops A 6 4 (replicate 8 0) = Trap TrapEntropy"
    using entropy_fills_or_traps [OF flat.linear_memory_axioms, of "replicate 8 0" 6 4 A] by simp
  then show ?thesis by blast
qed

section \<open>The size of a log message\<close>

text \<open>A memory of \<open>k\<close> vectors, each of which names the whole memory.\<close>

definition iovMem :: "nat \<Rightarrow> bytes" where
  "iovMem k = concat (replicate k (put_le32 0 @ put_le32 (of_nat (8 * k))))"

lemma length_concat_replicate: "length (concat (replicate k b)) = k * length b"
  by (induction k) auto

lemma drop_concat_replicate:
  "n \<le> k \<Longrightarrow> length b = l \<Longrightarrow> drop (l * n) (concat (replicate k b)) = concat (replicate (k - n) b)"
proof (induction n arbitrary: k)
  case (Suc n)
  then obtain k' where k: "k = Suc k'" by (cases k) auto
  with Suc show ?case by simp
qed simp

lemma length_iovMem [simp]: "length (iovMem k) = 8 * k"
  by (simp add: iovMem_def length_concat_replicate)

lemma iovMem_drop: "n < k \<Longrightarrow>
   drop (8 * n) (iovMem k) = put_le32 0 @ put_le32 (of_nat (8 * k)) @ drop (8 * Suc n) (iovMem k)"
proof -
  assume n: "n < k"
  let ?b = "put_le32 0 @ put_le32 (of_nat (8 * k))"
  have "drop (8 * n) (iovMem k) = concat (replicate (Suc (k - Suc n)) ?b)"
    unfolding iovMem_def using drop_concat_replicate [of n k ?b 8] n by (simp add: Suc_diff_Suc del: replicate_Suc)
  then show ?thesis
    unfolding iovMem_def using drop_concat_replicate [of "Suc n" k ?b 8] n by simp
qed

lemma iovMem_vector:
  assumes "n < k" and "8 * k < 2 ^ 32"
  shows "memReadUint32Le flat_ops (iovMem k) (of_nat (8 * n)) = Some 0"
    and "memReadUint32Le flat_ops (iovMem k) (of_nat (8 * n) + 4) = Some (of_nat (8 * k))"
proof -
  have u: "unat (of_nat (8 * n) :: u32) = 8 * n" "unat (of_nat (8 * n) + 4 :: u32) = 8 * n + 4"
    using assms by (simp_all add: unat_of_nat unat_word_ariths del: of_nat_mult)
  have d: "drop (8 * n + 4) (iovMem k) = put_le32 (of_nat (8 * k)) @ drop (8 * Suc n) (iovMem k)"
    unfolding add.commute [of _ 4] drop_drop [symmetric] iovMem_drop [OF assms(1)] by simp
  show "memReadUint32Le flat_ops (iovMem k) (of_nat (8 * n)) = Some 0"
    using assms(1) iovMem_drop [OF assms(1)] by (simp add: flat_read_def u del: of_nat_mult)
  show "memReadUint32Le flat_ops (iovMem k) (of_nat (8 * n) + 4) = Some (of_nat (8 * k))"
    using assms(1) d by (simp add: flat_read_def u del: of_nat_mult)
qed

lemma fdGather_iovMem:
  assumes "8 * k < 2 ^ 32" and "n \<le> k"
  shows "fdGather flat_ops (iovMem k) 0 (of_nat k) (of_nat n) msg = Some (msg @ concat (replicate (k - n) (iovMem k)))"
  using assms(2)
proof (induction "k - n" arbitrary: n msg)
  case 0
  then show ?case by (simp add: fdGather.simps)
next
  case (Suc j)
  then have n: "n < k" by simp
  have lt: "(of_nat n :: u32) < of_nat k"
    using n assms(1) by (simp add: word_less_nat_alt unat_of_nat)
  have e: "(of_nat n * 8 :: u32) = of_nat (8 * n)" by simp
  have u: "unat (of_nat (8 * k) :: u32) = 8 * k" using assms(1) by (simp add: unat_of_nat del: of_nat_mult)
  have r: "flat_read (iovMem k) 0 (of_nat (8 * k)) = Some (iovMem k)" by (simp add: flat_read_def u del: of_nat_mult)
  have s: "(of_nat n + 1 :: u32) = of_nat (Suc n)" by simp
  have "fdGather flat_ops (iovMem k) 0 (of_nat k) (of_nat n) msg
      = fdGather flat_ops (iovMem k) 0 (of_nat k) (of_nat (Suc n)) (msg @ iovMem k)"
    by (subst fdGather.simps)
       (simp only: lt e s r if_True Let_def add_0 iovMem_vector [OF n assms(1)] prod.case option.case flat_ops_simps(2))
  also have "\<dots> = Some ((msg @ iovMem k) @ concat (replicate (k - Suc n) (iovMem k)))"
    using Suc n by (intro Suc.hyps(1)) simp_all
  also have "\<dots> = Some (msg @ concat (replicate (Suc (k - Suc n)) (iovMem k)))" by simp
  finally show ?case using n by (simp add: Suc_diff_Suc del: replicate_Suc)
qed

text \<open>\<open>fd_write\<close> may make the host build a message far larger than guest memory: in a memory of
  \<open>8 * k\<close> bytes, one call with \<open>k\<close> overlapping vectors logs \<open>k\<close> times the whole memory.\<close>

theorem fd_write_amplifies:
  assumes "0 < k" and "8 * k < 2 ^ 32"
  shows "\<exists>m m' s' msg. length m = 8 * k
    \<and> wasiFDWrite flat_ops 1 0 (of_nat k) 0 m s = (s', m', wasiSuccess)
    \<and> logs s' = logs s @ [GuestLog LevelInfo msg] \<and> length msg = length m * k"
proof -
  have g: "fdGather flat_ops (iovMem k) 0 (of_nat k) 0 [] = Some (concat (replicate k (iovMem k)))"
    using fdGather_iovMem [OF assms(2), of 0 "[]"] by simp
  obtain m' where w: "memWriteUint32Le flat_ops (iovMem k) 0 (of_nat (length (concat (replicate k (iovMem k))))) = Some m'"
    using assms(1) by (simp add: flat_write_def)
  have "wasiFDWrite flat_ops 1 0 (of_nat k) 0 (iovMem k) s =
      (logMsg LevelInfo (concat (replicate k (iovMem k))) s, m', wasiSuccess)"
    using w by (simp add: wasiFDWrite_def g)
  moreover have "length (string_of_bytes (concat (replicate k (iovMem k)))) = length (iovMem k) * k"
    by (simp add: length_concat_replicate)
  ultimately show ?thesis
    by (intro exI [of _ "iovMem k"] exI [of _ m'] exI conjI) (auto simp: logMsg_def)
qed

theorem fd_write_amplifies_witness:
  "\<exists>m m' s' msg. length m = 8 * 4096
    \<and> wasiFDWrite flat_ops 1 0 4096 0 m newInstanceState = (s', m', wasiSuccess)
    \<and> logs s' = [GuestLog LevelInfo msg] \<and> length msg = length m * 4096"
  using fd_write_amplifies [of 4096 newInstanceState] by (simp add: newInstanceState_def)

end
