(* ===== verification/GoStrings.thy ===== *)
theory GoStrings
  imports Prelude
begin

text \<open>
  The string functions of Go's standard library that the host relies on, on byte lists:
  \<open>strings.EqualFold\<close> with the UTF-8 decoding underneath it, and decimal printing. The
  table behind \<open>unicode.SimpleFold\<close> is a parameter \<open>sf\<close>; it only matters for names with
  bytes above \<open>0x7f\<close>.
\<close>

section \<open>Decimal numbers\<close>

text \<open>\<open>strconv.Itoa\<close> and the verb \<open>%d\<close>.\<close>

function digits :: "nat \<Rightarrow> string" where
  "digits n = (if n < 10 then [char_of (48 + n)] else digits (n div 10) @ [char_of (48 + n mod 10)])"
  by pat_completeness auto
termination digits
  by (relation "measure id") auto

declare digits.simps [simp del]

definition itoa :: "int \<Rightarrow> string" where
  "itoa i = (if i < 0 then CHR ''-'' # digits (nat (- i)) else digits (nat i))"

definition isDigit :: "char \<Rightarrow> bool" where
  "isDigit c \<longleftrightarrow> 48 \<le> (of_char c :: nat) \<and> (of_char c :: nat) \<le> 57"

lemma digit_char [simp]: "d < 10 \<Longrightarrow> of_char (char_of (48 + d :: nat) :: char) = (48 + d :: nat)"
  by simp

lemma digits_nonempty [simp]: "digits n \<noteq> []"
  by (subst digits.simps) simp

lemma isDigit_digit [simp]: "isDigit (char_of (48 + n mod 10 :: nat))" "m < 10 \<Longrightarrow> isDigit (char_of (48 + m :: nat))"
  by (simp_all add: isDigit_def)

lemma digits_isDigit: "list_all isDigit (digits n)"
  by (induction n rule: digits.induct) (subst digits.simps, auto)

section \<open>UTF-8\<close>

definition runeError :: nat where
  "runeError = 0xfffd"

definition cont :: "nat \<Rightarrow> nat \<Rightarrow> u8 \<Rightarrow> bool" where
  "cont lo hi b \<longleftrightarrow> lo \<le> unat b \<and> unat b \<le> hi"

text \<open>\<open>utf8.DecodeRuneInString\<close>: the rune and its size; an invalid byte is \<open>runeError\<close> of size 1.\<close>

definition decodeRune :: "bytes \<Rightarrow> nat \<times> nat" where
  "decodeRune s = (case s of [] \<Rightarrow> (runeError, 0)
     | p0 # t \<Rightarrow>
       (let c = unat p0 in
        if c < 0x80 then (c, 1)
        else if 0xc2 \<le> c \<and> c \<le> 0xdf then
          (case t of b1 # _ \<Rightarrow> if cont 0x80 0xbf b1
              then ((c mod 32) * 64 + unat b1 mod 64, 2) else (runeError, 1)
           | _ \<Rightarrow> (runeError, 1))
        else if 0xe0 \<le> c \<and> c \<le> 0xef then
          (case t of b1 # b2 # _ \<Rightarrow>
              if cont (if c = 0xe0 then 0xa0 else 0x80) (if c = 0xed then 0x9f else 0xbf) b1
                 \<and> cont 0x80 0xbf b2
              then ((c mod 16) * 4096 + (unat b1 mod 64) * 64 + unat b2 mod 64, 3) else (runeError, 1)
           | _ \<Rightarrow> (runeError, 1))
        else if 0xf0 \<le> c \<and> c \<le> 0xf4 then
          (case t of b1 # b2 # b3 # _ \<Rightarrow>
              if cont (if c = 0xf0 then 0x90 else 0x80) (if c = 0xf4 then 0x8f else 0xbf) b1
                 \<and> cont 0x80 0xbf b2 \<and> cont 0x80 0xbf b3
              then ((c mod 8) * 262144 + (unat b1 mod 64) * 4096 + (unat b2 mod 64) * 64
                    + unat b3 mod 64, 4) else (runeError, 1)
           | _ \<Rightarrow> (runeError, 1))
        else (runeError, 1)))"

lemma decodeRune_size: "s \<noteq> [] \<Longrightarrow> 0 < snd (decodeRune s)"
  by (auto simp: decodeRune_def Let_def split: list.splits)

lemma decodeRune_less: "(a, n) = decodeRune s \<Longrightarrow> s \<noteq> [] \<Longrightarrow> length s - n < length s"
  using decodeRune_size [of s] by (metis diff_less length_greater_0_conv snd_conv)

section \<open>EqualFold\<close>

text \<open>ASCII letters that differ in case only, the smaller rune first.\<close>

definition asciiFold :: "nat \<Rightarrow> nat \<Rightarrow> bool" where
  "asciiFold sr tr \<longleftrightarrow> 65 \<le> sr \<and> sr \<le> 90 \<and> tr = sr + 32"

text \<open>
  The orbit of \<open>SimpleFold\<close> is walked until it is back at the start or has passed the other
  rune. \<open>maxRune\<close> steps are enough for any table, since a longer walk repeats a rune.
\<close>

definition maxRune :: nat where
  "maxRune = 0x110000"

fun foldWalk :: "(nat \<Rightarrow> nat) \<Rightarrow> nat \<Rightarrow> nat \<Rightarrow> nat \<Rightarrow> nat \<Rightarrow> nat" where
  "foldWalk sf sr tr r n =
     (if n = 0 \<or> \<not> (r \<noteq> sr \<and> r < tr) then r else foldWalk sf sr tr (sf r) (n - 1))"

declare foldWalk.simps [simp del]

definition runeFold :: "(nat \<Rightarrow> nat) \<Rightarrow> nat \<Rightarrow> nat \<Rightarrow> bool" where
  "runeFold sf a b =
     (if a = b then True
      else
        (let sr = min a b; tr = max a b in
         if tr < 0x80 then asciiFold sr tr
         else foldWalk sf sr tr (sf sr) maxRune = tr))"

text \<open>The loop over runes, after the first byte above \<open>0x7f\<close>.\<close>

function foldRunes :: "(nat \<Rightarrow> nat) \<Rightarrow> bytes \<Rightarrow> bytes \<Rightarrow> bool" where
  "foldRunes sf s t =
     (if s = [] then t = []
      else if t = [] then False
      else (case (decodeRune s, decodeRune t) of ((a, n), (b, k)) \<Rightarrow>
        if runeFold sf a b then foldRunes sf (drop n s) (drop k t) else False))"
  by pat_completeness auto
termination foldRunes
  by (relation "measure (\<lambda>(sf, s, t). length s)") (auto dest: decodeRune_less)

declare foldRunes.simps [simp del]

fun EqualFold :: "(nat \<Rightarrow> nat) \<Rightarrow> bytes \<Rightarrow> bytes \<Rightarrow> bool" where
  "EqualFold sf (a # s) (b # t) =
     (if unat a \<ge> 0x80 \<or> unat b \<ge> 0x80 then foldRunes sf (a # s) (b # t)
      else if a = b \<or> asciiFold (min (unat a) (unat b)) (max (unat a) (unat b)) then EqualFold sf s t
      else False)"
| "EqualFold sf s t = (length s = length t)"

section \<open>ASCII names\<close>

definition lowerByte :: "u8 \<Rightarrow> u8" where
  "lowerByte b = (if 65 \<le> unat b \<and> unat b \<le> 90 then b + 32 else b)"

lemma unat_lowerByte: "unat (lowerByte b) = (if 65 \<le> unat b \<and> unat b \<le> 90 then unat b + 32 else unat b)"
  by (auto simp: lowerByte_def unat_word_ariths)

lemma lowerByte_eq_iff:
  "lowerByte a = lowerByte b \<longleftrightarrow> a = b \<or> asciiFold (min (unat a) (unat b)) (max (unat a) (unat b))"
  unfolding word_unat_eq_iff unat_lowerByte asciiFold_def by auto

lemma EqualFold_ascii:
  "list_all (\<lambda>c. unat c < 0x80) a \<Longrightarrow> list_all (\<lambda>c. unat c < 0x80) b \<Longrightarrow>
   EqualFold sf a b \<longleftrightarrow> map lowerByte a = map lowerByte b"
  by (induction sf a b rule: EqualFold.induct) (auto simp: lowerByte_eq_iff)

end
