(* ===== verification/Answer.thy ===== *)
theory Answer
  imports GuestMem GoStrings
begin

text \<open>
  The answer parser of \<open>answer.go\<close>. The DNS message parser is the package
  \<open>golang.org/x/net/dns/dnsmessage\<close>, a parameter: the record \<open>dnsmessage\<close> of the methods of
  its \<open>Parser\<close>, over an arbitrary type of parser states. A name is the string that
  \<open>Name.String\<close> returns.
\<close>

section \<open>Data\<close>

abbreviation (input) TypeA :: u16 where "TypeA \<equiv> 1"
abbreviation (input) TypeCNAME :: u16 where "TypeCNAME \<equiv> 5"
abbreviation (input) TypeTXT :: u16 where "TypeTXT \<equiv> 16"
abbreviation (input) TypeAAAA :: u16 where "TypeAAAA \<equiv> 28"
abbreviation (input) TypeOPT :: u16 where "TypeOPT \<equiv> 41"
abbreviation (input) TypeCAA :: u16 where "TypeCAA \<equiv> 257"

datatype resourceBody =
    AResource bytes
  | AAAAResource bytes
  | TXTResource "string list"
  | CNAMEResource string
  | UnknownResource bytes
  | OtherResource

record resource =
  rrName :: string
  rrType :: u16
  rrBody :: resourceBody

record dnsOption =
  optCode :: u16
  optData :: bytes

record 'p dnsmessage =
  dnsStart :: "bytes \<Rightarrow> goerr + (bool \<times> 'p)"
  dnsSkipAllQuestions :: "'p \<Rightarrow> goerr + 'p"
  dnsAllAnswers :: "'p \<Rightarrow> goerr + (resource list \<times> 'p)"
  dnsSkipAllAnswers :: "'p \<Rightarrow> goerr + 'p"
  dnsSkipAllAuthorities :: "'p \<Rightarrow> goerr + 'p"
  dnsAdditionalHeader :: "'p \<Rightarrow> goerr + (u16 \<times> 'p)"
  dnsSkipAdditional :: "'p \<Rightarrow> goerr + 'p"
  dnsOPTResource :: "'p \<Rightarrow> goerr + (dnsOption list \<times> 'p)"

record CAA =
  caaFlags :: u8
  caaTag :: string
  caaValue :: string

record Result =
  Secure :: bool
  HaveData :: bool
  NXDomain :: bool
  AnswerPacket :: bytes
  resAddrs :: "addr list"
  resTxt :: "string list"
  resCaa :: "CAA list"

section \<open>Records\<close>

definition parseCAA :: "bytes \<Rightarrow> goerr + CAA" where
  "parseCAA data =
     (if length data < 2 \<or> data ! 1 = 0 \<or> length data < 2 + unat (data ! 1)
      then Inl (ErrNew ''unbound: malformed CAA record'')
      else let tagLen = unat (data ! 1) in
        Inr \<lparr>caaFlags = data ! 0, caaTag = string_of_bytes (take tagLen (drop 2 data)),
             caaValue = string_of_bytes (drop (2 + tagLen) data)\<rparr>)"

definition nameEqual :: "(nat \<Rightarrow> nat) \<Rightarrow> string \<Rightarrow> string \<Rightarrow> bool" where
  "nameEqual sf a b = EqualFold sf (bytes_of_string a) (bytes_of_string b)"

text \<open>
  The type assertion of \<open>cnameTarget\<close> panics on a body of another type: the outer
  \<^const>\<open>None\<close> is a panic, the inner one \<open>("", false)\<close>.
\<close>

fun cnameTarget :: "(nat \<Rightarrow> nat) \<Rightarrow> resource list \<Rightarrow> string \<Rightarrow> string option option" where
  "cnameTarget sf [] owner = Some None"
| "cnameTarget sf (rr # rrs) owner =
     (if rrType rr = TypeCNAME \<and> nameEqual sf (rrName rr) owner
      then (case rrBody rr of CNAMEResource c \<Rightarrow> Some (Some c) | _ \<Rightarrow> None)
      else cnameTarget sf rrs owner)"

text \<open>The loop \<open>for range answers\<close>, with the number of iterations left.\<close>

fun cnameWalk :: "(nat \<Rightarrow> nat) \<Rightarrow> resource list \<Rightarrow> nat \<Rightarrow> string \<Rightarrow> string option" where
  "cnameWalk sf answers 0 owner = Some owner"
| "cnameWalk sf answers (Suc n) owner =
     (case cnameTarget sf answers owner of None \<Rightarrow> None
      | Some None \<Rightarrow> Some owner
      | Some (Some target) \<Rightarrow> cnameWalk sf answers n target)"

text \<open>The body of the second loop for one record, and the loop with its early return.\<close>

definition addRecord :: "u16 \<Rightarrow> resource \<Rightarrow> Result \<Rightarrow> Result \<times> goerr option" where
  "addRecord qtype rr r =
     (let r = r\<lparr>HaveData := True\<rparr> in
      case rrBody rr of
        AResource a \<Rightarrow> (r\<lparr>resAddrs := resAddrs r @ [AddrFrom4 a]\<rparr>, None)
      | AAAAResource a \<Rightarrow> (r\<lparr>resAddrs := resAddrs r @ [AddrFrom16 a]\<rparr>, None)
      | TXTResource ts \<Rightarrow> (r\<lparr>resTxt := resTxt r @ [concat ts]\<rparr>, None)
      | UnknownResource d \<Rightarrow>
          (if qtype = TypeCAA then
             (case parseCAA d of Inl e \<Rightarrow> (r, Some e)
              | Inr c \<Rightarrow> (r\<lparr>resCaa := resCaa r @ [c]\<rparr>, None))
           else (r, None))
      | _ \<Rightarrow> (r, None))"

fun fillRecords ::
    "(nat \<Rightarrow> nat) \<Rightarrow> u16 \<Rightarrow> string \<Rightarrow> resource list \<Rightarrow> Result \<Rightarrow> Result \<times> goerr option" where
  "fillRecords sf qtype owner [] r = (r, None)"
| "fillRecords sf qtype owner (rr # rrs) r =
     (if rrType rr \<noteq> qtype \<or> \<not> nameEqual sf (rrName rr) owner
      then fillRecords sf qtype owner rrs r
      else (case addRecord qtype rr r of
              (r, Some e) \<Rightarrow> (r, Some e)
            | (r, None) \<Rightarrow> fillRecords sf qtype owner rrs r))"

definition malformed :: "goerr \<Rightarrow> goerr" where
  "malformed e = ErrWrapf ''unbound: malformed answer packet: '' e"

definition parseAnswer ::
    "'p dnsmessage \<Rightarrow> (nat \<Rightarrow> nat) \<Rightarrow> string \<Rightarrow> u16 \<Rightarrow> Result \<Rightarrow> (Result \<times> goerr option) option" where
  "parseAnswer D sf qname qtype r =
     (if AnswerPacket r = [] then Some (r, None)
      else case dnsStart D (AnswerPacket r) of
        Inl e \<Rightarrow> Some (r, Some (malformed e))
      | Inr (truncated, p) \<Rightarrow>
        if truncated then Some (r, Some (ErrNew ''unbound: truncated answer''))
        else case dnsSkipAllQuestions D p of
          Inl e \<Rightarrow> Some (r, Some (malformed e))
        | Inr p \<Rightarrow>
          (case dnsAllAnswers D p of
             Inl e \<Rightarrow> Some (r, Some (malformed e))
           | Inr (answers, _) \<Rightarrow>
             (case (if qtype \<noteq> TypeCNAME then cnameWalk sf answers (length answers) qname
                    else Some qname) of
                None \<Rightarrow> None
              | Some owner \<Rightarrow> Some (fillRecords sf qtype owner answers r))))"

section \<open>Extended DNS errors\<close>

definition trimNul :: "string \<Rightarrow> string" where
  "trimNul s = (if s \<noteq> [] \<and> last s = CHR 0x00 then butlast s else s)"

fun edeOptions :: "dnsOption list \<Rightarrow> EDE list \<Rightarrow> EDE list" where
  "edeOptions [] edes = edes"
| "edeOptions (o' # os) edes =
     (if optCode o' \<noteq> 15 \<or> length (optData o') < 2 then edeOptions os edes
      else edeOptions os (edes @ [\<lparr>Code = be16 (optData o'),
             Text = trimNul (string_of_bytes (drop 2 (optData o')))\<rparr>]))"

partial_function (option) edeLoop :: "'p dnsmessage \<Rightarrow> 'p \<Rightarrow> EDE list \<Rightarrow> EDE list option" where
  "edeLoop D p edes =
     (case dnsAdditionalHeader D p of Inl e \<Rightarrow> Some edes
      | Inr (t, p) \<Rightarrow>
        if t \<noteq> TypeOPT then
          (case dnsSkipAdditional D p of Inl e \<Rightarrow> Some edes | Inr p \<Rightarrow> edeLoop D p edes)
        else
          (case dnsOPTResource D p of Inl e \<Rightarrow> Some edes
           | Inr (opts, p) \<Rightarrow> edeLoop D p (edeOptions opts edes)))"

definition parseEDE :: "'p dnsmessage \<Rightarrow> bytes \<Rightarrow> EDE list option" where
  "parseEDE D packet =
     (case dnsStart D packet of Inl e \<Rightarrow> Some []
      | Inr (_, p) \<Rightarrow>
        (case dnsSkipAllQuestions D p of Inl e \<Rightarrow> Some []
         | Inr p \<Rightarrow>
           (case dnsSkipAllAnswers D p of Inl e \<Rightarrow> Some []
            | Inr p \<Rightarrow>
              (case dnsSkipAllAuthorities D p of Inl e \<Rightarrow> Some []
               | Inr p \<Rightarrow> edeLoop D p []))))"

section \<open>The CNAME walk\<close>

text \<open>What the parser of \<open>dnsmessage\<close> guarantees: a record of type CNAME has a CNAME body.\<close>

definition typedAnswers :: "resource list \<Rightarrow> bool" where
  "typedAnswers answers \<longleftrightarrow>
     list_all (\<lambda>rr. rrType rr = TypeCNAME \<longrightarrow> (\<exists>c. rrBody rr = CNAMEResource c)) answers"

text \<open>The alias chain without a bound: the owner after \<open>k\<close> aliases, \<^const>\<open>None\<close> if it ends before.\<close>

fun aliasChain :: "(nat \<Rightarrow> nat) \<Rightarrow> resource list \<Rightarrow> nat \<Rightarrow> string \<Rightarrow> string option" where
  "aliasChain sf answers 0 owner = Some owner"
| "aliasChain sf answers (Suc k) owner =
     (case cnameTarget sf answers owner of Some (Some target) \<Rightarrow> aliasChain sf answers k target
      | _ \<Rightarrow> None)"

definition cnameTargets :: "resource list \<Rightarrow> string set" where
  "cnameTargets answers = (\<lambda>rr. case rrBody rr of CNAMEResource c \<Rightarrow> c | _ \<Rightarrow> []) ` set answers"

lemma card_cnameTargets: "finite (cnameTargets answers)" "card (cnameTargets answers) \<le> length answers"
  unfolding cnameTargets_def using card_image_le card_length by (auto intro: order.trans)

lemma cnameTarget_mem: "cnameTarget sf answers o' = Some (Some t) \<Longrightarrow> t \<in> cnameTargets answers"
  by (induction answers) (auto simp: cnameTargets_def split: if_splits resourceBody.splits)

lemma cnameTarget_typed: "typedAnswers answers \<Longrightarrow> cnameTarget sf answers o' \<noteq> None"
  by (induction answers) (auto simp: typedAnswers_def split: resourceBody.splits)

lemma aliasChain_add:
  "aliasChain sf A (i + k) o' = Option.bind (aliasChain sf A i o') (aliasChain sf A k)"
  by (induction i arbitrary: o') (auto split: option.splits)

lemma aliasChain_prefix: "aliasChain sf A n o' \<noteq> None \<Longrightarrow> i \<le> n \<Longrightarrow> aliasChain sf A i o' \<noteq> None"
  using aliasChain_add [of sf A i "n - i" o'] by (auto simp: bind_eq_Some_conv)

lemma aliasChain_mem: "aliasChain sf A (Suc n) o' = Some t \<Longrightarrow> t \<in> cnameTargets A"
proof (induction n arbitrary: o')
  case 0
  then show ?case by (auto split: option.splits intro: cnameTarget_mem)
next
  case (Suc n)
  then show ?case
    by (auto simp: aliasChain.simps(2) [of sf A "Suc n"] simp del: aliasChain.simps(2) split: option.splits)
qed

lemma aliasChain_loop:
  assumes "aliasChain sf A i o' = aliasChain sf A j o'" and "i < j" and "aliasChain sf A j o' \<noteq> None"
  shows "aliasChain sf A n o' \<noteq> None"
proof (induction n rule: less_induct)
  case (less n)
  show ?case
  proof (cases "n \<le> j")
    case True
    with assms(3) show ?thesis by (rule aliasChain_prefix)
  next
    case False
    then have "aliasChain sf A n o' = aliasChain sf A (i + (n - j)) o'"
      using assms(1) aliasChain_add [of sf A j "n - j" o'] aliasChain_add [of sf A i "n - j" o'] by simp
    moreover from False assms(2) have "i + (n - j) < n" by simp
    ultimately show ?thesis using less by simp
  qed
qed

lemma aliasChain_long:
  assumes "aliasChain sf A (Suc (length A)) o' \<noteq> None"
  shows "aliasChain sf A n o' \<noteq> None"
proof -
  let ?I = "{1..Suc (length A)}"
  let ?f = "\<lambda>i. the (aliasChain sf A i o')"
  have def: "aliasChain sf A i o' = Some (?f i)" if "i \<in> ?I" for i
    using aliasChain_prefix [OF assms, of i] that by simp
  have "?f i \<in> cnameTargets A" if "i \<in> ?I" for i
    using aliasChain_mem [of sf A "i - 1" o' "?f i"] def [OF that] that
    by (simp del: aliasChain.simps)
  then have "?f ` ?I \<subseteq> cnameTargets A" by blast
  then have "card (?f ` ?I) \<le> length A"
    using card_cnameTargets card_mono order.trans by metis
  then have "\<not> inj_on ?f ?I" by (intro pigeonhole) simp
  then obtain i j where ij: "i \<in> ?I" "j \<in> ?I" "i < j" "?f i = ?f j"
    unfolding inj_on_def by (metis linorder_neqE_nat)
  have "aliasChain sf A i o' = aliasChain sf A j o'"
    using def [OF ij(1)] def [OF ij(2)] ij(4) by metis
  then show ?thesis
    by (rule aliasChain_loop [OF _ ij(3)]) (metis def [OF ij(2)] option.distinct(1))
qed

lemma cnameWalk_chain:
  assumes "typedAnswers A"
  shows "\<exists>owner k. cnameWalk sf A n o' = Some owner \<and> k \<le> n \<and> aliasChain sf A k o' = Some owner
     \<and> (k < n \<longrightarrow> cnameTarget sf A owner = Some None)"
proof (induction n arbitrary: o')
  case (Suc n)
  show ?case
  proof (cases "cnameTarget sf A o'")
    case None
    with cnameTarget_typed [OF assms, of sf o'] show ?thesis by simp
  next
    case (Some t)
    show ?thesis
    proof (cases t)
      case None
      with Some show ?thesis by (intro exI [of _ o'] exI [of _ 0]) simp
    next
      case t': (Some x)
      from Suc.IH [of x] obtain owner k where "cnameWalk sf A n x = Some owner" "k \<le> n"
        "aliasChain sf A k x = Some owner" "k < n \<longrightarrow> cnameTarget sf A owner = Some None" by blast
      with Some t' show ?thesis by (intro exI [of _ owner] exI [of _ "Suc k"]) simp
    qed
  qed
qed simp

section \<open>The records of the answer\<close>

text \<open>The records of the answer: those of the queried type at the final owner, and what each contributes.\<close>

definition matching :: "(nat \<Rightarrow> nat) \<Rightarrow> u16 \<Rightarrow> string \<Rightarrow> resource list \<Rightarrow> resource list" where
  "matching sf qtype owner answers = filter (\<lambda>rr. rrType rr = qtype \<and> nameEqual sf (rrName rr) owner) answers"

fun bodyAddr :: "resourceBody \<Rightarrow> addr list" where
  "bodyAddr (AResource a) = [AddrFrom4 a]"
| "bodyAddr (AAAAResource a) = [AddrFrom16 a]"
| "bodyAddr _ = []"

fun bodyTxt :: "resourceBody \<Rightarrow> string list" where
  "bodyTxt (TXTResource ts) = [concat ts]"
| "bodyTxt _ = []"

fun bodyCaa :: "u16 \<Rightarrow> resourceBody \<Rightarrow> (goerr + CAA) list" where
  "bodyCaa qtype (UnknownResource d) = (if qtype = TypeCAA then [parseCAA d] else [])"
| "bodyCaa qtype _ = []"

lemma addRecord_ok:
  assumes "addRecord qtype rr r = (r', None)"
  shows "HaveData r'" "resAddrs r' = resAddrs r @ bodyAddr (rrBody rr)"
    "resTxt r' = resTxt r @ bodyTxt (rrBody rr)"
    "map Inr (resCaa r') = map Inr (resCaa r) @ bodyCaa qtype (rrBody rr)"
    "AnswerPacket r' = AnswerPacket r" "Secure r' = Secure r" "NXDomain r' = NXDomain r"
  using assms by (auto simp: addRecord_def Let_def split: resourceBody.splits if_splits sum.splits)

lemma fillRecords_ok:
  assumes "fillRecords sf qtype owner answers r = (r', None)"
  shows "(HaveData r' \<longleftrightarrow> HaveData r \<or> matching sf qtype owner answers \<noteq> [])
    \<and> resAddrs r' = resAddrs r @ concat (map (bodyAddr \<circ> rrBody) (matching sf qtype owner answers))
    \<and> resTxt r' = resTxt r @ concat (map (bodyTxt \<circ> rrBody) (matching sf qtype owner answers))
    \<and> map Inr (resCaa r') = map Inr (resCaa r) @ concat (map (bodyCaa qtype \<circ> rrBody) (matching sf qtype owner answers))
    \<and> AnswerPacket r' = AnswerPacket r \<and> Secure r' = Secure r \<and> NXDomain r' = NXDomain r"
  using assms
proof (induction answers arbitrary: r)
  case Nil
  then show ?case by (simp add: matching_def)
next
  case (Cons rr rrs)
  show ?case
  proof (cases "rrType rr \<noteq> qtype \<or> \<not> nameEqual sf (rrName rr) owner")
    case True
    with Cons.prems have "fillRecords sf qtype owner rrs r = (r', None)" by simp
    moreover from True have "matching sf qtype owner (rr # rrs) = matching sf qtype owner rrs"
      by (auto simp: matching_def)
    ultimately show ?thesis using Cons.IH [of r] by simp
  next
    case False
    with Cons.prems obtain r1 where a: "addRecord qtype rr r = (r1, None)"
      and "fillRecords sf qtype owner rrs r1 = (r', None)"
      by (auto split: prod.splits option.splits)
    from Cons.IH [OF this(2)] addRecord_ok [OF a] False show ?thesis
      by (auto simp: matching_def)
  qed
qed

lemma addRecord_error:
  "addRecord qtype rr r = (r', Some e) \<Longrightarrow>
   qtype = TypeCAA \<and> (\<exists>d. rrBody rr = UnknownResource d \<and> parseCAA d = Inl e)"
  by (auto simp: addRecord_def Let_def split: resourceBody.splits if_splits sum.splits)

lemma fillRecords_error:
  assumes "fillRecords sf qtype owner answers r = (r', Some e)"
  shows "\<exists>rr \<in> set (matching sf qtype owner answers). qtype = TypeCAA
     \<and> (\<exists>d. rrBody rr = UnknownResource d \<and> parseCAA d = Inl e)"
  using assms
proof (induction answers arbitrary: r)
  case (Cons rr rrs)
  show ?case
  proof (cases "rrType rr \<noteq> qtype \<or> \<not> nameEqual sf (rrName rr) owner")
    case True
    with Cons show ?thesis by (auto simp: matching_def)
  next
    case False
    then have m: "matching sf qtype owner (rr # rrs) = rr # matching sf qtype owner rrs"
      by (simp add: matching_def)
    obtain r1 x where a: "addRecord qtype rr r = (r1, x)" by fastforce
    show ?thesis
    proof (cases x)
      case None
      with a False Cons.prems have "fillRecords sf qtype owner rrs r1 = (r', Some e)" by simp
      from Cons.IH [OF this] show ?thesis unfolding m by auto
    next
      case (Some y)
      with a False Cons.prems have "addRecord qtype rr r = (r', Some e)" by simp
      from addRecord_error [OF this] show ?thesis unfolding m by auto
    qed
  qed
qed simp

text \<open>Documented behaviour of the message parser: typed bodies, and progress through a section.\<close>

definition typedParser :: "'p dnsmessage \<Rightarrow> bool" where
  "typedParser D \<longleftrightarrow> (\<forall>p answers p'. dnsAllAnswers D p = Inr (answers, p') \<longrightarrow> typedAnswers answers)"

definition parserProgress :: "'p dnsmessage \<Rightarrow> ('p \<Rightarrow> nat) \<Rightarrow> bool" where
  "parserProgress D left \<longleftrightarrow>
     (\<forall>p t p'. dnsAdditionalHeader D p = Inr (t, p') \<longrightarrow> left p' = left p)
     \<and> (\<forall>p p'. dnsSkipAdditional D p = Inr p' \<longrightarrow> left p' < left p)
     \<and> (\<forall>p opts p'. dnsOPTResource D p = Inr (opts, p') \<longrightarrow> left p' < left p)"

lemma edeLoop_total: "parserProgress D left \<Longrightarrow> \<exists>y. edeLoop D p edes = Some y"
proof (induction "left p" arbitrary: p edes rule: less_induct)
  case less
  have h: "left p' = left p" if "dnsAdditionalHeader D p = Inr (t, p')" for t p'
    using less.prems that by (simp add: parserProgress_def)
  have s: "\<exists>y. edeLoop D p2 e = Some y" if "dnsSkipAdditional D p1 = Inr p2" "left p1 = left p" for p1 p2 e
    by (rule less.hyps [OF _ less.prems]) (metis that less.prems parserProgress_def)
  have o: "\<exists>y. edeLoop D p2 e = Some y" if "dnsOPTResource D p1 = Inr (opts, p2)" "left p1 = left p"
    for p1 p2 e opts
    by (rule less.hyps [OF _ less.prems]) (metis that less.prems parserProgress_def)
  show ?case
    by (subst edeLoop.simps) (auto split: sum.split dest: h s o)
qed

section \<open>A sample answer\<close>

text \<open>A parser whose state is the list of additional records left, and an answer with one alias.\<close>

definition sampleParser ::
    "resource list \<Rightarrow> (u16 \<times> dnsOption list) list \<Rightarrow> (u16 \<times> dnsOption list) list dnsmessage" where
  "sampleParser answers adds = \<lparr>
     dnsStart = \<lambda>_. Inr (False, adds),
     dnsSkipAllQuestions = Inr,
     dnsAllAnswers = \<lambda>p. Inr (answers, p),
     dnsSkipAllAnswers = Inr,
     dnsSkipAllAuthorities = Inr,
     dnsAdditionalHeader = \<lambda>p. (case p of [] \<Rightarrow> Inl (ErrNew ''section done'') | (t, _) # _ \<Rightarrow> Inr (t, p)),
     dnsSkipAdditional = \<lambda>p. (case p of [] \<Rightarrow> Inl (ErrNew ''section done'') | _ # p \<Rightarrow> Inr p),
     dnsOPTResource = \<lambda>p. (case p of [] \<Rightarrow> Inl (ErrNew ''section done'') | (_, opts) # p \<Rightarrow> Inr (opts, p))\<rparr>"

definition sampleAnswers :: "resource list" where
  "sampleAnswers = [\<lparr>rrName = ''a.'', rrType = TypeCNAME, rrBody = CNAMEResource ''b.''\<rparr>,
     \<lparr>rrName = ''B.'', rrType = TypeA, rrBody = AResource [192, 0, 2, 1]\<rparr>]"

definition sampleResult :: Result where
  "sampleResult = \<lparr>Secure = True, HaveData = False, NXDomain = False, AnswerPacket = [0],
     resAddrs = [], resTxt = [], resCaa = []\<rparr>"

lemma sample_typed: "typedParser (sampleParser sampleAnswers adds)" "typedAnswers sampleAnswers"
  by (simp_all add: typedParser_def sampleParser_def sampleAnswers_def typedAnswers_def)

lemma sample_walk: "cnameWalk sf sampleAnswers (length sampleAnswers) ''a.'' = Some ''b.''"
  by (simp add: sampleAnswers_def nameEqual_def bytes_of_string_def asciiFold_def of_char_def)

lemma sample_parse:
  "parseAnswer (sampleParser sampleAnswers adds) sf ''a.'' TypeA sampleResult =
     Some (sampleResult\<lparr>HaveData := True, resAddrs := [AddrFrom4 [192, 0, 2, 1]]\<rparr>, None)"
  using sample_walk
  by (simp add: parseAnswer_def sampleParser_def sampleResult_def)
     (simp add: sampleAnswers_def nameEqual_def bytes_of_string_def asciiFold_def of_char_def
        addRecord_def Let_def)

section \<open>Properties\<close>

text \<open>C31: the walk along a CNAME chain, bounded by the number of answers, misses nothing: it ends at a name reached by aliases that has no alias itself, unless the chain is an endless loop.\<close>

theorem cname_walk_complete:
  assumes "typedAnswers answers"
  shows "\<exists>owner k. cnameWalk sf answers (length answers) qname = Some owner
     \<and> aliasChain sf answers k qname = Some owner
     \<and> (cnameTarget sf answers owner = Some None \<or> (\<forall>n. aliasChain sf answers n qname \<noteq> None))"
proof -
  let ?n = "length answers"
  from cnameWalk_chain [OF assms] obtain owner k where w: "cnameWalk sf answers ?n qname = Some owner"
    "k \<le> ?n" "aliasChain sf answers k qname = Some owner" "k < ?n \<longrightarrow> cnameTarget sf answers owner = Some None"
    by blast
  have "aliasChain sf answers n qname \<noteq> None" if "cnameTarget sf answers owner \<noteq> Some None" for n
  proof (rule aliasChain_long)
    from that w have k: "k = ?n" by auto
    from that cnameTarget_typed [OF assms, of sf owner] obtain t where
      "cnameTarget sf answers owner = Some (Some t)" by auto
    then show "aliasChain sf answers (Suc ?n) qname \<noteq> None"
      using aliasChain_add [of sf answers ?n 1 qname] w(3) k by simp
  qed
  with w show ?thesis by blast
qed

theorem cname_walk_complete_witness:
  "\<exists>owner. cnameWalk Suc sampleAnswers (length sampleAnswers) ''a.'' = Some owner
     \<and> cnameTarget Suc sampleAnswers owner = Some None"
proof -
  have "aliasChain Suc sampleAnswers (Suc (Suc 0)) ''a.'' = None"
    by (simp add: sampleAnswers_def nameEqual_def bytes_of_string_def asciiFold_def of_char_def)
  with cname_walk_complete [OF sample_typed(2), of Suc "''a.''"] show ?thesis by metis
qed

text \<open>C30: a successful parse means that the packet was well formed and not truncated, and that the result holds exactly the records of the queried type at the end of the alias chain, in order: the addresses, the texts and every CAA record, none of them malformed.\<close>

theorem parseAnswer_records:
  assumes "typedParser D" and "AnswerPacket r \<noteq> []"
    and "parseAnswer D sf qname qtype r = Some (r', None)"
  shows "\<exists>p p1 p2 answers owner. dnsStart D (AnswerPacket r) = Inr (False, p)
     \<and> dnsSkipAllQuestions D p = Inr p1 \<and> dnsAllAnswers D p1 = Inr (answers, p2)
     \<and> (if qtype = TypeCNAME then owner = qname
        else cnameWalk sf answers (length answers) qname = Some owner)
     \<and> (HaveData r' \<longleftrightarrow> HaveData r \<or> matching sf qtype owner answers \<noteq> [])
     \<and> resAddrs r' = resAddrs r @ concat (map (bodyAddr \<circ> rrBody) (matching sf qtype owner answers))
     \<and> resTxt r' = resTxt r @ concat (map (bodyTxt \<circ> rrBody) (matching sf qtype owner answers))
     \<and> map Inr (resCaa r') = map Inr (resCaa r)
           @ concat (map (bodyCaa qtype \<circ> rrBody) (matching sf qtype owner answers))"
proof -
  from assms(2,3) obtain t p where 1: "dnsStart D (AnswerPacket r) = Inr (t, p)"
    by (cases "dnsStart D (AnswerPacket r)") (auto simp: parseAnswer_def)
  with assms(2,3) have t: "\<not> t" by (auto simp: parseAnswer_def split: if_splits)
  with 1 assms(2,3) obtain p1 where 2: "dnsSkipAllQuestions D p = Inr p1"
    by (cases "dnsSkipAllQuestions D p") (auto simp: parseAnswer_def)
  with 1 t assms(2,3) obtain answers p2 where 3: "dnsAllAnswers D p1 = Inr (answers, p2)"
    by (cases "dnsAllAnswers D p1") (auto simp: parseAnswer_def)
  let ?w = "if qtype \<noteq> TypeCNAME then cnameWalk sf answers (length answers) qname else Some qname"
  from 1 2 3 t assms(2,3) obtain owner where 4: "?w = Some owner"
    and 5: "fillRecords sf qtype owner answers r = (r', None)"
    by (cases ?w) (simp_all add: parseAnswer_def)
  have 6: "if qtype = TypeCNAME then owner = qname
        else cnameWalk sf answers (length answers) qname = Some owner"
    using 4 by (simp split: if_splits)
  from 1 t have 1: "dnsStart D (AnswerPacket r) = Inr (False, p)" by simp
  show ?thesis using 1 2 3 6 fillRecords_ok [OF 5] by blast
qed

theorem parseAnswer_records_witness:
  "\<exists>r'. parseAnswer (sampleParser sampleAnswers []) Suc ''a.'' TypeA sampleResult = Some (r', None)
     \<and> HaveData r'"
proof -
  let ?D = "sampleParser sampleAnswers []"
  have n: "AnswerPacket sampleResult \<noteq> []" by (simp add: sampleResult_def)
  from parseAnswer_records [OF sample_typed(1) n sample_parse [of "[]" Suc]]
  show ?thesis using sample_parse [of "[]" Suc] by auto
qed

lemma parseAnswer_total:
  assumes "typedParser D"
  shows "\<exists>r' err. parseAnswer D sf qname qtype r = Some (r', err)"
proof -
  have w: False if "dnsAllAnswers D p = Inr (answers, p')" and "cnameWalk sf answers (length answers) qname = None"
    for p p' answers
    using that assms cnameWalk_chain [of answers sf "length answers" qname] by (auto simp: typedParser_def)
  show ?thesis
    by (cases "parseAnswer D sf qname qtype r")
       (auto simp: parseAnswer_def split: sum.splits option.splits if_splits, metis w)
qed



text \<open>The loop of parseEDE over the additional section ends for every packet, given that reading or skipping a record moves the message parser forward.\<close>

theorem parseEDE_terminates:
  assumes "parserProgress D left"
  shows "\<exists>edes. parseEDE D packet = Some edes"
  using edeLoop_total [OF assms] by (auto simp: parseEDE_def split: sum.splits)

theorem parseEDE_terminates_witness:
  "\<exists>edes. parseEDE (sampleParser [] [(TypeOPT, [\<lparr>optCode = 15, optData = [0, 22]\<rparr>])]) [] = Some edes"
  by (rule parseEDE_terminates [of _ length])
     (auto simp: parserProgress_def sampleParser_def split: list.splits)

text \<open>The wire format of RFC 8659.\<close>

definition encodeCAA :: "u8 \<Rightarrow> bytes \<Rightarrow> bytes \<Rightarrow> bytes" where
  "encodeCAA flags tag val = [flags, of_nat (length tag)] @ tag @ val"

text \<open>The CAA parser inverts the wire format of RFC 8659 for every flags byte, every tag of 1 to 255 bytes and every value.\<close>

theorem parseCAA_roundtrip:
  assumes "tag \<noteq> []" and "length tag < 256"
  shows "parseCAA (encodeCAA flags tag val) =
    Inr \<lparr>caaFlags = flags, caaTag = string_of_bytes tag, caaValue = string_of_bytes val\<rparr>"
proof -
  have u: "unat (of_nat (length tag) :: u8) = length tag" using assms(2) by (simp add: unat_of_nat)
  with assms(1) have "(of_nat (length tag) :: u8) \<noteq> 0" by (metis length_0_conv unsigned_0)
  with u show ?thesis by (simp add: parseCAA_def encodeCAA_def Let_def)
qed

theorem parseCAA_roundtrip_witness:
  "parseCAA (encodeCAA 128 (bytes_of_string ''issue'') (bytes_of_string ''ca'')) =
     Inr \<lparr>caaFlags = 128, caaTag = ''issue'', caaValue = ''ca''\<rparr>"
  using parseCAA_roundtrip [of "bytes_of_string ''issue''" 128 "bytes_of_string ''ca''"]
  by simp

text \<open>On ASCII names, nameEqual is equality up to the case of ASCII letters, as RFC 4343 asks.\<close>

theorem nameEqual_ascii:
  assumes "list_all (\<lambda>c. of_char c < (128 :: nat)) a" and "list_all (\<lambda>c. of_char c < (128 :: nat)) b"
  shows "nameEqual sf a b \<longleftrightarrow> map lowerByte (bytes_of_string a) = map lowerByte (bytes_of_string b)"
  unfolding nameEqual_def
  by (rule EqualFold_ascii)
     (use assms in \<open>simp_all add: bytes_of_string_def list_all_iff unat_of_char_byte\<close>)

theorem nameEqual_ascii_witness: "nameEqual Suc ''wWw'' ''WwW''"
  using nameEqual_ascii [of "''wWw''" "''WwW''" Suc]
  by (simp add: bytes_of_string_def lowerByte_def of_char_def)

text \<open>Outside ASCII nameEqual is coarser than RFC 4343: two names that differ in a byte compare equal when both bytes are invalid UTF-8.\<close>

theorem nameEqual_invalid_bytes:
  "nameEqual sf [CHR 0x80] [CHR 0xFF] \<and> map lowerByte (bytes_of_string [CHR 0x80]) \<noteq> map lowerByte (bytes_of_string [CHR 0xFF])"
  by (simp add: nameEqual_def bytes_of_string_def foldRunes.simps [of sf "[0x80]" "[0xff]"]
      foldRunes.simps [of sf "[]" "[]"] decodeRune_def runeFold_def lowerByte_def)

end
