(* ===== verification/Instance.thy ===== *)
theory Instance
  imports HostABI Answer
begin

text \<open>
  An \<open>Instance\<close> of \<open>runtime.go\<close> and its calls into the guest: the guest lock, the calls of the
  guest's exports, allocation in guest memory, polling for a result, dispatching an event, closing.

  The record \<open>inst\<close> holds the instance with what it points to: the host state, the guest's
  linear memory, the flags \<open>closed\<close> (of the instance) and \<open>modDead\<close> (of its state), whether the
  state is registered in the runtime, and the trace of the calls into the guest, each with the value of
  \<open>modDead\<close> at its time.

  What is not this package's code is the parameter \<open>ienv\<close>. The guest answers a call of an export
  with any sequence of import calls, any change to its memory in between and any result; between
  two critical sections the other goroutines change the host state, and a concurrent \<open>Close\<close> may
  set the flags. Each of these answers may depend on how many there were before (\<open>iTick\<close>), so that
  quantifying over \<open>ienv\<close> covers every guest and every schedule. The parser of \<open>dnsmessage\<close>
  and the case folding table are those of \<open>Answer\<close>.
\<close>

section \<open>Data\<close>

datatype export =
    unbound_wasm_abi_version | alloc | dealloc | init | warmup | reseed | resolve_start | io_ready
  | timer_fired | result_get | resolve_cancel

text \<open>What the guest does when one of its exports is called; \<open>f.Call\<close> returns an error for a trap.\<close>

record ('m, 'pub) guestAct =
  gaCalls :: "('pub abienv \<times> ('m \<Rightarrow> 'm) \<times> guestCall) list"
  gaAfter :: "'m \<Rightarrow> 'm"
  gaOut :: "goerr + u64"

record ('m, 'pub, 'p) ienv =
  ieMem :: "'m memops"
  ieGuest :: "nat \<Rightarrow> export \<Rightarrow> u64 list \<Rightarrow> 'm \<Rightarrow> ('m, 'pub) guestAct"
  ieOthers :: "nat \<Rightarrow> istate \<Rightarrow> istate"
  ieClosed :: "nat \<Rightarrow> bool"
  ieDead :: "nat \<Rightarrow> bool"
  ieDns :: "'p dnsmessage"
  ieFold :: "nat \<Rightarrow> nat"

record 'm inst =
  iState :: istate
  iMem :: 'm
  iClosed :: bool
  iDead :: bool
  iRegistered :: bool
  iTrace :: "(export \<times> u64 list \<times> bool) list"
  iTick :: nat

section \<open>The guest lock and calls\<close>

definition yield :: "('m, 'pub, 'p) ienv \<Rightarrow> 'm inst \<Rightarrow> 'm inst" where
  "yield E i = i\<lparr>iState := ieOthers E (iTick i) (iState i), iClosed := (iClosed i \<or> ieClosed E (iTick i)),
     iDead := (iDead i \<or> ieDead E (iTick i)), iTick := Suc (iTick i)\<rparr>"

definition guest :: "('m, 'pub, 'p) ienv \<Rightarrow> ('m inst \<Rightarrow> 'm inst \<times> (goerr + 'a)) \<Rightarrow> 'm inst \<Rightarrow>
    'm inst \<times> (goerr + 'a)" where
  "guest E fn i = (let i = yield E i in if iDead i then (i, Inl ErrClosed) else fn i)"

text \<open>\<open>f.Call\<close>, under the guest lock.\<close>

definition fCall :: "('m, 'pub, 'p) ienv \<Rightarrow> export \<Rightarrow> u64 list \<Rightarrow> 'm inst \<Rightarrow> 'm inst \<times> (goerr + u64)" where
  "fCall E f params i =
     (let a = ieGuest E (iTick i) f params (iMem i);
          (s, m) = guestRun (ieMem E) (gaCalls a) (iMem i) (iState i)
      in (i\<lparr>iState := s, iMem := gaAfter a m, iTrace := iTrace i @ [(f, params, iDead i)], iTick := Suc (iTick i)\<rparr>,
          gaOut a))"

definition call :: "('m, 'pub, 'p) ienv \<Rightarrow> export \<Rightarrow> u64 list \<Rightarrow> 'm inst \<Rightarrow> 'm inst \<times> (goerr + u64)" where
  "call E f params i = guest E (fCall E f params) i"

section \<open>Closing\<close>

definition instClose :: "'m inst \<Rightarrow> 'm inst" where
  "instClose i =
     (if iClosed i then i
      else i\<lparr>iClosed := True, iState := stateClose (iState i), iRegistered := False, iDead := True\<rparr>)"

definition kill :: "goerr \<Rightarrow> 'm inst \<Rightarrow> 'm inst \<times> goerr" where
  "kill err i = (instClose i, err)"

definition stateErr :: "'m inst \<Rightarrow> 'm inst \<times> goerr" where
  "stateErr i = (case stErr (iState i) of Some err \<Rightarrow> kill err i | None \<Rightarrow> (i, ErrClosed))"

section \<open>Guest memory\<close>

definition allocWrite :: "('m, 'pub, 'p) ienv \<Rightarrow> bytes \<Rightarrow> 'm inst \<Rightarrow> 'm inst \<times> (goerr + u32)" where
  "allocWrite E b i = guest E (\<lambda>i.
     let n = (if length b = 0 then 1 else length b) in
     case fCall E alloc [of_nat n] i of
       (i, Inl err) \<Rightarrow> (i, Inl (ErrWrapf ''unbound: alloc: '' err))
     | (i, Inr out) \<Rightarrow>
         (let p = ucast out :: u32 in
          if p = 0 then (i, Inl (ErrNew ''unbound: guest allocation failed''))
          else if length b > 0 then
            (case memWrite (ieMem E) (iMem i) p b of
               None \<Rightarrow> (i, Inl (ErrNew ''unbound: guest allocation outside memory''))
             | Some m \<Rightarrow> (i\<lparr>iMem := m\<rparr>, Inr p))
          else (i, Inr p))) i"

definition free :: "('m, 'pub, 'p) ienv \<Rightarrow> u32 \<Rightarrow> u32 \<Rightarrow> 'm inst \<Rightarrow> 'm inst" where
  "free E p n i = (if p \<noteq> 0 then fst (call E dealloc [ucast p, ucast n] i) else i)"

definition cancel :: "('m, 'pub, 'p) ienv \<Rightarrow> i32 \<Rightarrow> 'm inst \<Rightarrow> 'm inst" where
  "cancel E rid i =
     (let i = yield E i in if iClosed i then i else fst (call E resolve_cancel [ucast rid] i))"

section \<open>Initialization\<close>

abbreviation (input) abiVersion :: u32 where "abiVersion \<equiv> 0"

definition checkABIVersion :: "('m, 'pub, 'p) ienv \<Rightarrow> 'm inst \<Rightarrow> 'm inst \<times> goerr option" where
  "checkABIVersion E i =
     (case call E unbound_wasm_abi_version [] i of
        (i, Inl err) \<Rightarrow> (i, Some (ErrWrapf ''unbound: read ABI version: '' err))
      | (i, Inr out) \<Rightarrow>
          (let v = ucast out :: u32 in
           if v \<noteq> abiVersion then
             (i, Some (ErrNew (''unbound: wasm ABI version mismatch: host v'' @ itoa (uint abiVersion)
                @ '', guest v'' @ itoa (uint v))))
           else (i, None)))"

text \<open>The deferred calls of \<open>initialize\<close> run last in, first out.\<close>

fun allocAll :: "('m, 'pub, 'p) ienv \<Rightarrow> bytes list \<Rightarrow> u32 list \<Rightarrow> 'm inst \<Rightarrow>
    'm inst \<times> u32 list \<times> goerr option" where
  "allocAll E [] ptrs i = (i, ptrs, None)"
| "allocAll E (v # vals) ptrs i =
     (case allocWrite E v i of (i, Inl err) \<Rightarrow> (i, ptrs, Some err)
      | (i, Inr p) \<Rightarrow> allocAll E vals (ptrs @ [p]) i)"

definition freeAll :: "('m, 'pub, 'p) ienv \<Rightarrow> bytes list \<Rightarrow> u32 list \<Rightarrow> 'm inst \<Rightarrow> 'm inst" where
  "freeAll E vals ptrs i = fold (\<lambda>(p, v). free E p (of_nat (length v))) (rev (zip ptrs vals)) i"

definition initialize :: "('m, 'pub, 'p) ienv \<Rightarrow> bytes \<Rightarrow> bytes \<Rightarrow> bytes \<Rightarrow> 'm inst \<Rightarrow> 'm inst \<times> goerr option" where
  "initialize E cfg anchors hints i =
     (let vals = [cfg, anchors, hints] in
      case allocAll E vals [] i of
        (i, ptrs, Some err) \<Rightarrow> (freeAll E vals ptrs i, Some err)
      | (i, ptrs, None) \<Rightarrow>
          (case call E init [ucast (ptrs ! 0), of_nat (length cfg), ucast (ptrs ! 1), of_nat (length anchors),
               ucast (ptrs ! 2), of_nat (length hints)] i of
             (i, Inl err) \<Rightarrow> (freeAll E vals ptrs i, Some (ErrWrapf ''unbound: guest init: '' err))
           | (i, Inr out) \<Rightarrow>
               (let rc = ucast out :: i32 in
                (freeAll E vals ptrs i,
                 if rc \<noteq> 0 then Some (ErrErrno ''unbound: guest init failed: wasi errno '' (- rc)) else None))))"

section \<open>Events and results\<close>

definition dispatch :: "('m, 'pub, 'p) ienv \<Rightarrow> hostEvent \<Rightarrow> 'm inst \<Rightarrow> 'm inst \<times> goerr option" where
  "dispatch E ev i =
     (case (case kind ev of
          eventIO \<Rightarrow> call E io_ready [ucast (sid ev), ucast (flags ev)] i
        | eventTimer \<Rightarrow> call E timer_fired [tid ev] i) of
        (i, Inl err) \<Rightarrow> (case kill (ErrWrapf ''unbound: dispatch event: '' err) i of (i, err) \<Rightarrow> (i, Some err))
      | (i, Inr _) \<Rightarrow> (i, None))"

abbreviation (input) resultSize :: u32 where "resultSize \<equiv> 32"

definition resultWord :: "bytes \<Rightarrow> nat \<Rightarrow> u32" where
  "resultWord b off = le32 (take 4 (drop off b))"

definition readResult :: "'m memops \<Rightarrow> 'm \<Rightarrow> u32 \<Rightarrow> u32 \<Rightarrow> goerr + bytes" where
  "readResult M m ptr n =
     (if n = 0 then Inr []
      else if n > 65535 then Inl (ErrNew ''unbound: result buffer exceeds ABI limit'')
      else case memRead M m ptr n of None \<Rightarrow> Inl (ErrNew ''unbound: result buffer outside guest memory'')
      | Some v \<Rightarrow> Inr v)"

text \<open>What the guest block of \<open>pollResult\<close> copies out of guest memory.\<close>

record polled =
  pollRc :: i32
  secStatus :: u32
  cbRcode :: u32
  why :: bytes
  packet :: bytes

definition notReady :: "i32 \<Rightarrow> polled" where
  "notReady rc = \<lparr>pollRc = rc, secStatus = 0, cbRcode = 0, why = [], packet = []\<rparr>"

definition readPolled :: "'m memops \<Rightarrow> 'm \<Rightarrow> i32 \<Rightarrow> u32 \<Rightarrow> goerr + polled" where
  "readPolled M m rc p =
     (case memRead M m p resultSize of None \<Rightarrow> Inl (ErrNew ''unbound: result structure outside guest memory'')
      | Some b \<Rightarrow>
          (case readResult M m (resultWord b 8) (resultWord b 12) of Inl err \<Rightarrow> Inl err
           | Inr y \<Rightarrow>
               (case readResult M m (resultWord b 16) (resultWord b 20) of Inl err \<Rightarrow> Inl err
                | Inr pk \<Rightarrow> Inr \<lparr>pollRc = rc, secStatus = resultWord b 0, cbRcode = resultWord b 4,
                    why = y, packet = pk\<rparr>)))"

definition pollGuest :: "('m, 'pub, 'p) ienv \<Rightarrow> i32 \<Rightarrow> u32 \<Rightarrow> 'm inst \<Rightarrow> 'm inst \<times> (goerr + polled)" where
  "pollGuest E rid p i = guest E (\<lambda>i.
     case fCall E result_get [ucast rid, ucast p] i of
       (i, Inl err) \<Rightarrow> (i, Inl (ErrWrapf ''unbound: result_get: '' err))
     | (i, Inr out) \<Rightarrow>
         (let rc = ucast out :: i32 in
          if sint rc \<le> 0 then (i, Inr (notReady rc)) else (i, readPolled (ieMem E) (iMem i) rc p))) i"

definition rcodeOf :: "polled \<Rightarrow> int" where
  "rcodeOf q = (let rcode = uint (cbRcode q) in
     if rcode = 0 \<and> length (packet q) \<ge> 4 then uint (packet q ! 3 AND 0xf) else rcode)"

text \<open>
  The outcome of a poll: not ready, an error of this query, a result, or an error that killed the
  instance. \<open>settle\<close> is the part after the guest block; it is \<^const>\<open>None\<close> where the parser of the
  answer panics or does not end.
\<close>

datatype pollOut = NotReady | Failed goerr | Ready Result | Fatal goerr

definition settle :: "'p dnsmessage \<Rightarrow> (nat \<Rightarrow> nat) \<Rightarrow> string \<Rightarrow> u16 \<Rightarrow> polled \<Rightarrow> pollOut option" where
  "settle D sf qname qtype q =
     (if pollRc q = 0 then Some NotReady
      else if sint (pollRc q) < 0 then
        Some (Failed (ErrErrno ''unbound: result_get failed: wasi errno '' (- pollRc q)))
      else if secStatus q = 2 then
        map_option (\<lambda>edes. Failed (BogusError (string_of_bytes (why q)) edes)) (parseEDE D (packet q))
      else let rcode = rcodeOf q in
        if rcode \<noteq> 0 \<and> rcode \<noteq> 3 then
          map_option (\<lambda>edes. Failed (ResponseError rcode edes)) (parseEDE D (packet q))
        else let res = \<lparr>Secure = (secStatus q = 1), HaveData = False, NXDomain = (rcode = 3),
                 AnswerPacket = packet q, resAddrs = [], resTxt = [], resCaa = []\<rparr> in
          if rcode = 0 then
            (case parseAnswer D sf qname qtype res of None \<Rightarrow> None
             | Some (res, None) \<Rightarrow> Some (Ready res)
             | Some (res, Some err) \<Rightarrow> Some (Failed err))
          else Some (Ready res))"

definition pollResult :: "('m, 'pub, 'p) ienv \<Rightarrow> i32 \<Rightarrow> u32 \<Rightarrow> string \<Rightarrow> u16 \<Rightarrow> 'm inst \<Rightarrow>
    ('m inst \<times> pollOut) option" where
  "pollResult E rid p qname qtype i =
     (case pollGuest E rid p i of
        (i, Inl gerr) \<Rightarrow> (case kill gerr i of (i, err) \<Rightarrow> Some (i, Fatal err))
      | (i, Inr q) \<Rightarrow> map_option (Pair i) (settle (ieDns E) (ieFold E) qname qtype q))"

end
