(* ===== verification/Resolve.thy ===== *)
theory Resolve
  imports Instance
begin

text \<open>
  \<open>ResolveAll\<close> and \<open>Resolve\<close> of \<open>runtime.go\<close>: starting the queries, the loop that polls for
  results and waits for events, and the joined error. The arrays \<open>results\<close>, \<open>errs\<close>, \<open>names\<close>,
  \<open>rids\<close> and the counter \<open>pending\<close> are the record \<open>batch\<close>.

  The \<open>select\<close> of the loop takes its choices from a list of wake-ups: each is a case the scheduler
  tries after the other goroutines ran, and a case that is not ready leaves the loop waiting. The loop
  is recursive on that list, so a batch that is still waiting when the list ends is the value
  \<open>Blocked\<close>, and a statement that a batch returns is about a list that suffices.
\<close>

section \<open>Names and errors\<close>

definition normalizeName :: "string \<Rightarrow> goerr + string" where
  "normalizeName name =
     (if name = [] then Inl (ErrNew ''unbound: empty name'')
      else if CHR 0x00 \<in> set name then Inl (ErrNew ''unbound: name contains NUL'')
      else let name = (if last name \<noteq> CHR ''.'' then name @ ''.'' else name) in
        if length name > 1024 then Inl (ErrNew ''unbound: name too long'') else Inr name)"

text \<open>The loop over \<open>errs\<close>; both slices have the same length.\<close>

fun queryErrors :: "Query list \<Rightarrow> goerr option list \<Rightarrow> goerr list" where
  "queryErrors (q # qs) (Some err # errs) = QueryError q err # queryErrors qs errs"
| "queryErrors (q # qs) (None # errs) = queryErrors qs errs"
| "queryErrors _ _ = []"

text \<open>\<open>errors.Join\<close> of non-nil errors is nil exactly when there is none.\<close>

definition joinQueryErrors :: "Query list \<Rightarrow> goerr option list \<Rightarrow> goerr option" where
  "joinQueryErrors queries errs =
     (case queryErrors queries errs of [] \<Rightarrow> None | joined \<Rightarrow> Some (ErrJoin joined))"

section \<open>A batch\<close>

record batch =
  results :: "Result option list"
  errs :: "goerr option list"
  names :: "string list"
  rids :: "i32 list"
  pending :: nat

definition newBatch :: "nat \<Rightarrow> batch" where
  "newBatch n = \<lparr>results = replicate n None, errs = replicate n None, names = replicate n [],
     rids = replicate n 0, pending = 0\<rparr>"

definition unsettled :: "batch \<Rightarrow> nat \<Rightarrow> bool" where
  "unsettled b n \<longleftrightarrow> results b ! n = None \<and> errs b ! n = None"

definition failUnsettled :: "goerr \<Rightarrow> batch \<Rightarrow> batch" where
  "failUnsettled err b =
     b\<lparr>errs := map (\<lambda>n. if unsettled b n then Some err else errs b ! n) [0..<length (errs b)]\<rparr>"

text \<open>Starting a query; an error returned ends the batch with it.\<close>

definition startQuery :: "('m, 'pub, 'p) ienv \<Rightarrow> Query \<Rightarrow> nat \<Rightarrow> batch \<Rightarrow> 'm inst \<Rightarrow>
    'm inst \<times> batch \<times> goerr option" where
  "startQuery E q n b i =
     (case normalizeName (QName q) of
        Inl err \<Rightarrow> (i, b\<lparr>errs := (errs b)[n := Some err]\<rparr>, None)
      | Inr name \<Rightarrow>
          (let b = b\<lparr>names := (names b)[n := name]\<rparr> in
           case allocWrite E (bytes_of_string name) i of
             (i, Inl err) \<Rightarrow> (i, b, Some err)
           | (i, Inr p) \<Rightarrow>
               (case call E resolve_start [ucast p, of_nat (length name), ucast (QType q), 1] i of
                  (i, out) \<Rightarrow>
                    (let i = free E p (of_nat (length name)) i in
                     case out of
                       Inl err \<Rightarrow>
                         (case kill (ErrWrapf ''unbound: resolve_start: '' err) i of (i, err) \<Rightarrow> (i, b, Some err))
                     | Inr out \<Rightarrow>
                         (let rid = ucast out :: i32 in
                          if sint rid < 0 then
                            (i, b\<lparr>errs := (errs b)[n :=
                              Some (ErrErrno ''unbound: resolve_start failed: wasi errno '' (- rid))]\<rparr>, None)
                          else (i, b\<lparr>rids := (rids b)[n := rid], pending := pending b + 1\<rparr>, None))))))"

fun startQueries :: "('m, 'pub, 'p) ienv \<Rightarrow> Query list \<Rightarrow> nat \<Rightarrow> batch \<Rightarrow> 'm inst \<Rightarrow>
    'm inst \<times> batch \<times> goerr option" where
  "startQueries E [] n b i = (i, b, None)"
| "startQueries E (q # qs) n b i =
     (case startQuery E q n b i of
        (i, b, Some err) \<Rightarrow> (i, b, Some err)
      | (i, b, None) \<Rightarrow> startQueries E qs (Suc n) b i)"

text \<open>One round of polls; \<^const>\<open>None\<close> where parsing an answer does not return.\<close>

definition pollQuery :: "('m, 'pub, 'p) ienv \<Rightarrow> u32 \<Rightarrow> Query \<Rightarrow> nat \<Rightarrow> batch \<Rightarrow> 'm inst \<Rightarrow>
    ('m inst \<times> batch \<times> goerr option) option" where
  "pollQuery E p q n b i =
     (if rids b ! n = 0 \<or> results b ! n \<noteq> None \<or> errs b ! n \<noteq> None then Some (i, b, None)
      else case pollResult E (rids b ! n) p (names b ! n) (QType q) i of
        None \<Rightarrow> None
      | Some (i, Fatal err) \<Rightarrow> Some (i, b, Some err)
      | Some (i, Failed err) \<Rightarrow> Some (i, b\<lparr>errs := (errs b)[n := Some err], pending := pending b - 1\<rparr>, None)
      | Some (i, Ready res) \<Rightarrow> Some (i, b\<lparr>results := (results b)[n := Some res], pending := pending b - 1\<rparr>, None)
      | Some (i, NotReady) \<Rightarrow> Some (i, b, None))"

fun pollQueries :: "('m, 'pub, 'p) ienv \<Rightarrow> u32 \<Rightarrow> Query list \<Rightarrow> nat \<Rightarrow> batch \<Rightarrow> 'm inst \<Rightarrow>
    ('m inst \<times> batch \<times> goerr option) option" where
  "pollQueries E p [] n b i = Some (i, b, None)"
| "pollQueries E p (q # qs) n b i =
     (case pollQuery E p q n b i of
        None \<Rightarrow> None
      | Some (i, b, Some err) \<Rightarrow> Some (i, b, Some err)
      | Some (i, b, None) \<Rightarrow> pollQueries E p qs (Suc n) b i)"

section \<open>Waiting\<close>

text \<open>
  A wake-up: the context ends with its error, the state is done, an event is received, or the
  channel of events is found closed (no code of the package closes it).
\<close>

datatype wake = CtxDone goerr | StateDone | Event | EventsClosed

datatype woken = WokeCtx goerr | WokeDone | WokeEvent hostEvent | WokeClosed

fun select :: "('m, 'pub, 'p) ienv \<Rightarrow> wake list \<Rightarrow> 'm inst \<Rightarrow> (wake list \<times> 'm inst \<times> woken) option" where
  "select E [] i = None"
| "select E (w # ws) i =
     (let i = yield E i in
      case w of
        CtxDone err \<Rightarrow> Some (ws, i, WokeCtx err)
      | StateDone \<Rightarrow> if isDone (iState i) then Some (ws, i, WokeDone) else select E ws i
      | Event \<Rightarrow> (case events (iState i) of [] \<Rightarrow> select E ws i
          | ev # es \<Rightarrow> Some (ws, i\<lparr>iState := (iState i)\<lparr>events := es\<rparr>\<rparr>, WokeEvent ev))
      | EventsClosed \<Rightarrow> Some (ws, i, WokeClosed))"

lemma select_shorter: "select E ws i = Some (ws', i', w) \<Longrightarrow> length ws' < length ws"
  by (induction E ws i rule: select.induct)
     (auto simp: Let_def less_Suc_eq split: wake.splits if_splits list.splits)

text \<open>The cases of the \<open>select\<close>; an error returned ends the batch with it.\<close>

fun onWake :: "('m, 'pub, 'p) ienv \<Rightarrow> woken \<Rightarrow> 'm inst \<Rightarrow> 'm inst \<times> goerr option" where
  "onWake E (WokeCtx err) i = (instClose i, Some err)"
| "onWake E WokeDone i = (case stateErr i of (i, err) \<Rightarrow> (i, Some err))"
| "onWake E (WokeEvent ev) i = dispatch E ev i"
| "onWake E WokeClosed i = (i, Some ErrClosed)"

text \<open>What a batch ends with: still waiting, a parser that did not return, or the values returned.\<close>

datatype 'a run = Blocked | Stuck | Returned 'a

function awaitResults :: "('m, 'pub, 'p) ienv \<Rightarrow> u32 \<Rightarrow> Query list \<Rightarrow> wake list \<Rightarrow> batch \<Rightarrow> 'm inst \<Rightarrow>
    ('m inst \<times> batch) run" where
  "awaitResults E p qs ws b i =
     (if pending b = 0 then Returned (i, b)
      else case pollQueries E p qs 0 b i of
        None \<Rightarrow> Stuck
      | Some (i, b, Some err) \<Rightarrow> Returned (i, failUnsettled err b)
      | Some (i, b, None) \<Rightarrow>
          (if pending b = 0 then Returned (i, b)
           else case select E ws i of
             None \<Rightarrow> Blocked
           | Some (ws', i, w) \<Rightarrow>
               (case onWake E w i of
                  (i, Some err) \<Rightarrow> Returned (i, failUnsettled err b)
                | (i, None) \<Rightarrow> awaitResults E p qs ws' b i)))"
  by pat_completeness auto
termination awaitResults
  by (relation "measure (\<lambda>(E, p, qs, ws, b, i). length ws)") (auto dest: select_shorter)

declare awaitResults.simps [simp del]

section \<open>ResolveAll and Resolve\<close>

text \<open>The deferred function that frees the guest's result slots.\<close>

definition cancelAll :: "('m, 'pub, 'p) ienv \<Rightarrow> i32 list \<Rightarrow> 'm inst \<Rightarrow> 'm inst" where
  "cancelAll E rs i = fold (\<lambda>rid i. if sint rid > 0 then cancel E rid i else i) rs i"

definition runBatch :: "('m, 'pub, 'p) ienv \<Rightarrow> Query list \<Rightarrow> wake list \<Rightarrow> 'm inst \<Rightarrow> ('m inst \<times> batch) run" where
  "runBatch E queries ws i =
     (case startQueries E queries 0 (newBatch (length queries)) i of
        (i, b, Some err) \<Rightarrow> Returned (i, failUnsettled err b)
      | (i, b, None) \<Rightarrow>
          (if pending b = 0 then Returned (i, b)
           else case allocWrite E (replicate 32 0) i of
             (i, Inl err) \<Rightarrow> Returned (i, failUnsettled err b)
           | (i, Inr p) \<Rightarrow>
               (case awaitResults E p queries ws b i of
                  Returned (i, b) \<Rightarrow> Returned (free E p resultSize i, b)
                | r \<Rightarrow> r)))"

text \<open>A nil instance behaves like a closed one.\<close>

definition ResolveAll :: "('m, 'pub, 'p) ienv \<Rightarrow> Query list \<Rightarrow> wake list \<Rightarrow> 'm inst \<Rightarrow>
    ('m inst \<times> Result option list \<times> goerr option) run" where
  "ResolveAll E queries ws i =
     (if iClosed i then
        (if length queries = 0 then Returned (i, [], Some ErrClosed)
         else let b = failUnsettled ErrClosed (newBatch (length queries)) in
           Returned (i, results b, joinQueryErrors queries (errs b)))
      else case runBatch E queries ws i of
        Returned (i, b) \<Rightarrow> Returned (cancelAll E (rids b) i, results b, joinQueryErrors queries (errs b))
      | Blocked \<Rightarrow> Blocked | Stuck \<Rightarrow> Stuck)"

text \<open>\<open>results[0]\<close> panics on an empty slice: \<open>Stuck\<close>.\<close>

definition Resolve :: "('m, 'pub, 'p) ienv \<Rightarrow> string \<Rightarrow> u16 \<Rightarrow> wake list \<Rightarrow> 'm inst \<Rightarrow>
    ('m inst \<times> (goerr + Result option)) run" where
  "Resolve E name qtype ws i =
     (case ResolveAll E [\<lparr>QName = name, QType = qtype\<rparr>] ws i of
        Returned (i, rs, Some err) \<Rightarrow>
          Returned (i, Inl (case errors_As as_QueryError err of Some (_, e) \<Rightarrow> e | None \<Rightarrow> err))
      | Returned (i, rs, None) \<Rightarrow>
          (case rs of [] \<Rightarrow> Stuck | res # _ \<Rightarrow> Returned (i, Inr res))
      | Blocked \<Rightarrow> Blocked | Stuck \<Rightarrow> Stuck)"

end
