(* ===== verification/ResolveProps.thy ===== *)
theory ResolveProps
  imports Resolve
begin

text \<open>
  Properties of \<open>ResolveAll\<close> and \<open>Resolve\<close>: the contract of a batch, that a batch returns once its
  context ends, which answers become results, and what a batch does to its instance. The last is the
  locale \<open>inst_effect\<close>: a preorder that the elementary actions on an instance satisfy relates the
  instances before and after every operation, \<open>ResolveAll\<close> and \<open>initialize\<close> included. Its
  interpretations say that the module is not touched after it was closed and that closing is final;
  \<open>production_effect\<close> says that the host state moves by steps of the interleaving model.
\<close>

section \<open>The contract of a batch\<close>

text \<open>No query has both a result and an error; a settled batch has one of them for each.\<close>

definition batchOk :: "nat \<Rightarrow> batch \<Rightarrow> bool" where
  "batchOk k b \<longleftrightarrow> length (results b) = k \<and> length (errs b) = k \<and> length (rids b) = k
     \<and> (\<forall>n < k. results b ! n = None \<or> errs b ! n = None)"

definition open_queries :: "batch \<Rightarrow> nat set" where
  "open_queries b = {n. n < length (errs b) \<and> unsettled b n}"

definition settledBatch :: "nat \<Rightarrow> batch \<Rightarrow> bool" where
  "settledBatch k b \<longleftrightarrow> batchOk k b \<and> open_queries b = {}"

lemma finite_open [simp]: "finite (open_queries b)"
  by (simp add: open_queries_def)

lemma failUnsettled_settled: "batchOk k b \<Longrightarrow> settledBatch k (failUnsettled err b)"
  by (auto simp: settledBatch_def batchOk_def failUnsettled_def open_queries_def unsettled_def)

lemma batchOk_names [simp]: "batchOk k (b\<lparr>names := x\<rparr>) = batchOk k b"
  "open_queries (b\<lparr>names := x\<rparr>) = open_queries b"
  by (simp_all add: batchOk_def open_queries_def unsettled_def)

lemma batchOk_rid [simp]: "batchOk k (b\<lparr>rids := (rids b)[n := r], pending := j\<rparr>) = batchOk k b"
  "open_queries (b\<lparr>rids := rs, pending := j\<rparr>) = open_queries b"
  by (simp_all add: batchOk_def open_queries_def unsettled_def)

lemma batchOk_pending [simp]: "batchOk k (b\<lparr>pending := j\<rparr>) = batchOk k b"
  "open_queries (b\<lparr>pending := j\<rparr>) = open_queries b"
  by (simp_all add: batchOk_def open_queries_def unsettled_def)

lemma settle_error:
  assumes "batchOk k b" and "n \<in> open_queries b"
  shows "batchOk k (b\<lparr>errs := (errs b)[n := Some err]\<rparr>)"
    and "open_queries (b\<lparr>errs := (errs b)[n := Some err]\<rparr>) = open_queries b - {n}"
  using assms by (auto simp: batchOk_def open_queries_def unsettled_def nth_list_update)

lemma settle_result:
  assumes "batchOk k b" and "n \<in> open_queries b"
  shows "batchOk k (b\<lparr>results := (results b)[n := Some res]\<rparr>)"
    and "open_queries (b\<lparr>results := (results b)[n := Some res]\<rparr>) = open_queries b - {n}"
  using assms by (auto simp: batchOk_def open_queries_def unsettled_def nth_list_update)

lemma newBatch_ok: "batchOk k (newBatch k)" "open_queries (newBatch k) = {..<k}" "pending (newBatch k) = 0"
  by (auto simp: batchOk_def open_queries_def unsettled_def newBatch_def)

text \<open>What starting a query does to the batch.\<close>

lemma startQuery_batch:
  assumes "startQuery E q n b i = (i', b', out)"
  obtains nm where "out \<noteq> None" "b' = b\<lparr>names := nm\<rparr>"
  | nm err where "out = None" "b' = b\<lparr>names := nm, errs := (errs b)[n := Some err]\<rparr>"
  | nm rid where "out = None" "0 \<le> sint rid" "b' = b\<lparr>names := nm, rids := (rids b)[n := rid], pending := Suc (pending b)\<rparr>"
proof (cases "normalizeName (QName q)")
  case (Inl err)
  then have "out = None" "b' = b\<lparr>names := names b, errs := (errs b)[n := Some err]\<rparr>"
    using assms by (simp_all add: startQuery_def)
  then show ?thesis by (rule that(2))
next
  case (Inr name)
  obtain i1 r1 where a: "allocWrite E (bytes_of_string name) i = (i1, r1)" by fastforce
  show ?thesis
  proof (cases r1)
    case (Inl err)
    then show ?thesis using assms Inr a by (auto simp: startQuery_def Let_def intro: that(1))
  next
    case r1: (Inr p)
    obtain i2 r2 where c: "call E resolve_start [ucast p, of_nat (length name), ucast (QType q), 1] i1 = (i2, r2)"
      by fastforce
    show ?thesis
    proof (cases r2)
      case (Inl err)
      then show ?thesis using assms Inr a r1 c by (auto simp: startQuery_def Let_def kill_def intro: that(1))
    next
      case r2: (Inr rid)
      show ?thesis
      proof (cases "sint (ucast rid :: i32) < 0")
        case True
        then show ?thesis using assms Inr a r1 c r2 by (auto simp: startQuery_def Let_def intro: that(2))
      next
        case False
        then show ?thesis using assms Inr a r1 c r2 by (intro that(3) [of "ucast rid" "(names b)[n := name]"]) (auto simp: startQuery_def Let_def)
      qed
    qed
  qed
qed

lemma startQuery_ok:
  assumes "startQuery E q n b i = (i', b', out)" and "batchOk k b"
    and "{n..<k} \<subseteq> open_queries b" and "n < k" and "pending b + (k - n) = card (open_queries b)"
  shows "batchOk k b' \<and> (out = None \<longrightarrow> {Suc n..<k} \<subseteq> open_queries b'
     \<and> pending b' + (k - Suc n) = card (open_queries b'))"
proof -
  have n: "n \<in> open_queries b" using assms by auto
  from assms(1) show ?thesis
  proof (cases rule: startQuery_batch)
    case (1 nm)
    with assms(2) show ?thesis by auto
  next
    case (2 nm err)
    from settle_error [of k "b\<lparr>names := nm\<rparr>" n err] assms n 2 show ?thesis by auto
  next
    case (3 nm rid)
    have "batchOk k b'" "open_queries b' = open_queries b"
      using assms(2) by (simp_all add: 3 batchOk_def open_queries_def unsettled_def)
    with 3 assms(3-5) show ?thesis by auto
  qed
qed

lemma startQueries_ok:
  assumes "startQueries E qs n b i = (i', b', out)" and "batchOk k b" and "n + length qs = k"
    and "{n..<k} \<subseteq> open_queries b" and "pending b + (k - n) = card (open_queries b)"
  shows "batchOk k b' \<and> (out = None \<longrightarrow> pending b' = card (open_queries b'))"
  using assms
proof (induction qs arbitrary: n b i)
  case (Cons q qs)
  obtain i1 b1 o1 where s: "startQuery E q n b i = (i1, b1, o1)" by (metis prod_cases3)
  from startQuery_ok [OF s, of k] Cons.prems have
    "batchOk k b1 \<and> (o1 = None \<longrightarrow> {Suc n..<k} \<subseteq> open_queries b1 \<and> pending b1 + (k - Suc n) = card (open_queries b1))"
    by simp
  with Cons.IH [of "Suc n" b1 i1] Cons.prems s show ?case by (cases o1) auto
qed simp

lemma pollQuery_ok:
  assumes "pollQuery E p q n b i = Some (i', b', out)" and "batchOk k b" and "n < k"
    and "pending b = card (open_queries b)"
  shows "batchOk k b' \<and> pending b' = card (open_queries b')"
proof (cases "rids b ! n = 0 \<or> results b ! n \<noteq> None \<or> errs b ! n \<noteq> None")
  case True
  with assms show ?thesis by (simp add: pollQuery_def)
next
  case False
  then have n: "n \<in> open_queries b" using assms(2,3) by (simp add: open_queries_def unsettled_def batchOk_def)
  from False assms(1) obtain i1 r where r: "pollResult E (rids b ! n) p (names b ! n) (QType q) i = Some (i1, r)"
    by (cases "pollResult E (rids b ! n) p (names b ! n) (QType q) i") (auto simp: pollQuery_def)
  show ?thesis
  proof (cases r)
    case (Failed err)
    then have "b' = b\<lparr>errs := (errs b)[n := Some err], pending := pending b - 1\<rparr>"
      using assms(1) False r by (simp add: pollQuery_def)
    with settle_error [OF assms(2) n, of err] assms(4) n show ?thesis by simp
  next
    case (Ready res)
    then have "b' = b\<lparr>results := (results b)[n := Some res], pending := pending b - 1\<rparr>"
      using assms(1) False r by (simp add: pollQuery_def)
    with settle_result [OF assms(2) n, of res] assms(4) n show ?thesis by simp
  qed (use assms False r in \<open>auto simp: pollQuery_def\<close>)
qed

lemma pollQueries_ok:
  assumes "pollQueries E p qs n b i = Some (i', b', out)" and "batchOk k b" and "n + length qs = k"
    and "pending b = card (open_queries b)"
  shows "batchOk k b' \<and> pending b' = card (open_queries b')"
  using assms
proof (induction qs arbitrary: n b i)
  case (Cons q qs)
  then obtain i1 b1 o1 where s: "pollQuery E p q n b i = Some (i1, b1, o1)" by (auto split: option.splits)
  from pollQuery_ok [OF s, of k] Cons.prems have "batchOk k b1 \<and> pending b1 = card (open_queries b1)" by simp
  with Cons.IH [of "Suc n" b1 i1] Cons.prems s show ?case by (cases o1) auto
qed simp

lemma pending_zero: "batchOk k b \<Longrightarrow> pending b = card (open_queries b) \<Longrightarrow> pending b = 0 \<Longrightarrow> settledBatch k b"
  by (simp add: settledBatch_def)

lemma awaitResults_ok:
  assumes "awaitResults E p qs ws b i = Returned (i', b')" and "batchOk k b" and "length qs = k"
    and "pending b = card (open_queries b)"
  shows "settledBatch k b'"
  using assms
proof (induction E p qs ws b i arbitrary: i' b' rule: awaitResults.induct)
  case (1 E p qs ws b i)
  show ?case
  proof (cases "pending b = 0")
    case True
    with 1 show ?thesis by (simp add: awaitResults.simps pending_zero)
  next
    case False
    with "1.prems"(1) obtain i1 b1 o1 where p: "pollQueries E p qs 0 b i = Some (i1, b1, o1)"
      by (cases "pollQueries E p qs 0 b i") (auto simp: awaitResults.simps)
    from pollQueries_ok [OF p "1.prems"(2)] 1 have b1: "batchOk k b1" "pending b1 = card (open_queries b1)" by auto
    note f = failUnsettled_settled [OF b1(1)] and z = pending_zero [OF b1]
    show ?thesis
    proof (cases "o1 \<noteq> None \<or> pending b1 = 0")
      case True
      with "1.prems"(1) False p f z show ?thesis by (subst (asm) awaitResults.simps) (auto split: option.splits)
    next
      case o1: False
      with "1.prems"(1) False p obtain ws' i2 w where s: "select E ws i1 = Some (ws', i2, w)"
        by (subst (asm) awaitResults.simps) (auto split: option.splits)
      obtain i3 o3 where w: "onWake E w i2 = (i3, o3)" by fastforce
      show ?thesis
      proof (cases o3)
        case None
        then have "awaitResults E p qs ws' b1 i3 = Returned (i', b')"
          using "1.prems"(1) False p o1 s w by (subst (asm) awaitResults.simps) simp
        with 1(1) [OF False p] o1 s w None b1 "1.prems" show ?thesis by simp
      next
        case (Some err)
        with "1.prems"(1) False p o1 s w f show ?thesis by (subst (asm) awaitResults.simps) auto
      qed
    qed
  qed
qed

lemma runBatch_ok:
  assumes "runBatch E qs ws i = Returned (i', b)"
  shows "settledBatch (length qs) b"
proof -
  obtain i1 b1 o1 where s: "startQueries E qs 0 (newBatch (length qs)) i = (i1, b1, o1)" by (metis prod_cases3)
  from startQueries_ok [OF s newBatch_ok(1)] have b1: "batchOk (length qs) b1"
    "o1 = None \<longrightarrow> pending b1 = card (open_queries b1)" by (simp_all add: newBatch_ok atLeast0LessThan)
  show ?thesis
  proof (cases "o1 \<noteq> None \<or> pending b1 = 0")
    case True
    with assms s b1 show ?thesis
      by (auto simp: runBatch_def intro: failUnsettled_settled pending_zero split: option.splits)
  next
    case False
    obtain i2 r2 where a: "allocWrite E (replicate 32 0) i1 = (i2, r2)" by fastforce
    show ?thesis
    proof (cases r2)
      case (Inl err)
      with assms s a False have "b = failUnsettled err b1" by (simp add: runBatch_def)
      then show ?thesis using failUnsettled_settled [OF b1(1)] by simp
    next
      case (Inr p)
      with assms s a False obtain i3 where "awaitResults E p qs ws b1 i2 = Returned (i3, b)"
        by (cases "awaitResults E p qs ws b1 i2") (auto simp: runBatch_def)
      from awaitResults_ok [OF this b1(1)] b1 False show ?thesis by simp
    qed
  qed
qed

lemma queryErrors_eq:
  "length es = length qs \<Longrightarrow> queryErrors qs es
     = map (\<lambda>n. QueryError (qs ! n) (the (es ! n))) (filter (\<lambda>n. es ! n \<noteq> None) [0..<length qs])"
proof (induction qs arbitrary: es)
  case (Cons q qs)
  then obtain e es' where es: "es = e # es'" by (cases es) auto
  have "[0..<length (q # qs)] = 0 # map Suc [0..<length qs]" by (simp only: upt_conv_Cons length_Cons map_Suc_upt)
  then show ?case using Cons es by (cases e) (simp_all add: o_def filter_map del: upt_Suc)
qed simp

text \<open>The joined error of a batch: one error per query without a result, in the order of the queries.\<close>

definition batchError :: "Query list \<Rightarrow> Result option list \<Rightarrow> (nat \<Rightarrow> goerr) \<Rightarrow> goerr option" where
  "batchError qs rs e = (if None \<in> set rs
     then Some (ErrJoin (map (\<lambda>n. QueryError (qs ! n) (e n)) (filter (\<lambda>n. rs ! n = None) [0..<length qs])))
     else None)"

lemma settled_error:
  assumes "settledBatch (length qs) b"
  shows "length (results b) = length qs \<and>
     joinQueryErrors qs (errs b) = batchError qs (results b) (\<lambda>n. the (errs b ! n))"
proof -
  have l: "length (results b) = length qs" "length (errs b) = length qs"
    using assms by (simp_all add: settledBatch_def batchOk_def)
  have iff: "errs b ! n \<noteq> None \<longleftrightarrow> results b ! n = None" if "n < length qs" for n
    using assms that by (auto simp: settledBatch_def batchOk_def open_queries_def unsettled_def)
  have "filter (\<lambda>n. errs b ! n \<noteq> None) [0..<length qs] = filter (\<lambda>n. results b ! n = None) [0..<length qs]"
    by (rule filter_cong) (simp_all add: iff del: not_None_eq)
  then have q: "queryErrors qs (errs b)
     = map (\<lambda>n. QueryError (qs ! n) (the (errs b ! n))) (filter (\<lambda>n. results b ! n = None) [0..<length qs])"
    by (simp only: queryErrors_eq [OF l(2)])
  have "None \<in> set (results b) \<longleftrightarrow> (\<exists>n < length qs. results b ! n = None)"
    by (simp add: in_set_conv_nth l)
  then have "queryErrors qs (errs b) = [] \<longleftrightarrow> None \<notin> set (results b)"
    unfolding q by (auto simp: filter_empty_conv)
  with q l show ?thesis
    by (auto simp: joinQueryErrors_def batchError_def split: list.splits)
qed

lemma resolveAll_batch:
  assumes "ResolveAll E qs ws i = Returned (i', rs, err)" and "qs \<noteq> [] \<or> \<not> iClosed i"
  shows "length rs = length qs \<and> (\<exists>e. err = batchError qs rs e)"
proof -
  obtain b where b: "settledBatch (length qs) b" "rs = results b" "err = joinQueryErrors qs (errs b)"
  proof (cases "iClosed i")
    case True
    then show ?thesis
      using assms that [OF failUnsettled_settled [OF newBatch_ok(1)]] by (auto simp: ResolveAll_def Let_def)
  next
    case False
    with assms(1) obtain i1 b where "runBatch E qs ws i = Returned (i1, b)" "rs = results b" "err = joinQueryErrors qs (errs b)"
      by (auto simp: ResolveAll_def split: run.splits)
    then show ?thesis using runBatch_ok that by blast
  qed
  from settled_error [OF b(1)] b(2,3) show ?thesis by auto
qed

section \<open>What a batch does to its instance\<close>

text \<open>
  A preorder on instances that the other goroutines, the calls into a live guest, the writes to its
  memory, the receipt of an event and closing satisfy relates the instance before a batch to the
  instance after it.
\<close>

locale inst_effect =
  fixes E :: "('m, 'pub, 'p) ienv" and R :: "'m inst \<Rightarrow> 'm inst \<Rightarrow> bool"
  assumes refl: "R i i"
    and trans: "R i j \<Longrightarrow> R j k \<Longrightarrow> R i k"
    and yield: "R i (yield E i)"
    and fCall: "\<not> iDead i \<Longrightarrow> R i (fst (fCall E f params i))"
    and mem_write: "\<not> iDead i \<Longrightarrow> R i (i\<lparr>iMem := m\<rparr>)"
    and take_event: "events (iState i) = ev # es \<Longrightarrow> R i (i\<lparr>iState := (iState i)\<lparr>events := es\<rparr>\<rparr>)"
    and close: "R i (instClose i)"
begin

lemma guest:
  assumes "\<And>j. \<not> iDead j \<Longrightarrow> R j (fst (fn j))"
  shows "R i (fst (guest E fn i))"
  using assms [of "yield E i"] trans [OF yield] yield by (auto simp: guest_def Let_def)

lemma call: "R i (fst (call E f params i))"
  unfolding call_def by (rule guest) (rule fCall)

lemma fCall_dead: "iDead (fst (fCall E f params i)) = iDead i"
  by (simp add: fCall_def Let_def case_prod_unfold)

lemma allocWrite: "R i (fst (allocWrite E b i))"
  unfolding allocWrite_def
proof (rule guest)
  fix j :: "'m inst" assume j: "\<not> iDead j"
  let ?n = "if length b = 0 then 1 else length b"
  obtain j1 r where c: "fCall E alloc [of_nat ?n] j = (j1, r)" by fastforce
  have "R j j1" "\<not> iDead j1" using fCall [OF j] fCall_dead [of alloc "[of_nat ?n]" j] c j by (simp_all, metis fst_conv)
  then show "R j (fst (let n = ?n in case fCall E alloc [of_nat n] j of
       (i, Inl err) \<Rightarrow> (i, Inl (ErrWrapf ''unbound: alloc: '' err))
     | (i, Inr out) \<Rightarrow>
         (let p = ucast out :: u32 in
          if p = 0 then (i, Inl (ErrNew ''unbound: guest allocation failed''))
          else if length b > 0 then
            (case memWrite (ieMem E) (iMem i) p b of
               None \<Rightarrow> (i, Inl (ErrNew ''unbound: guest allocation outside memory''))
             | Some m \<Rightarrow> (i\<lparr>iMem := m\<rparr>, Inr p))
          else (i, Inr p))))"
    using c trans [OF _ mem_write, of j j1] by (cases r) (auto simp: Let_def split: option.splits)
qed

lemma free: "R i (free E p n i)"
  using call refl by (simp add: free_def)

lemma cancel: "R i (cancel E rid i)"
  using trans [OF yield call] yield by (simp add: cancel_def Let_def)

lemma cancelAll: "R i (cancelAll E rs i)"
  unfolding cancelAll_def
proof (induction rs arbitrary: i)
  case (Cons r rs)
  then show ?case using trans [OF cancel Cons, of i r] by simp
qed (simp add: refl)

lemma stateErr: "R i (fst (stateErr i))"
  using close refl by (simp add: stateErr_def kill_def split: option.splits)

lemma dispatch: "R i (fst (dispatch E ev i))"
proof -
  obtain j r where c: "(case kind ev of eventIO \<Rightarrow> call E io_ready [ucast (sid ev), ucast (flags ev)] i
      | eventTimer \<Rightarrow> call E timer_fired [tid ev] i) = (j, r)" by fastforce
  then have "R i j" using call [of i] by (cases "kind ev") (simp_all, metis fst_conv, metis fst_conv)
  with c show ?thesis
    using trans [OF _ close, of i j] by (cases r) (simp_all add: dispatch_def kill_def)
qed

lemma pollResult:
  assumes "pollResult E rid p qname qtype i = Some (j, out)"
  shows "R i j"
proof -
  obtain k r where g: "pollGuest E rid p i = (k, r)" by fastforce
  have "R i (fst (pollGuest E rid p i))"
    unfolding pollGuest_def
  proof (rule guest)
    fix j :: "'m inst" assume j: "\<not> iDead j"
    obtain j1 r where c: "fCall E result_get [ucast rid, ucast p] j = (j1, r)" by fastforce
    have "R j j1" using fCall [OF j] c by (metis fst_conv)
    then show "R j (fst (case fCall E result_get [ucast rid, ucast p] j of
       (i, Inl err) \<Rightarrow> (i, Inl (ErrWrapf ''unbound: result_get: '' err))
     | (i, Inr out) \<Rightarrow>
         (let rc = ucast out :: i32 in
          if sint rc \<le> 0 then (i, Inr (notReady rc)) else (i, readPolled (ieMem E) (iMem i) rc p))))"
      using c by (cases r) (simp_all add: Let_def)
  qed
  then have "R i k" by (simp add: g)
  with assms g show ?thesis
    using trans [OF _ close, of i k] by (cases r) (auto simp: pollResult_def kill_def)
qed

lemma checkABIVersion: "R i (fst (checkABIVersion E i))"
proof -
  obtain j r where c: "call E unbound_wasm_abi_version [] i = (j, r)" by fastforce
  have "R i j" using call c by (metis fst_conv)
  with c show ?thesis by (cases r) (simp_all add: checkABIVersion_def Let_def)
qed

lemma allocAll: "allocAll E vals ptrs i = (j, ptrs', err) \<Longrightarrow> R i j"
proof (induction vals arbitrary: ptrs i)
  case (Cons v vals)
  obtain i1 r where a: "allocWrite E v i = (i1, r)" by fastforce
  then have "R i i1" using allocWrite by (metis fst_conv)
  with a Cons trans show ?case by (cases r) fastforce+
qed (simp add: refl)

lemma freeAll: "R i (freeAll E vals ptrs i)"
proof -
  have "R i (fold (\<lambda>(p, v). free E p (of_nat (length v))) ps i)" for ps :: "(u32 \<times> bytes) list"
  proof (induction ps arbitrary: i)
    case (Cons x ps)
    then show ?case using trans [OF free Cons.IH, of i "fst x"] by (simp add: case_prod_unfold)
  qed (simp add: refl)
  then show ?thesis by (simp add: freeAll_def)
qed

lemma initialize: "R i (fst (initialize E cfg anchors hints i))"
proof -
  obtain i1 ptrs e where a: "allocAll E [cfg, anchors, hints] [] i = (i1, ptrs, e)" by (metis prod_cases3)
  obtain i2 r where c: "call E init [ucast (ptrs ! 0), of_nat (length cfg), ucast (ptrs ! 1), of_nat (length anchors),
       ucast (ptrs ! 2), of_nat (length hints)] i1 = (i2, r)" by fastforce
  note i1 = allocAll [OF a]
  have "R i1 i2" using call c by (metis fst_conv)
  then have "R i (freeAll E vals ps i2)" "R i (freeAll E vals ps i1)" for vals ps
    using i1 trans freeAll by blast+
  with a c show ?thesis by (cases e; cases r) (simp_all add: initialize_def Let_def del: allocAll.simps)
qed

lemma startQuery:
  assumes "startQuery E q n b i = (j, b', out)"
  shows "R i j"
proof (cases "normalizeName (QName q)")
  case (Inl err)
  with assms refl show ?thesis by (simp add: startQuery_def)
next
  case (Inr name)
  obtain i1 r1 where a: "allocWrite E (bytes_of_string name) i = (i1, r1)" by fastforce
  then have i1: "R i i1" using allocWrite by (metis fst_conv)
  show ?thesis
  proof (cases r1)
    case (Inl err)
    then show ?thesis using assms Inr a i1 by (simp add: startQuery_def Let_def)
  next
    case r1: (Inr p)
    obtain i2 r2 where c: "call E resolve_start [ucast p, of_nat (length name), ucast (QType q), 1] i1 = (i2, r2)"
      by fastforce
    then have "R i1 i2" using call by (metis fst_conv)
    then have i3: "R i (free E p (of_nat (length name)) i2)" using trans i1 free by blast
    show ?thesis
    proof (cases r2)
      case (Inl err)
      then show ?thesis using assms Inr a r1 c trans [OF i3 close] by (simp add: startQuery_def Let_def kill_def)
    next
      case (Inr rid)
      with i3 assms \<open>normalizeName (QName q) = Inr name\<close> a r1 c show ?thesis
        by (simp add: startQuery_def Let_def split: if_splits)
    qed
  qed
qed

lemma startQueries: "startQueries E qs n b i = (j, b', out) \<Longrightarrow> R i j"
proof (induction qs arbitrary: n b i)
  case (Cons q qs)
  obtain i1 b1 o1 where s: "startQuery E q n b i = (i1, b1, o1)" by (metis prod_cases3)
  from startQuery [OF s] Cons trans s show ?case by (cases o1) fastforce+
qed (simp add: refl)

lemma pollQuery:
  assumes "pollQuery E p q n b i = Some (j, b', out)"
  shows "R i j"
proof (cases "rids b ! n = 0 \<or> results b ! n \<noteq> None \<or> errs b ! n \<noteq> None")
  case True
  with assms refl show ?thesis by (simp add: pollQuery_def)
next
  case False
  with assms obtain i1 r where r: "pollResult E (rids b ! n) p (names b ! n) (QType q) i = Some (i1, r)"
    by (cases "pollResult E (rids b ! n) p (names b ! n) (QType q) i") (auto simp: pollQuery_def)
  have "j = i1" using assms False r by (cases r) (simp_all add: pollQuery_def)
  with pollResult [OF r] show ?thesis by simp
qed

lemma pollQueries: "pollQueries E p qs n b i = Some (j, b', out) \<Longrightarrow> R i j"
proof (induction qs arbitrary: n b i)
  case (Cons q qs)
  then obtain i1 b1 o1 where s: "pollQuery E p q n b i = Some (i1, b1, o1)" by (auto split: option.splits)
  from pollQuery [OF s] Cons trans s show ?case by (cases o1) fastforce+
qed (simp add: refl)

lemma select: "select E ws i = Some (ws', j, w) \<Longrightarrow> R i j"
proof (induction ws arbitrary: i)
  case (Cons x ws)
  have y: "R i (yield E i)" by (rule yield)
  show ?case
  proof (cases x)
    case Event
    show ?thesis
    proof (cases "events (iState (yield E i))")
      case (Cons ev es)
      from trans [OF y take_event [OF this]] show ?thesis using Cons.prems Event Cons by (simp add: Let_def)
    qed (use Cons Event trans [OF y] in \<open>simp add: Let_def\<close>)
  qed (use Cons y trans [OF y] in \<open>auto simp: Let_def split: if_splits\<close>)
qed simp

lemma onWake: "R i (fst (onWake E w i))"
  using close stateErr [of i] dispatch refl by (cases w) (simp_all add: case_prod_unfold)

lemma awaitResults: "awaitResults E p qs ws b i = Returned (j, b') \<Longrightarrow> R i j"
proof (induction "length ws" arbitrary: ws b i rule: less_induct)
  case less
  show ?case
  proof (cases "pending b = 0")
    case True
    with less.prems refl show ?thesis by (simp add: awaitResults.simps)
  next
    case False
    with less.prems obtain i1 b1 o1 where p: "pollQueries E p qs 0 b i = Some (i1, b1, o1)"
      by (cases "pollQueries E p qs 0 b i") (auto simp: awaitResults.simps)
    note i1 = pollQueries [OF p]
    show ?thesis
    proof (cases "o1 \<noteq> None \<or> pending b1 = 0")
      case True
      with less.prems False p i1 show ?thesis by (subst (asm) awaitResults.simps) (auto split: option.splits)
    next
      case o1: False
      with less.prems False p obtain ws' i2 w where s: "select E ws i1 = Some (ws', i2, w)"
        by (subst (asm) awaitResults.simps) (auto split: option.splits)
      obtain i3 o3 where w: "onWake E w i2 = (i3, o3)" by fastforce
      have i3: "R i i3" using trans [OF i1] select [OF s] onWake [of i2 w] w trans by (metis fst_conv)
      show ?thesis
      proof (cases o3)
        case None
        then have "awaitResults E p qs ws' b1 i3 = Returned (j, b')"
          using less.prems False p o1 s w by (subst (asm) awaitResults.simps) simp
        with less.hyps [OF select_shorter [OF s]] i3 trans show ?thesis by blast
      next
        case (Some err)
        with less.prems False p o1 s w i3 show ?thesis by (subst (asm) awaitResults.simps) auto
      qed
    qed
  qed
qed

lemma runBatch:
  assumes "runBatch E qs ws i = Returned (j, b)"
  shows "R i j"
proof -
  obtain i1 b1 o1 where s: "startQueries E qs 0 (newBatch (length qs)) i = (i1, b1, o1)" by (metis prod_cases3)
  note i1 = startQueries [OF s]
  show ?thesis
  proof (cases "o1 \<noteq> None \<or> pending b1 = 0")
    case True
    with assms s i1 show ?thesis by (auto simp: runBatch_def split: option.splits)
  next
    case False
    obtain i2 r2 where a: "allocWrite E (replicate 32 0) i1 = (i2, r2)" by fastforce
    then have i2: "R i i2" using trans [OF i1] allocWrite by (metis fst_conv)
    show ?thesis
    proof (cases r2)
      case (Inl err)
      with assms s a False i2 show ?thesis by (simp add: runBatch_def)
    next
      case (Inr p)
      with assms s a False obtain i3 where w: "awaitResults E p qs ws b1 i2 = Returned (i3, b)"
        and j: "j = free E p 32 i3"
        by (cases "awaitResults E p qs ws b1 i2") (auto simp: runBatch_def)
      from trans [OF trans [OF i2 awaitResults [OF w]] free] show ?thesis by (simp add: j)
    qed
  qed
qed

lemma ResolveAll:
  assumes "ResolveAll E qs ws i = Returned (j, rs, err)"
  shows "R i j"
proof (cases "iClosed i")
  case True
  with assms refl show ?thesis by (auto simp: ResolveAll_def Let_def split: if_splits)
next
  case False
  with assms obtain k b where "runBatch E qs ws i = Returned (k, b)" "j = cancelAll E (rids b) k"
    by (auto simp: ResolveAll_def split: run.splits)
  with trans [OF runBatch cancelAll] show ?thesis by simp
qed

end

text \<open>After the module is closed nothing is called in it and nothing is written to its memory.\<close>

interpretation dead: inst_effect E
  "\<lambda>i i'. iDead i \<longrightarrow> iDead i' \<and> iMem i' = iMem i \<and> iTrace i' = iTrace i"
  for E :: "('m, 'pub, 'p) ienv"
  by unfold_locales (auto simp: yield_def instClose_def)

interpretation alive: inst_effect E
  "\<lambda>i i'. \<exists>t. iTrace i' = iTrace i @ t \<and> list_all (\<lambda>(f, params, dead). \<not> dead) t"
  for E :: "('m, 'pub, 'p) ienv"
  by unfold_locales (fastforce simp: yield_def instClose_def fCall_def Let_def case_prod_unfold)+

interpretation shut: inst_effect E "\<lambda>i i'. iClosed i \<longrightarrow> iClosed i'"
  for E :: "('m, 'pub, 'p) ienv"
  by unfold_locales (auto simp: yield_def instClose_def fCall_def Let_def case_prod_unfold)

text \<open>
  Production instances have no replay hooks, and the other goroutines take steps of the interleaving
  model.
\<close>

definition production :: "('m, 'pub, 'p) ienv \<Rightarrow> bool" where
  "production E \<longleftrightarrow> (\<forall>n s. steps (s, Idle) (ieOthers E n s, Idle))
     \<and> (\<forall>n f params m. list_all (\<lambda>(A, g, c). replay (abiHost A) = None) (gaCalls (ieGuest E n f params m)))"

lemma production_effect:
  fixes E :: "('m, 'pub, 'p) ienv"
  assumes "production E"
  shows "inst_effect E (\<lambda>i i'. steps (iState i, Idle) (iState i', Idle))"
proof
  fix i :: "'m inst" and f params
  show "steps (iState i, Idle) (iState (fst (fCall E f params i)), Idle)"
    using assms guestRun_steps [of "gaCalls (ieGuest E (iTick i) f params (iMem i))" "iState i"]
    by (auto simp: production_def fCall_def Let_def case_prod_unfold)
next
  fix i :: "'m inst"
  show "steps (iState i, Idle) (iState (instClose i), Idle)"
    using shutdown_steps by (simp add: instClose_def stateClose_def)
qed (use assms in \<open>auto simp: production_def yield_def intro: step.dispatch\<close>)

section \<open>Returning\<close>

lemma settle_total:
  assumes "typedParser D" and "parserProgress D left"
  shows "settle D sf qname qtype q \<noteq> None"
proof -
  have p: "parseAnswer D sf qname qtype r \<noteq> None" for r
    using parseAnswer_total [OF assms(1)] by force
  have e: "parseEDE D pk \<noteq> None" for pk
    using edeLoop_total [OF assms(2)] by (auto simp: parseEDE_def split: sum.splits)
  obtain r' err where "parseAnswer D sf qname qtype \<lparr>Secure = (secStatus q = 1), HaveData = False,
      NXDomain = False, AnswerPacket = packet q, resAddrs = [], resTxt = [], resCaa = []\<rparr> = Some (r', err)"
    using p by (metis option.exhaust surj_pair)
  then show ?thesis using e by (cases err) (auto simp: settle_def Let_def)
qed

lemma pollQueries_total:
  assumes "typedParser (ieDns E)" and "parserProgress (ieDns E) left"
  shows "pollQueries E p qs n b i \<noteq> None"
proof (induction qs arbitrary: n b i)
  case (Cons q qs)
  have "pollResult E rid p qn qt i \<noteq> None" for rid qn qt
    using settle_total [OF assms] by (cases "pollGuest E rid p i"; cases "snd (pollGuest E rid p i)")
      (simp_all add: pollResult_def kill_def)
  then obtain i1 r where "pollResult E (rids b ! n) p (names b ! n) (QType q) i = Some (i1, r)" by fastforce
  then have "pollQuery E p q n b i \<noteq> None" by (cases r) (auto simp: pollQuery_def)
  then obtain i2 b2 o2 where "pollQuery E p q n b i = Some (i2, b2, o2)" by (metis option.exhaust prod_cases3)
  with Cons show ?case by (cases o2) auto
qed simp

text \<open>A cancelled context wakes the loop, at the latest.\<close>

lemma select_cancelled:
  "CtxDone e \<in> set ws \<Longrightarrow> \<exists>ws' j w. select E ws i = Some (ws', j, w)
     \<and> ((\<exists>ev. w = WokeEvent ev) \<longrightarrow> CtxDone e \<in> set ws')"
proof (induction ws arbitrary: i)
  case (Cons x ws)
  show ?case
  proof (cases x)
    case Event
    with Cons show ?thesis by (cases "events (iState (yield E i))") (auto simp: Let_def)
  qed (use Cons in \<open>auto simp: Let_def\<close>)
qed simp

lemma onWake_returns: "(\<And>ev. w \<noteq> WokeEvent ev) \<Longrightarrow> snd (onWake E w i) \<noteq> None"
  by (cases w) (auto simp: case_prod_unfold)

lemma awaitResults_returns:
  assumes "typedParser (ieDns E)" and "parserProgress (ieDns E) left" and "CtxDone e \<in> set ws"
  shows "\<exists>j b'. awaitResults E p qs ws b i = Returned (j, b')"
  using assms(3)
proof (induction "length ws" arbitrary: ws b i rule: less_induct)
  case less
  obtain i1 b1 o1 where p: "pollQueries E p qs 0 b i = Some (i1, b1, o1)"
    using pollQueries_total [OF assms(1,2)] by (metis option.exhaust prod_cases3)
  obtain ws' i2 w where s: "select E ws i1 = Some (ws', i2, w)"
    and ws': "(\<exists>ev. w = WokeEvent ev) \<longrightarrow> CtxDone e \<in> set ws'"
    using select_cancelled [OF less.prems] by blast
  obtain i3 o3 where w: "onWake E w i2 = (i3, o3)" by fastforce
  have c: "\<exists>j b'. awaitResults E p qs ws' b1 i3 = Returned (j, b')" if "o3 = None"
  proof -
    have "\<exists>ev. w = WokeEvent ev" using onWake_returns [of w E i2] w that by auto
    with ws' less.hyps [OF select_shorter [OF s]] show ?thesis by blast
  qed
  show ?case
    using p s w c by (subst awaitResults.simps) (cases o1; cases o3; auto)
qed

lemma runBatch_returns:
  assumes "typedParser (ieDns E)" and "parserProgress (ieDns E) left" and "CtxDone e \<in> set ws"
  shows "\<exists>j b. runBatch E qs ws i = Returned (j, b)"
proof -
  obtain i1 b1 o1 where s: "startQueries E qs 0 (newBatch (length qs)) i = (i1, b1, o1)" by (metis prod_cases3)
  obtain i2 r where a: "allocWrite E (replicate 32 0) i1 = (i2, r)" by fastforce
  show ?thesis
  proof (cases "o1 \<noteq> None \<or> pending b1 = 0 \<or> (\<exists>err. r = Inl err)")
    case True
    with s a show ?thesis by (cases o1) (auto simp: runBatch_def)
  next
    case False
    then obtain p where "r = Inr p" by (cases r) auto
    moreover obtain j b where "awaitResults E p qs ws b1 i2 = Returned (j, b)"
      using awaitResults_returns [OF assms] by blast
    ultimately show ?thesis using s a False by (simp add: runBatch_def)
  qed
qed

section \<open>Results\<close>

lemma fillRecords_frame: "fillRecords sf qtype owner rrs r = (r', e) \<Longrightarrow>
   Secure r' = Secure r \<and> NXDomain r' = NXDomain r \<and> AnswerPacket r' = AnswerPacket r"
proof (induction rrs arbitrary: r)
  case (Cons rr rrs)
  obtain r1 e1 where a: "addRecord qtype rr r = (r1, e1)" by fastforce
  then have "Secure r1 = Secure r \<and> NXDomain r1 = NXDomain r \<and> AnswerPacket r1 = AnswerPacket r"
    by (auto simp: addRecord_def Let_def split: resourceBody.splits if_splits sum.splits)
  with Cons a show ?case by (cases e1) (auto split: if_splits)
qed simp

lemma parseAnswer_frame: "parseAnswer D sf qname qtype r = Some (r', e) \<Longrightarrow>
   Secure r' = Secure r \<and> NXDomain r' = NXDomain r \<and> AnswerPacket r' = AnswerPacket r"
  by (auto simp: parseAnswer_def dest: fillRecords_frame split: if_splits sum.splits option.splits prod.splits)

section \<open>Cancelling\<close>

lemma cancel_traced:
  "iClosed (cancel E rid i) \<or> iDead (cancel E rid i) \<or> (resolve_cancel, [ucast rid], False) \<in> set (iTrace (cancel E rid i))"
  by (simp add: cancel_def call_def guest_def fCall_def Let_def case_prod_unfold)

lemma cancelAll_traced:
  assumes "rid \<in> set rs" and "0 < sint rid"
  shows "iClosed (cancelAll E rs i) \<or> iDead (cancelAll E rs i)
     \<or> (resolve_cancel, [ucast rid], False) \<in> set (iTrace (cancelAll E rs i))"
  using assms(1)
proof (induction rs arbitrary: i)
  case (Cons r rs)
  let ?j = "if sint r > 0 then cancel E r i else i"
  have e: "cancelAll E (r # rs) i = cancelAll E rs ?j" by (simp add: cancelAll_def)
  show ?case
  proof (cases "rid = r")
    case True
    with assms(2) cancel_traced [of E r i] shut.cancelAll [where E = E and rs = rs and i = ?j]
      dead.cancelAll [where E = E and rs = rs and i = ?j] alive.cancelAll [where E = E and rs = rs and i = ?j]
    show ?thesis unfolding e by auto
  next
    case False
    with Cons show ?thesis unfolding e by simp
  qed
qed simp

section \<open>A sample guest\<close>

text \<open>
  A guest with 64 bytes of memory: it allocates at address 8, starts every query as number 1, and
  answers a poll with \<open>rc\<close>, over a result structure of zeros (an unsigned answer without data).
\<close>

definition sampleGuest :: "u64 \<Rightarrow> nat \<Rightarrow> export \<Rightarrow> u64 list \<Rightarrow> bytes \<Rightarrow> (bytes, unit) guestAct" where
  "sampleGuest rc n f params m = \<lparr>gaCalls = [], gaAfter = (\<lambda>m. m),
     gaOut = Inr (case f of alloc \<Rightarrow> 8 | resolve_start \<Rightarrow> 1 | result_get \<Rightarrow> rc | _ \<Rightarrow> 0)\<rparr>"

definition sampleEnv :: "u64 \<Rightarrow> (bytes, unit, (u16 \<times> dnsOption list) list) ienv" where
  "sampleEnv rc = \<lparr>ieMem = flat_ops, ieGuest = sampleGuest rc, ieOthers = (\<lambda>n s. s), ieClosed = (\<lambda>n. False),
     ieDead = (\<lambda>n. False), ieDns = sampleParser [] [], ieFold = Suc\<rparr>"

definition sampleInst :: "bytes inst" where
  "sampleInst = \<lparr>iState = newInstanceState, iMem = replicate 64 0, iClosed = False, iDead = False,
     iRegistered = True, iTrace = [], iTick = 0\<rparr>"

definition sampleQueries :: "Query list" where
  "sampleQueries = [\<lparr>QName = ''a'', QType = 1\<rparr>, \<lparr>QName = '''', QType = 1\<rparr>]"

lemma sample_fCall [simp]:
  "fCall (sampleEnv rc) f params i = (i\<lparr>iTrace := iTrace i @ [(f, params, iDead i)], iTick := Suc (iTick i)\<rparr>,
     gaOut (sampleGuest rc (iTick i) f params (iMem i)))"
  by (simp add: fCall_def sampleEnv_def sampleGuest_def)

lemma sample_yield [simp]: "yield (sampleEnv rc) i = i\<lparr>iTick := Suc (iTick i)\<rparr>"
  by (simp add: yield_def sampleEnv_def)

lemma sample_ieMem [simp]: "ieMem (sampleEnv rc) = flat_ops" "ieDns (sampleEnv rc) = sampleParser [] []"
  by (simp_all add: sampleEnv_def)

lemmas sample_eval = guest_def call_def allocWrite_def free_def cancel_def Let_def sampleGuest_def
  sampleInst_def sampleQueries_def

lemma sample_run:
  "\<exists>i' rs err. ResolveAll (sampleEnv 1) sampleQueries [] sampleInst = Returned (i', rs, err) \<and> \<not> iClosed i'
     \<and> length rs = 2 \<and> rs ! 0 \<noteq> None"
  by (simp add: ResolveAll_def runBatch_def startQuery_def normalizeName_def newBatch_def sample_eval
   flat_write_def flat_read_def awaitResults.simps pollQuery_def pollResult_def pollGuest_def readPolled_def
   resultWord_def readResult_def settle_def cancelAll_def le32_def rcodeOf_def parseAnswer_def bytes_of_string_def)

section \<open>Properties\<close>

text \<open>C4: a batch that returns gives one result or error per query, in order: a result is nil exactly for the
  queries that failed, the error joins one QueryError per failed query in the order of the queries, and it is
  nil when none failed.\<close>

theorem resolveAll_contract:
  assumes "ResolveAll E qs ws i = Returned (i', rs, err)" and "qs \<noteq> [] \<or> \<not> iClosed i"
  shows "length rs = length qs \<and> (\<exists>e. err = batchError qs rs e)"
  using assms by (rule resolveAll_batch)

theorem resolveAll_contract_witness:
  "\<exists>i' rs err e. ResolveAll (sampleEnv 1) sampleQueries [] sampleInst = Returned (i', rs, err)
     \<and> length rs = length sampleQueries \<and> err = batchError sampleQueries rs e"
proof -
  obtain i' rs err where r: "ResolveAll (sampleEnv 1) sampleQueries [] sampleInst = Returned (i', rs, err)"
    using sample_run by blast
  have "sampleQueries \<noteq> [] \<or> \<not> iClosed sampleInst" by (simp add: sampleQueries_def)
  from resolveAll_contract [OF r this] r show ?thesis by blast
qed

text \<open>\<open>Resolve\<close> returns the result of its one query or the error inside that query's QueryError,
  and never indexes an empty slice of results.\<close>

theorem resolve_unwraps:
  "case Resolve E name ty ws i of
     Returned (i', out) \<Rightarrow>
       (\<exists>rs err. ResolveAll E [\<lparr>QName = name, QType = ty\<rparr>] ws i = Returned (i', rs, err)
         \<and> (case out of Inl e \<Rightarrow> rs = [None] \<and> err = Some (ErrJoin [QueryError \<lparr>QName = name, QType = ty\<rparr> e])
            | Inr res \<Rightarrow> res \<noteq> None \<and> rs = [res] \<and> err = None))
   | Stuck \<Rightarrow> ResolveAll E [\<lparr>QName = name, QType = ty\<rparr>] ws i = Stuck
   | Blocked \<Rightarrow> ResolveAll E [\<lparr>QName = name, QType = ty\<rparr>] ws i = Blocked"
proof (cases "ResolveAll E [\<lparr>QName = name, QType = ty\<rparr>] ws i")
  case (Returned x)
  obtain i' rs err where r: "ResolveAll E [\<lparr>QName = name, QType = ty\<rparr>] ws i = Returned (i', rs, err)"
    using Returned by (cases x) auto
  from resolveAll_batch [OF r] obtain res e where "rs = [res]" "err = batchError [\<lparr>QName = name, QType = ty\<rparr>] rs e"
    by (auto simp: length_Suc_conv)
  with r show ?thesis
    by (cases res) (auto simp: Resolve_def batchError_def errors_As.simps as_QueryError_def)
qed (simp_all add: Resolve_def)

text \<open>C16: once its context ends, a batch returns, whatever the guest, the network and the other goroutines
  do: no schedule leaves it waiting.\<close>

theorem cancel_returns:
  assumes "typedParser (ieDns E)" and "parserProgress (ieDns E) left" and "CtxDone e \<in> set ws"
  shows "\<exists>i' rs err. ResolveAll E qs ws i = Returned (i', rs, err)"
proof -
  obtain j b where "runBatch E qs ws i = Returned (j, b)" using runBatch_returns [OF assms] by blast
  then show ?thesis by (auto simp: ResolveAll_def Let_def)
qed

theorem cancel_returns_witness:
  "\<exists>i' rs err. ResolveAll (sampleEnv 0) sampleQueries [Event, CtxDone ErrCanceled] sampleInst = Returned (i', rs, err)"
  by (rule cancel_returns [of _ length ErrCanceled])
     (simp_all add: typedParser_def typedAnswers_def parserProgress_def sampleParser_def split: list.splits)

text \<open>C11: every call into the guest during a batch happens while its module is open, and a batch on an instance
  whose module is closed leaves the guest and its memory alone: nothing reaches memory that was unmapped.\<close>

theorem module_untouched:
  assumes "ResolveAll E qs ws i = Returned (i', rs, err)"
  shows "(\<exists>t. iTrace i' = iTrace i @ t \<and> list_all (\<lambda>(f, params, dead). \<not> dead) t)
     \<and> (if iDead i then iMem i' = iMem i \<and> iTrace i' = iTrace i else True)"
  using alive.ResolveAll [OF assms] dead.ResolveAll [OF assms] by simp

theorem module_untouched_witness:
  "\<exists>i' rs err t. ResolveAll (sampleEnv 1) sampleQueries [] sampleInst = Returned (i', rs, err)
     \<and> iTrace i' = iTrace sampleInst @ t \<and> list_all (\<lambda>(f, params, dead). \<not> dead) t"
proof -
  obtain i' rs err where r: "ResolveAll (sampleEnv 1) sampleQueries [] sampleInst = Returned (i', rs, err)"
    using sample_run by blast
  from module_untouched [OF r] r show ?thesis by blast
qed

text \<open>C19: when a batch ends, the guest has been told to release the slot of every query it started, unless the
  instance was closed meanwhile.\<close>

theorem slots_released:
  assumes "runBatch E qs ws i = Returned (j, b)" and "\<not> iClosed i" and "rid \<in> set (rids b)" and "0 < sint rid"
  shows "\<exists>i' rs err. ResolveAll E qs ws i = Returned (i', rs, err)
     \<and> (iClosed i' \<or> iDead i' \<or> (resolve_cancel, [ucast rid], False) \<in> set (iTrace i'))"
  using cancelAll_traced [OF assms(3,4), of E j] assms(1,2) by (auto simp: ResolveAll_def)

theorem slots_released_witness:
  "\<exists>i' rs err. ResolveAll (sampleEnv 1) sampleQueries [] sampleInst = Returned (i', rs, err)
     \<and> (iClosed i' \<or> iDead i' \<or> (resolve_cancel, [1], False) \<in> set (iTrace i'))"
proof -
  obtain j b where r: "runBatch (sampleEnv 1) sampleQueries [] sampleInst = Returned (j, b)"
    and m: "1 \<in> set (rids b)"
    by (simp add: runBatch_def startQuery_def normalizeName_def newBatch_def sample_eval
      flat_write_def flat_read_def awaitResults.simps pollQuery_def pollResult_def pollGuest_def readPolled_def
      resultWord_def readResult_def settle_def le32_def rcodeOf_def parseAnswer_def bytes_of_string_def)
  have "\<not> iClosed sampleInst" "(0 :: int) < sint (1 :: i32)" by (simp_all add: sampleInst_def)
  from slots_released [OF r this(1) m this(2)] show ?thesis by simp
qed

end
