(* ===== verification/GoText.thy ===== *)
theory GoText
  imports GoStrings
begin

text \<open>
  The text formats of Go's standard library in which the host prints: UTF-8 encoding, \<open>strconv.Quote\<close>
  (the verb \<open>%q\<close>), the strings of \<open>encoding/json\<close> and \<open>base64.StdEncoding\<close>. Texts are byte lists. Which
  runes above \<open>0x7f\<close> are printable is a table of Unicode and a parameter (\<open>pr\<close>).

  For the quoted forms there is a reader, and the lemmas show that it returns the runes that were written
  and stops where the text ends.
\<close>

section \<open>UTF-8\<close>

text \<open>\<open>utf8.AppendRune\<close> of a rune that \<^const>\<open>decodeRune\<close> returns, which is never a surrogate.\<close>

definition encodeRune :: "nat \<Rightarrow> bytes" where
  "encodeRune r =
     (if r < 0x80 then [of_nat r]
      else if r < 0x800 then [of_nat (0xc0 + r div 64), of_nat (0x80 + r mod 64)]
      else if r < 0x10000 then
        [of_nat (0xe0 + r div 4096), of_nat (0x80 + r div 64 mod 64), of_nat (0x80 + r mod 64)]
      else [of_nat (0xf0 + r div 262144), of_nat (0x80 + r div 4096 mod 64), of_nat (0x80 + r div 64 mod 64),
            of_nat (0x80 + r mod 64)])"

text \<open>The runes a loop over the string sees.\<close>

function runesOf :: "bytes \<Rightarrow> nat list" where
  "runesOf s = (if s = [] then [] else case decodeRune s of (r, n) \<Rightarrow> r # runesOf (drop n s))"
  by pat_completeness auto
termination runesOf
  by (relation "measure length") (auto dest: decodeRune_less)

declare runesOf.simps [simp del]

lemma byte_eqI: "unat b = n \<Longrightarrow> b = (of_nat n :: u8)"
  by auto

lemma cont_offset: "cont lo hi b \<Longrightarrow> 0x80 \<le> lo \<Longrightarrow> hi \<le> 0xbf \<Longrightarrow> \<exists>x. unat b = 0x80 + x \<and> x < 64"
  by (rule exI [of _ "unat b - 0x80"]) (auto simp: cont_def)

lemma digit64: "z < 64 \<Longrightarrow> (q * 64 + z) mod 64 = z" "z < 64 \<Longrightarrow> (q * 64 + z) div 64 = q" for q z :: nat
  by simp_all

lemma encode2:
  assumes "0xc2 \<le> unat p" and "unat p \<le> 0xdf" and "cont 0x80 0xbf b"
  shows "encodeRune ((unat p mod 32) * 64 + unat b mod 64) = [p, b]
    \<and> 0x80 \<le> (unat p mod 32) * 64 + unat b mod 64 \<and> (unat p mod 32) * 64 + unat b mod 64 < 0x110000"
proof -
  define a where "a = unat p - 0xc0"
  have "\<exists>x. unat b = 0x80 + x \<and> x < 64" by (rule cont_offset [OF assms(3)]) simp_all
  then obtain x where x: "unat b = 0x80 + x" "x < 64" by blast
  have a: "unat p = 0xc0 + a" "2 \<le> a" "a < 32" using assms by (simp_all add: a_def)
  have m: "unat p mod 32 = a" "unat b mod 64 = x" using a x by (simp_all add: mod_add_eq [symmetric])
  have "encodeRune (a * 64 + x) = [p, b]"
    using a x byte_eqI [OF a(1)] byte_eqI [OF x(1)] by (simp add: encodeRune_def)
  with m a x show ?thesis by simp
qed

lemma encode3:
  assumes "0xe0 \<le> unat p" and "unat p \<le> 0xef" and "cont (if unat p = 0xe0 then 0xa0 else 0x80) (if unat p = 0xed then 0x9f else 0xbf) b" and "cont 0x80 0xbf d"
  shows "encodeRune ((unat p mod 16) * 4096 + (unat b mod 64) * 64 + unat d mod 64) = [p, b, d]
    \<and> 0x80 \<le> (unat p mod 16) * 4096 + (unat b mod 64) * 64 + unat d mod 64
    \<and> (unat p mod 16) * 4096 + (unat b mod 64) * 64 + unat d mod 64 < 0x110000"
proof -
  define a where "a = unat p - 0xe0"
  have "\<exists>x. unat b = 0x80 + x \<and> x < 64" by (rule cont_offset [OF assms(3)]) simp_all
  then obtain x where x: "unat b = 0x80 + x" "x < 64" by blast
  obtain y where y: "unat d = 0x80 + y" "y < 64" using cont_offset [OF assms(4)] by auto
  have a: "unat p = 0xe0 + a" "a < 16" using assms by (simp_all add: a_def)
  have lo: "a = 0 \<Longrightarrow> 32 \<le> x" using assms(3) a x by (simp add: cont_def split: if_splits)
  have m: "unat p mod 16 = a" "unat b mod 64 = x" "unat d mod 64 = y"
    using a x y by (simp_all add: mod_add_eq [symmetric])
  let ?r = "a * 4096 + x * 64 + y"
  have r: "\<not> ?r < 0x800" "?r < 0x10000" using a lo x y by (cases "a = 0"; simp)+
  have q: "?r div 4096 = a" "?r div 64 mod 64 = x" "?r mod 64 = y"
  proof -
    have e: "?r = (a * 64 + x) * 64 + y" by simp
    show "?r mod 64 = y" unfolding e by (rule digit64(1) [OF y(2)])
    have d: "?r div 64 = a * 64 + x" unfolding e by (rule digit64(2) [OF y(2)])
    then show "?r div 64 mod 64 = x" using x by simp
    have "?r div 4096 = ?r div 64 div 64" by (simp flip: div_mult2_eq)
    then show "?r div 4096 = a" using d x by simp
  qed
  have "encodeRune ?r = [p, b, d]"
    unfolding encodeRune_def using r q byte_eqI [OF a(1)] byte_eqI [OF x(1)] byte_eqI [OF y(1)] by simp
  with m r show ?thesis by simp
qed

lemma encode4:
  assumes "0xf0 \<le> unat p" and "unat p \<le> 0xf4" and "cont (if unat p = 0xf0 then 0x90 else 0x80) (if unat p = 0xf4 then 0x8f else 0xbf) b" and "cont 0x80 0xbf d" and "cont 0x80 0xbf e"
  shows "encodeRune ((unat p mod 8) * 262144 + (unat b mod 64) * 4096 + (unat d mod 64) * 64 + unat e mod 64) = [p, b, d, e]
    \<and> 0x80 \<le> (unat p mod 8) * 262144 + (unat b mod 64) * 4096 + (unat d mod 64) * 64 + unat e mod 64
    \<and> (unat p mod 8) * 262144 + (unat b mod 64) * 4096 + (unat d mod 64) * 64 + unat e mod 64 < 0x110000"
proof -
  define a where "a = unat p - 0xf0"
  have "\<exists>x. unat b = 0x80 + x \<and> x < 64" by (rule cont_offset [OF assms(3)]) simp_all
  then obtain x where x: "unat b = 0x80 + x" "x < 64" by blast
  obtain y where y: "unat d = 0x80 + y" "y < 64" using cont_offset [OF assms(4)] by auto
  obtain z where z: "unat e = 0x80 + z" "z < 64" using cont_offset [OF assms(5)] by auto
  have a: "unat p = 0xf0 + a" "a < 5" using assms by (simp_all add: a_def)
  have lo: "a = 0 \<Longrightarrow> 16 \<le> x" and hi: "a = 4 \<Longrightarrow> x < 16"
    using assms(3) a x by (simp_all add: cont_def split: if_splits)
  have m: "unat p mod 8 = a" "unat b mod 64 = x" "unat d mod 64 = y" "unat e mod 64 = z"
    using a x y z by (simp_all add: mod_add_eq [symmetric])
  let ?r = "a * 262144 + x * 4096 + y * 64 + z"
  have r: "\<not> ?r < 0x10000" using lo y z by (cases "a = 0") simp_all
  have h: "?r < 0x110000" using hi a x y z by (cases "a = 4") simp_all
  have q: "?r div 262144 = a" "?r div 4096 mod 64 = x" "?r div 64 mod 64 = y" "?r mod 64 = z"
  proof -
    have e: "?r = ((a * 64 + x) * 64 + y) * 64 + z" by simp
    show "?r mod 64 = z" unfolding e by (rule digit64(1) [OF z(2)])
    have d: "?r div 64 = (a * 64 + x) * 64 + y" unfolding e by (rule digit64(2) [OF z(2)])
    then show "?r div 64 mod 64 = y" by (simp only: digit64(1) [OF y(2)])
    have "?r div 4096 = ?r div 64 div 64" by (simp flip: div_mult2_eq)
    then have d2: "?r div 4096 = a * 64 + x" by (simp only: d digit64(2) [OF y(2)])
    then show "?r div 4096 mod 64 = x" using x by simp
    have "?r div 262144 = ?r div 4096 div 64" by (simp flip: div_mult2_eq)
    then show "?r div 262144 = a" using d2 x by simp
  qed
  have "encodeRune ?r = [p, b, d, e]"
    unfolding encodeRune_def
    using r q byte_eqI [OF a(1)] byte_eqI [OF x(1)] byte_eqI [OF y(1)] byte_eqI [OF z(1)] by simp
  with m h r show ?thesis by simp
qed

text \<open>A decoded rune that is not an error was encoded by exactly the bytes that were read, whatever follows them.\<close>

lemma encode_decode:
  assumes "decodeRune s = (r, n)" and "s \<noteq> []" and "\<not> (r = runeError \<and> n = 1)"
  shows "take n s = encodeRune r \<and> n \<le> length s \<and> decodeRune (encodeRune r @ x) = (r, n) \<and> r < 0x110000
    \<and> (unat (hd s) < 0x80 \<longleftrightarrow> r < 0x80)"
proof -
  from assms(2) obtain p t where s: "s = p # t" by (cases s) auto
  consider "unat p < 0x80" | "0xc2 \<le> unat p" "unat p \<le> 0xdf" | "0xe0 \<le> unat p" "unat p \<le> 0xef"
    | "0xf0 \<le> unat p" "unat p \<le> 0xf4"
    | "\<not> unat p < 0x80" "\<not> (0xc2 \<le> unat p \<and> unat p \<le> 0xdf)" "\<not> (0xe0 \<le> unat p \<and> unat p \<le> 0xef)"
      "\<not> (0xf0 \<le> unat p \<and> unat p \<le> 0xf4)" by linarith
  then show ?thesis
  proof cases
    case 1
    then show ?thesis using assms(1) s by (auto simp: decodeRune_def encodeRune_def Let_def)
  next
    case 2
    then obtain b t' where t: "t = b # t'" and c: "cont 0x80 0xbf b"
      using assms(1,3) s by (cases t) (auto simp: decodeRune_def Let_def split: if_splits)
    have d: "decodeRune (p # b # y) = ((unat p mod 32) * 64 + unat b mod 64, 2)" for y
      using 2 c by (simp add: decodeRune_def Let_def)
    with encode2 [OF 2 c] assms(1) s t 2 show ?thesis by auto
  next
    case 3
    let ?c = "cont (if unat p = 0xe0 then 0xa0 else 0x80) (if unat p = 0xed then 0x9f else 0xbf)"
    from 3 obtain b d t' where t: "t = b # d # t'" and c: "?c b" "cont 0x80 0xbf d"
      using assms(1,3) s by (auto simp: decodeRune_def Let_def split: if_splits list.splits)
    have d: "decodeRune (p # b # d # y) = ((unat p mod 16) * 4096 + (unat b mod 64) * 64 + unat d mod 64, 3)" for y
      using 3 c by (simp add: decodeRune_def Let_def)
    with encode3 [OF 3 c] assms(1) s t 3 show ?thesis by auto
  next
    case 4
    let ?c = "cont (if unat p = 0xf0 then 0x90 else 0x80) (if unat p = 0xf4 then 0x8f else 0xbf)"
    from 4 obtain b d e t' where t: "t = b # d # e # t'" and c: "?c b" "cont 0x80 0xbf d" "cont 0x80 0xbf e"
      using assms(1,3) s by (auto simp: decodeRune_def Let_def split: if_splits list.splits)
    have d: "decodeRune (p # b # d # e # y) =
        ((unat p mod 8) * 262144 + (unat b mod 64) * 4096 + (unat d mod 64) * 64 + unat e mod 64, 4)" for y
      using 4 c by (simp add: decodeRune_def Let_def)
    with encode4 [OF 4 c] assms(1) s t 4 show ?thesis by auto
  next
    case 5
    then show ?thesis using assms(1,3) s by (auto simp: decodeRune_def Let_def)
  qed
qed

section \<open>Hexadecimal digits\<close>

definition hexDigit :: "nat \<Rightarrow> u8" where
  "hexDigit n = of_nat (if n < 10 then 48 + n else 87 + n)"

definition hex2 :: "nat \<Rightarrow> bytes" where
  "hex2 n = [hexDigit (n div 16), hexDigit (n mod 16)]"

definition hex4 :: "nat \<Rightarrow> bytes" where
  "hex4 n = hex2 (n div 256) @ hex2 (n mod 256)"

definition unhex :: "u8 \<Rightarrow> nat option" where
  "unhex b = (let c = unat b in
     if 48 \<le> c \<and> c \<le> 57 then Some (c - 48)
     else if 97 \<le> c \<and> c \<le> 102 then Some (c - 87)
     else if 65 \<le> c \<and> c \<le> 70 then Some (c - 55)
     else None)"

lemma unat_hexDigit: "n < 16 \<Longrightarrow> unat (hexDigit n) = (if n < 10 then 48 + n else 87 + n)"
  by (simp add: hexDigit_def unat_of_nat)

lemma unhex_hexDigit [simp]: "n < 16 \<Longrightarrow> unhex (hexDigit n) = Some n"
  by (simp add: unhex_def unat_hexDigit)

section \<open>strconv.Quote\<close>

text \<open>\<open>appendEscapedRune\<close> for the double quote. Below \<open>0x80\<close> the printable runes are those from space to tilde.\<close>

definition quoteRune :: "(nat \<Rightarrow> bool) \<Rightarrow> nat \<Rightarrow> bytes" where
  "quoteRune pr r =
     (if r = 0x22 \<or> r = 0x5c then [0x5c, of_nat r]
      else if (if r < 0x80 then 0x20 \<le> r \<and> r < 0x7f else pr r) then encodeRune r
      else if r = 7 then [0x5c, 0x61] else if r = 8 then [0x5c, 0x62] else if r = 12 then [0x5c, 0x66]
      else if r = 10 then [0x5c, 0x6e] else if r = 13 then [0x5c, 0x72] else if r = 9 then [0x5c, 0x74]
      else if r = 11 then [0x5c, 0x76]
      else if r < 0x20 \<or> r = 0x7f then [0x5c, 0x78] @ hex2 r
      else if r < 0x10000 then [0x5c, 0x75] @ hex4 r
      else [0x5c, 0x55] @ hex4 (r div 65536) @ hex4 (r mod 65536))"

function quoteBody :: "(nat \<Rightarrow> bool) \<Rightarrow> bytes \<Rightarrow> bytes" where
  "quoteBody pr s =
     (if s = [] then []
      else case decodeRune s of (r, n) \<Rightarrow>
        (if n = 1 \<and> r = runeError then [0x5c, 0x78] @ hex2 (unat (hd s)) else quoteRune pr r)
        @ quoteBody pr (drop n s))"
  by pat_completeness auto
termination quoteBody
  by (relation "measure (\<lambda>(pr, s). length s)") (auto dest: decodeRune_less)

declare quoteBody.simps [simp del]

definition Quote :: "(nat \<Rightarrow> bool) \<Rightarrow> string \<Rightarrow> string" where
  "Quote pr s = string_of_bytes (0x22 # quoteBody pr (bytes_of_string s) @ [0x22])"

section \<open>JSON strings\<close>

definition htmlSafe :: "nat \<Rightarrow> bool" where
  "htmlSafe c \<longleftrightarrow> 0x20 \<le> c \<and> c < 0x80 \<and> c \<notin> {0x22, 0x26, 0x3c, 0x3e, 0x5c}"

definition jsonEscape :: "nat \<Rightarrow> bytes" where
  "jsonEscape c =
     (if c = 0x5c \<or> c = 0x22 then [0x5c, of_nat c]
      else if c = 8 then [0x5c, 0x62] else if c = 12 then [0x5c, 0x66] else if c = 10 then [0x5c, 0x6e]
      else if c = 13 then [0x5c, 0x72] else if c = 9 then [0x5c, 0x74]
      else [0x5c, 0x75, 0x30, 0x30] @ hex2 c)"

text \<open>The text of one rune, which \<open>n\<close> bytes at the start of \<open>s\<close> encode.\<close>

definition jsonRune :: "bytes \<Rightarrow> nat \<Rightarrow> nat \<Rightarrow> bytes" where
  "jsonRune s r n =
     (if r < 0x80 then if htmlSafe r then take n s else jsonEscape r
      else if r = runeError \<and> n = 1 then [0x5c, 0x75, 0x66, 0x66, 0x66, 0x64]
      else if r = 0x2028 \<or> r = 0x2029 then [0x5c, 0x75, 0x32, 0x30, 0x32] @ [hexDigit (r mod 16)]
      else take n s)"

function jsonBody :: "bytes \<Rightarrow> bytes" where
  "jsonBody s =
     (if s = [] then [] else case decodeRune s of (r, n) \<Rightarrow> jsonRune s r n @ jsonBody (drop n s))"
  by pat_completeness auto
termination jsonBody
  by (relation "measure length") (auto dest: decodeRune_less)

declare jsonBody.simps [simp del]

definition jsonString :: "bytes \<Rightarrow> bytes" where
  "jsonString s = 0x22 # jsonBody s @ [0x22]"

text \<open>A reader of JSON strings (RFC 8259), after the opening quote: the runes and what follows the string.\<close>

definition unescape :: "u8 \<Rightarrow> nat option" where
  "unescape c = map_of [(0x22, 0x22), (0x5c, 0x5c), (0x2f, 0x2f), (0x62, 8), (0x66, 12), (0x6e, 10), (0x72, 13),
     (0x74, 9)] c"

fun unhex4 :: "bytes \<Rightarrow> (nat \<times> bytes) option" where
  "unhex4 (a # b # c # d # t) =
     (case (unhex a, unhex b, unhex c, unhex d) of
        (Some a, Some b, Some c, Some d) \<Rightarrow> Some (((a * 16 + b) * 16 + c) * 16 + d, t)
      | _ \<Rightarrow> None)"
| "unhex4 _ = None"

lemma unhex4_less: "unhex4 s = Some (r, t) \<Longrightarrow> length t < length s"
  by (cases s rule: unhex4.cases) (auto split: option.splits)

function jsonScan :: "bytes \<Rightarrow> (nat list \<times> bytes) option" where
  "jsonScan [] = None"
| "jsonScan (p # t) =
     (if p = 0x22 then Some ([], t)
      else if p = 0x5c then
        (case t of [] \<Rightarrow> None
         | c # t' \<Rightarrow>
             if c = 0x75 then
               (case unhex4 t' of None \<Rightarrow> None
                | Some (r, t'') \<Rightarrow> map_option (apfst ((#) r)) (jsonScan t''))
             else
               (case unescape c of None \<Rightarrow> None | Some r \<Rightarrow> map_option (apfst ((#) r)) (jsonScan t')))
      else if unat p < 0x20 then None
      else
        (case decodeRune (p # t) of (r, n) \<Rightarrow>
           if r = runeError \<and> n = 1 then None
           else map_option (apfst ((#) r)) (jsonScan (drop n (p # t)))))"
  by pat_completeness auto
termination jsonScan
  by (relation "measure length") (use decodeRune_less unhex4_less in \<open>fastforce+\<close>)

declare jsonScan.simps(2) [simp del]

lemma decode_ascii: "unat p < 0x80 \<Longrightarrow> decodeRune (p # t) = (unat p, 1)"
  by (simp add: decodeRune_def Let_def)

lemma jsonScan_raw:
  assumes "decodeRune s = (r, n)" and "s \<noteq> []" and "\<not> (r = runeError \<and> n = 1)" and "r \<ge> 0x20" and "r \<noteq> 0x22" and "r \<noteq> 0x5c"
  shows "jsonScan (take n s @ x) = map_option (apfst ((#) r)) (jsonScan x)"
proof -
  note e = encode_decode [OF assms(1-3), of x]
  obtain p t where s: "s = p # t" using assms(2) by (cases s) auto
  obtain k where n: "n = Suc k" using decodeRune_size [OF assms(2)] assms(1) by (cases n) auto
  have "unat p < 0x80 \<Longrightarrow> unat p = r" using assms(1) s by (simp add: decode_ascii)
  then have "p \<noteq> 0x22" "p \<noteq> 0x5c" "\<not> unat p < 0x20" using assms(4-6) by auto
  moreover have "decodeRune ((p # take k t) @ x) = (r, n)" using e s n by (metis take_Suc_Cons)
  moreover have "drop n (p # take k t @ x) = x" using e s n by simp
  ultimately show ?thesis using assms(3) s n by (auto simp: jsonScan.simps(2))
qed

lemma hex2_scan: "n < 256 \<Longrightarrow> unhex4 ([0x30, 0x30] @ hex2 n @ x) = Some (n, x)"
proof -
  assume n: "n < 256"
  then have "n div 16 < 16" "n mod 16 < 16" by auto
  moreover have "unhex 0x30 = Some 0" by (simp add: unhex_def)
  ultimately show ?thesis by (simp add: hex2_def)
qed

lemma jsonEscape_scan:
  assumes "c < 0x80"
  shows "jsonScan (jsonEscape c @ x) = map_option (apfst ((#) c)) (jsonScan x)"
proof (cases "c \<in> {0x5c, 0x22, 8, 12, 10, 13, 9}")
  case True
  then show ?thesis by (auto simp: jsonEscape_def unescape_def jsonScan.simps(2))
next
  case False
  then show ?thesis using hex2_scan [of c x] assms by (auto simp: jsonEscape_def jsonScan.simps(2))
qed

lemma jsonRune_scan:
  assumes "decodeRune s = (r, n)" and "s \<noteq> []"
  shows "jsonScan (jsonRune s r n @ x) = map_option (apfst ((#) r)) (jsonScan x)"
proof -
  consider "r < 0x80" "htmlSafe r" | "r < 0x80" "\<not> htmlSafe r" | "r = runeError" "n = 1" | "r = 0x2028 \<or> r = 0x2029"
    | "\<not> r < 0x80" "\<not> (r = runeError \<and> n = 1)" "\<not> (r = 0x2028 \<or> r = 0x2029)" by blast
  then show ?thesis
  proof cases
    case 1
    then show ?thesis using jsonScan_raw [OF assms] by (auto simp: jsonRune_def htmlSafe_def runeError_def)
  next
    case 2
    then show ?thesis by (simp add: jsonRune_def jsonEscape_scan)
  next
    case 3
    moreover have "unhex4 (0x66 # 0x66 # 0x66 # 0x64 # x) = Some (runeError, x)" by (simp add: unhex_def runeError_def)
    ultimately show ?thesis by (simp add: jsonRune_def runeError_def jsonScan.simps(2))
  next
    case 4
    then have "unhex4 (0x32 # 0x30 # 0x32 # hexDigit (r mod 16) # x) = Some (r, x)" by (auto simp: unhex_def unat_hexDigit)
    with 4 show ?thesis by (auto simp: jsonRune_def runeError_def jsonScan.simps(2))
  next
    case 5
    then show ?thesis using jsonScan_raw [OF assms] by (auto simp: jsonRune_def)
  qed
qed

lemma jsonBody_scan: "jsonScan (jsonBody s @ 0x22 # x) = Some (runesOf s, x)"
proof (induction s rule: jsonBody.induct)
  case (1 s)
  show ?case
  proof (cases "s = []")
    case True
    then show ?thesis by (simp add: jsonBody.simps runesOf.simps jsonScan.simps)
  next
    case False
    obtain r n where d: "decodeRune s = (r, n)" by fastforce
    have "jsonScan (jsonBody (drop n s) @ 0x22 # x) = Some (runesOf (drop n s), x)"
      using "1.IH" [OF False d [symmetric]] by simp
    with jsonRune_scan [OF d False] False d show ?thesis
      by (simp add: jsonBody.simps [of s] runesOf.simps [of s])
  qed
qed

section \<open>base64\<close>

definition b64char :: "nat \<Rightarrow> u8" where
  "b64char n = of_nat (if n < 26 then 65 + n else if n < 52 then 71 + n else if n < 62 then n - 4
     else if n = 62 then 43 else 47)"

text \<open>\<open>base64.StdEncoding.EncodeToString\<close>: three bytes are four digits of 6 bits, the last group is padded.\<close>

fun base64Encode :: "bytes \<Rightarrow> bytes" where
  "base64Encode [] = []"
| "base64Encode [a] =
     (let v = unat a * 65536 in [b64char (v div 262144), b64char (v div 4096 mod 64), 0x3d, 0x3d])"
| "base64Encode [a, b] =
     (let v = unat a * 65536 + unat b * 256
      in [b64char (v div 262144), b64char (v div 4096 mod 64), b64char (v div 64 mod 64), 0x3d])"
| "base64Encode (a # b # c # t) =
     (let v = unat a * 65536 + unat b * 256 + unat c
      in [b64char (v div 262144), b64char (v div 4096 mod 64), b64char (v div 64 mod 64), b64char (v mod 64)]
         @ base64Encode t)"

text \<open>The decoding of RFC 4648, for texts with padding.\<close>

definition unb64 :: "u8 \<Rightarrow> nat option" where
  "unb64 x = (let c = unat x in
     if 65 \<le> c \<and> c \<le> 90 then Some (c - 65)
     else if 97 \<le> c \<and> c \<le> 122 then Some (c - 71)
     else if 48 \<le> c \<and> c \<le> 57 then Some (c + 4)
     else if c = 43 then Some 62 else if c = 47 then Some 63 else None)"

fun base64Decode :: "bytes \<Rightarrow> bytes option" where
  "base64Decode [] = Some []"
| "base64Decode (p # q # r # s # t) =
     (case (unb64 p, unb64 q) of
        (Some p, Some q) \<Rightarrow>
          if r = 0x3d \<and> s = 0x3d \<and> t = [] then Some [of_nat ((p * 64 + q) div 16)]
          else
            (case unb64 r of None \<Rightarrow> None
             | Some r \<Rightarrow>
                 if s = 0x3d \<and> t = [] then
                   (let v = ((p * 64 + q) * 64 + r) div 4 in Some [of_nat (v div 256), of_nat (v mod 256)])
                 else
                   (case (unb64 s, base64Decode t) of
                      (Some s, Some t) \<Rightarrow>
                        (let v = ((p * 64 + q) * 64 + r) * 64 + s
                         in Some ([of_nat (v div 65536), of_nat (v div 256 mod 256), of_nat (v mod 256)] @ t))
                    | _ \<Rightarrow> None))
      | _ \<Rightarrow> None)"
| "base64Decode _ = None"

lemma unat_b64char: "n < 64 \<Longrightarrow> unat (b64char n) = (if n < 26 then 65 + n else if n < 52 then 71 + n else if n < 62 then n - 4
     else if n = 62 then 43 else 47)"
  by (simp add: b64char_def unat_of_nat)

lemma unb64_b64char [simp]: "n < 64 \<Longrightarrow> unb64 (b64char n) = Some n"
  by (auto simp: unb64_def unat_b64char Let_def)

lemma b64char_pad: "n < 64 \<Longrightarrow> b64char n \<noteq> 0x3d"
  using unat_b64char [of n] by (auto split: if_splits)

lemma split24:
  fixes a b c :: nat
  assumes "b < 256" and "c < 256"
  shows "(a * 65536 + b * 256 + c) div 65536 = a" "(a * 65536 + b * 256 + c) div 256 mod 256 = b"
    "(a * 65536 + b * 256 + c) mod 256 = c"
proof -
  have e: "a * 65536 + b * 256 + c = (a * 256 + b) * 256 + c" by simp
  show m: "(a * 65536 + b * 256 + c) mod 256 = c" unfolding e using assms(2) by (simp only: mod_mult_self3 mod_less)
  have d: "(a * 65536 + b * 256 + c) div 256 = a * 256 + b" unfolding e using assms(2) by simp
  then show "(a * 65536 + b * 256 + c) div 256 mod 256 = b" using assms(1) by simp
  have "(a * 65536 + b * 256 + c) div 65536 = (a * 65536 + b * 256 + c) div 256 div 256" by (simp flip: div_mult2_eq)
  then show "(a * 65536 + b * 256 + c) div 65536 = a" using d assms(1) by simp
qed

lemma sextets:
  fixes v :: nat
  assumes "v < 16777216"
  shows "v div 262144 < 64" "v div 4096 mod 64 < 64" "v div 64 mod 64 < 64" "v mod 64 < 64"
  using assms by (simp_all add: less_mult_imp_div_less)

lemma upper_digits: "v div 262144 * 64 + v div 4096 mod 64 = v div 4096"
  "v div 4096 * 64 + v div 64 mod 64 = v div 64" for v :: nat
proof -
  have "v div 262144 = v div 4096 div 64" "v div 4096 = v div 64 div 64" by (simp_all flip: div_mult2_eq)
  then show "v div 262144 * 64 + v div 4096 mod 64 = v div 4096"
    "v div 4096 * 64 + v div 64 mod 64 = v div 64" by (metis div_mult_mod_eq)+
qed

text \<open>One group of digits, with and without padding.\<close>

lemma decode_group:
  assumes "v < 16777216"
  shows "base64Decode [b64char (v div 262144), b64char (v div 4096 mod 64), 0x3d, 0x3d] = Some [of_nat (v div 65536)]"
    "base64Decode [b64char (v div 262144), b64char (v div 4096 mod 64), b64char (v div 64 mod 64), 0x3d]
       = Some [of_nat (v div 65536), of_nat (v div 256 mod 256)]"
    "base64Decode (b64char (v div 262144) # b64char (v div 4096 mod 64) # b64char (v div 64 mod 64) # b64char (v mod 64) # t)
       = map_option ((@) [of_nat (v div 65536), of_nat (v div 256 mod 256), of_nat (v mod 256)]) (base64Decode t)"
proof -
  note s = sextets [OF assms] and p = b64char_pad [OF sextets(3) [OF assms]] b64char_pad [OF sextets(4) [OF assms]]
  have d: "v div 4096 div 16 = v div 65536" "v div 64 div 4 = v div 256" "v div 256 div 256 = v div 65536"
    by (simp_all flip: div_mult2_eq)
  show "base64Decode [b64char (v div 262144), b64char (v div 4096 mod 64), 0x3d, 0x3d] = Some [of_nat (v div 65536)]"
    by (simp only: base64Decode.simps unb64_b64char [OF s(1)] unb64_b64char [OF s(2)] option.case prod.case upper_digits d)
       simp
  show "base64Decode [b64char (v div 262144), b64char (v div 4096 mod 64), b64char (v div 64 mod 64), 0x3d]
       = Some [of_nat (v div 65536), of_nat (v div 256 mod 256)]"
    by (simp only: base64Decode.simps unb64_b64char [OF s(1)] unb64_b64char [OF s(2)] unb64_b64char [OF s(3)]
        option.case prod.case upper_digits d p Let_def simp_thms if_True if_False)
  show "base64Decode (b64char (v div 262144) # b64char (v div 4096 mod 64) # b64char (v div 64 mod 64) # b64char (v mod 64) # t)
       = map_option ((@) [of_nat (v div 65536), of_nat (v div 256 mod 256), of_nat (v mod 256)]) (base64Decode t)"
    by (simp only: base64Decode.simps unb64_b64char [OF s(1)] unb64_b64char [OF s(2)] unb64_b64char [OF s(3)]
        unb64_b64char [OF s(4)] option.case prod.case upper_digits div_mult_mod_eq p Let_def simp_thms if_True if_False)
       (simp split: option.split)
qed

lemma word24: "unat (a :: u8) * 65536 + unat (b :: u8) * 256 + unat (c :: u8) < 16777216"
proof -
  have "unat a < 256" "unat b < 256" "unat c < 256" by simp_all
  then show ?thesis by linarith
qed

lemma base64_roundtrip: "base64Decode (base64Encode b) = Some b"
proof (induction b rule: base64Encode.induct)
  case (2 a)
  show ?case
    using decode_group(1) [OF word24 [of a 0 0]] split24 [of 0 0 "unat a"] by (simp only: base64Encode.simps Let_def) simp
next
  case (3 a b)
  show ?case
    using decode_group(2) [OF word24 [of a b 0]] split24 [of "unat b" 0 "unat a"] by (simp only: base64Encode.simps Let_def) simp
next
  case (4 a b c t)
  note w = split24 [OF unat_byte_lt unat_byte_lt, of "unat a" b c]
  show ?case
    by (simp only: base64Encode.simps Let_def append_Cons append_Nil decode_group(3) [OF word24] "4.IH" w) simp
qed simp

section \<open>Quoted texts are one line\<close>

definition oneLine :: "bytes \<Rightarrow> bool" where
  "oneLine = list_all (\<lambda>b. 0x20 \<le> unat b)"

lemma oneLine_simps [simp]: "oneLine []" "oneLine (b # s) \<longleftrightarrow> 0x20 \<le> unat b \<and> oneLine s"
  "oneLine (s @ t) \<longleftrightarrow> oneLine s \<and> oneLine t"
  by (simp_all add: oneLine_def)

lemma oneLine_hex [simp]: "n < 16 \<Longrightarrow> 0x20 \<le> unat (hexDigit n)" "n < 256 \<Longrightarrow> oneLine (hex2 n)"
  "n < 65536 \<Longrightarrow> oneLine (hex4 n)"
proof -
  show d: "0x20 \<le> unat (hexDigit n)" if "n < 16" for n using that by (simp add: unat_hexDigit)
  show h: "oneLine (hex2 n)" if "n < 256" for n
  proof -
    have "n div 16 < 16" using that by auto
    with d show ?thesis by (simp add: hex2_def)
  qed
  assume "n < 65536"
  then have "n div 256 < 256" by auto
  with h show "oneLine (hex4 n)" by (simp add: hex4_def)
qed

lemma oneLine_encodeRune:
  assumes "0x20 \<le> r" and "r < 0x110000"
  shows "oneLine (encodeRune r)"
proof -
  have b: "0x20 \<le> unat (of_nat (c + d) :: u8)" if "0x20 \<le> c" "c + d < 256" for c d
    using that by (simp only: unat_of_nat) simp
  have m: "k mod 64 < (64 :: nat)" for k by simp
  consider "r < 0x80" | "\<not> r < 0x80" "r < 0x800" | "\<not> r < 0x800" "r < 0x10000" | "\<not> r < 0x10000" by linarith
  then show ?thesis
  proof cases
    case 1
    then show ?thesis using assms(1) by (simp add: encodeRune_def unat_of_nat)
  next
    case 2
    then have "r div 64 < 32" by auto
    with 2 b [of "0xc0" "r div 64"] b [of "0x80" "r mod 64"] show ?thesis by (simp add: encodeRune_def add_less_le_mono)
  next
    case 3
    then have "r div 4096 < 16" by auto
    with 3 b [of "0xe0" "r div 4096"] b [of "0x80" "r div 64 mod 64"] b [of "0x80" "r mod 64"] m [of "r div 64"] m [of r]
    show ?thesis by (simp add: encodeRune_def)
  next
    case 4
    have "r div 262144 < 5" using assms(2) by auto
    with 4 b [of "0xf0" "r div 262144"] b [of "0x80" "r div 4096 mod 64"] b [of "0x80" "r div 64 mod 64"] b [of "0x80" "r mod 64"]
      m [of "r div 4096"] m [of "r div 64"] m [of r]
    show ?thesis by (simp add: encodeRune_def)
  qed
qed

lemma runeError_range: "0x20 \<le> runeError" "runeError < 0x10000" by (simp_all add: runeError_def)

lemma decodeRune_range:
  assumes "decodeRune s = (r, n)" and "s \<noteq> []"
  shows "r < 0x110000"
proof (cases "r = runeError")
  case False
  with encode_decode [OF assms] show ?thesis by blast
qed (simp add: runeError_def)

lemma oneLine_take:
  assumes "decodeRune s = (r, n)" and "s \<noteq> []" and "\<not> (r = runeError \<and> n = 1)" and "0x20 \<le> r"
  shows "oneLine (take n s)"
  using encode_decode [OF assms(1-3), of "[]"] oneLine_encodeRune [OF assms(4)] by simp

lemma jsonBody_oneLine: "oneLine (jsonBody s)"
proof (induction s rule: jsonBody.induct)
  case (1 s)
  show ?case
  proof (cases "s = []")
    case False
    obtain r n where d: "decodeRune s = (r, n)" by fastforce
    have "oneLine (jsonRune s r n)"
      using oneLine_take [OF d False]
      by (auto simp: jsonRune_def jsonEscape_def htmlSafe_def runeError_def)
    then show ?thesis using False d "1.IH" [OF False d [symmetric]] by (simp add: jsonBody.simps [of s])
  qed (simp add: jsonBody.simps)
qed

lemma jsonString_oneLine [simp]: "oneLine (jsonString s)"
  by (simp add: jsonString_def jsonBody_oneLine)

lemma quoteRune_oneLine: "r < 0x110000 \<Longrightarrow> oneLine (quoteRune pr r)"
proof -
  assume r: "r < 0x110000"
  then have "r div 65536 < 65536" "r mod 65536 < 65536" by auto
  with r show ?thesis using oneLine_encodeRune [of r] by (auto simp: quoteRune_def)
qed

lemma quoteBody_oneLine: "oneLine (quoteBody pr s)"
proof (induction pr s rule: quoteBody.induct)
  case (1 pr s)
  show ?case
  proof (cases "s = []")
    case False
    obtain r n where d: "decodeRune s = (r, n)" by fastforce
    have "oneLine (if n = 1 \<and> r = runeError then [0x5c, 0x78] @ hex2 (unat (hd s)) else quoteRune pr r)"
      using quoteRune_oneLine decodeRune_range [OF d False] by simp
    then show ?thesis using False d "1.IH" [OF False d [symmetric]] by (simp add: quoteBody.simps [of _ s])
  qed (simp add: quoteBody.simps)
qed

lemma Quote_oneLine: "oneLine (bytes_of_string (Quote pr s))"
  by (simp add: Quote_def quoteBody_oneLine)

end
