(* ===== verification/Netip.thy ===== *)
theory Netip
  imports GuestMem GoText
begin

text \<open>
  Address literals: \<open>netip.ParseAddr\<close>, with which \<open>NewRuntime\<close> reads its root hints, and \<open>Addr.String\<close>, in
  which the command prints addresses. The loops are those of the library; a parse error is the message and
  the text it is reported at. The lemmas show that every valid address, in whichever of its forms it is
  printed, is read back as itself.
\<close>

section \<open>Parsing\<close>

abbreviation code :: "char \<Rightarrow> nat" where "code c \<equiv> of_char c"

type_synonym parseErr = "string \<times> string"

text \<open>
  The loop of \<open>parseIPv4Fields\<close> over the characters: whether the previous character is a dot (or there is
  none), the value and the number of digits of the current field, and the fields before it.
\<close>

fun parseIPv4Fields :: "string \<Rightarrow> bool \<Rightarrow> nat \<Rightarrow> nat \<Rightarrow> bytes \<Rightarrow> parseErr + bytes" where
  "parseIPv4Fields [] prevDot val digLen fs =
     (if length fs < 3 then Inl (''IPv4 address too short'', []) else Inr (fs @ [of_nat val]))"
| "parseIPv4Fields (c # t) prevDot val digLen fs =
     (if isDigit c then
        (if digLen = 1 \<and> val = 0 then Inl (''IPv4 field has octet with leading zero'', [])
         else let val = val * 10 + (code c - 48) in
           if val > 255 then Inl (''IPv4 field has value >255'', [])
           else parseIPv4Fields t False val (digLen + 1) fs)
      else if c = CHR ''.'' then
        (if prevDot \<or> t = [] then Inl (''IPv4 field must have at least one digit'', c # t)
         else if length fs = 3 then Inl (''IPv4 address too long'', [])
         else parseIPv4Fields t True 0 0 (fs @ [of_nat val]))
      else Inl (''unexpected character'', c # t))"

definition parseIPv4 :: "string \<Rightarrow> parseErr + addr" where
  "parseIPv4 s = (case parseIPv4Fields s True 0 0 [] of Inl e \<Rightarrow> Inl e | Inr fs \<Rightarrow> Inr (AddrFrom4 fs))"

definition hexVal :: "char \<Rightarrow> nat option" where
  "hexVal c =
     (if isDigit c then Some (code c - 48)
      else if 97 \<le> code c \<and> code c \<le> 102 then Some (code c - 97 + 10)
      else if 65 \<le> code c \<and> code c \<le> 70 then Some (code c - 65 + 10)
      else None)"

text \<open>The number at the start of a group: how many digits it has, and its value.\<close>

fun hexScan :: "string \<Rightarrow> nat \<Rightarrow> nat \<Rightarrow> string + nat \<times> nat" where
  "hexScan [] off acc = Inr (off, acc)"
| "hexScan (c # t) off acc =
     (case hexVal c of None \<Rightarrow> Inr (off, acc)
      | Some d \<Rightarrow>
          (let acc = acc * 16 + d in
           if off > 3 then Inl ''each group must have 4 or fewer digits''
           else if acc > 65535 then Inl ''IPv6 field has value >=2^16''
           else hexScan t (off + 1) acc))"

text \<open>
  The loop over the groups: what is left of the text, the bytes of the address read so far and the position
  of the ellipsis.
\<close>

function parseGroups :: "string \<Rightarrow> bytes \<Rightarrow> nat option \<Rightarrow> parseErr + string \<times> bytes \<times> nat option" where
  "parseGroups s ip ellipsis =
     (if length ip < 16 then
        (case hexScan s 0 0 of Inl msg \<Rightarrow> Inl (msg, s)
         | Inr (off, acc) \<Rightarrow>
           if off = 0 then Inl (''each colon-separated field must have at least one digit'', s)
           else if off < length s \<and> s ! off = CHR ''.'' then
             (if ellipsis = None \<and> length ip \<noteq> 12 then
                Inl (''embedded IPv4 address must replace the final 2 fields of the address'', s)
              else if length ip + 4 > 16 then
                Inl (''too many hex fields to fit an embedded IPv4 at the end of the address'', s)
              else case parseIPv4Fields s True 0 0 [] of Inl e \<Rightarrow> Inl e
                | Inr fs \<Rightarrow> Inr ([], ip @ fs, ellipsis))
           else
             (let ip' = ip @ [of_nat (acc div 256), of_nat (acc mod 256)] in
              case drop off s of
                [] \<Rightarrow> Inr ([], ip', ellipsis)
              | c # t \<Rightarrow>
                  if c \<noteq> CHR '':'' then Inl (''unexpected character, want colon'', c # t)
                  else if t = [] then Inl (''colon must be followed by more characters'', c # t)
                  else if hd t = CHR '':'' then
                    (if ellipsis \<noteq> None then Inl (''multiple :: in address'', t)
                     else if tl t = [] then Inr ([], ip', Some (length ip'))
                     else parseGroups (tl t) ip' (Some (length ip')))
                  else parseGroups t ip' ellipsis))
      else Inr (s, ip, ellipsis))"
  by pat_completeness auto
termination parseGroups
  by (relation "measure (\<lambda>(s, ip, e). 16 - length ip)") auto

declare parseGroups.simps [simp del]

definition WithZone :: "string \<Rightarrow> addr \<Rightarrow> addr" where
  "WithZone zone ip = (case ip of Addr6 a z \<Rightarrow> Addr6 a zone | _ \<Rightarrow> ip)"

definition finishIPv6 :: "string \<Rightarrow> string \<times> bytes \<times> nat option \<Rightarrow> parseErr + addr" where
  "finishIPv6 zone x =
     (case x of (s, ip, ellipsis) \<Rightarrow>
        if s \<noteq> [] then Inl (''trailing garbage after address'', s)
        else if length ip < 16 then
          (case ellipsis of None \<Rightarrow> Inl (''address string too short'', [])
           | Some e \<Rightarrow> Inr (WithZone zone (AddrFrom16 (take e ip @ replicate (16 - length ip) 0 @ drop e ip))))
        else if ellipsis \<noteq> None then Inl (''the :: must expand to at least one field of zeros'', [])
        else Inr (WithZone zone (AddrFrom16 ip)))"

definition parseIPv6 :: "string \<Rightarrow> parseErr + addr" where
  "parseIPv6 text =
     (let s = takeWhile (\<lambda>c. c \<noteq> CHR ''%'') text; zone = drop (length s + 1) text in
      if length s < length text \<and> zone = [] then Inl (''zone must be a non-empty string'', [])
      else if take 2 s = ''::'' then
        (if drop 2 s = [] then Inr (WithZone zone (AddrFrom16 (replicate 16 0)))
         else case parseGroups (drop 2 s) [] (Some 0) of Inl e \<Rightarrow> Inl e | Inr x \<Rightarrow> finishIPv6 zone x)
      else case parseGroups s [] None of Inl e \<Rightarrow> Inl e | Inr x \<Rightarrow> finishIPv6 zone x)"

text \<open>The first dot, colon or percent sign decides.\<close>

definition parseAddr0 :: "string \<Rightarrow> parseErr + addr" where
  "parseAddr0 s =
     (case find (\<lambda>c. c \<in> {CHR ''.'', CHR '':'', CHR ''%''}) s of
        None \<Rightarrow> Inl (''unable to parse IP'', [])
      | Some c \<Rightarrow>
          if c = CHR ''.'' then parseIPv4 s
          else if c = CHR '':'' then parseIPv6 s
          else Inl (''missing IPv6 address'', []))"

definition parseAddrError :: "(nat \<Rightarrow> bool) \<Rightarrow> string \<Rightarrow> parseErr \<Rightarrow> string" where
  "parseAddrError pr s e =
     (case e of (msg, at) \<Rightarrow>
        ''ParseAddr('' @ Quote pr s @ ''): '' @ msg @ (if at \<noteq> [] then '' (at '' @ Quote pr at @ '')'' else []))"

definition ParseAddr :: "(nat \<Rightarrow> bool) \<Rightarrow> string \<Rightarrow> string + addr" where
  "ParseAddr pr s = (case parseAddr0 s of Inl e \<Rightarrow> Inl (parseAddrError pr s e) | Inr ip \<Rightarrow> Inr ip)"

section \<open>Printing\<close>

definition string4 :: "32 word \<Rightarrow> string" where
  "string4 a = (let b = As4 a in
     digits (unat (b ! 0)) @ ''.'' @ digits (unat (b ! 1)) @ ''.'' @ digits (unat (b ! 2)) @ ''.'' @ digits (unat (b ! 3)))"

definition hexChar :: "nat \<Rightarrow> char" where
  "hexChar d = char_of (if d < 10 then 48 + d else 87 + d)"

text \<open>\<open>appendHex\<close> of a 16-bit number, without leading zeros.\<close>

definition hexText :: "nat \<Rightarrow> string" where
  "hexText x =
     (if x \<ge> 0x1000 then [hexChar (x div 4096)] else [])
     @ (if x \<ge> 0x100 then [hexChar (x div 256 mod 16)] else [])
     @ (if x \<ge> 0x10 then [hexChar (x div 16 mod 16)] else [])
     @ [hexChar (x mod 16)]"

definition v6u16 :: "128 word \<Rightarrow> nat \<Rightarrow> nat" where
  "v6u16 a i = unat a div 65536 ^ (7 - i) mod 65536"

text \<open>The search for the longest run of at least two zero groups, the first one if there are several.\<close>

definition zeroRun :: "(nat \<Rightarrow> nat) \<Rightarrow> nat \<Rightarrow> nat" where
  "zeroRun u i = length (takeWhile (\<lambda>j. u j = 0) [i..<8])"

definition zeroGroups :: "(nat \<Rightarrow> nat) \<Rightarrow> nat \<times> nat" where
  "zeroGroups u = fold (\<lambda>i (zeroStart, zeroEnd).
     let l = zeroRun u i in if l \<ge> 2 \<and> l > zeroEnd - zeroStart then (i, i + l) else (zeroStart, zeroEnd)) [0..<8] (255, 255)"

text \<open>The end of the run is never before its start.\<close>

function groupsText :: "(nat \<Rightarrow> nat) \<Rightarrow> nat \<Rightarrow> nat \<Rightarrow> nat \<Rightarrow> string" where
  "groupsText u zeroStart zeroEnd i =
     (if i < 8 then
        (if i = zeroStart then
           (if zeroEnd \<ge> 8 \<or> zeroEnd < i then ''::''
            else ''::'' @ hexText (u zeroEnd) @ groupsText u zeroStart zeroEnd (zeroEnd + 1))
         else (if i > 0 then '':'' else []) @ hexText (u i) @ groupsText u zeroStart zeroEnd (i + 1))
      else [])"
  by pat_completeness auto
termination groupsText
  by (relation "measure (\<lambda>(u, zs, ze, i). 8 - i)") auto

declare groupsText.simps [simp del]

definition zoneText :: "string \<Rightarrow> string" where
  "zoneText zone = (if zone \<noteq> [] then CHR ''%'' # zone else [])"

definition string6 :: "128 word \<Rightarrow> string" where
  "string6 a = (case zeroGroups (v6u16 a) of (zeroStart, zeroEnd) \<Rightarrow> groupsText (v6u16 a) zeroStart zeroEnd 0)"

fun addrString :: "addr \<Rightarrow> string" where
  "addrString AddrZero = ''invalid IP''"
| "addrString (Addr4 a) = string4 a"
| "addrString (Addr6 a zone) =
     (if addrIs4In6 (Addr6 a zone) then ''::ffff:'' @ string4 (ucast a) else string6 a) @ zoneText zone"

section \<open>Reading back IPv4\<close>

lemma code_eq: "c = d \<longleftrightarrow> code c = code d"
  by (metis char_of_char)

lemma digits_small: "n < 1000 \<Longrightarrow> digits n =
    (if n < 10 then [] else if n < 100 then [] else [char_of (48 + n div 100)])
    @ (if n < 10 then [] else [char_of (48 + n div 10 mod 10)]) @ [char_of (48 + n mod 10)]"
proof -
  assume n: "n < 1000"
  have d: "digits m = [char_of (48 + m)]" if "m < 10" for m using that by (subst digits.simps) simp
  have e: "digits m = digits (m div 10) @ [char_of (48 + m mod 10)]" if "\<not> m < 10" for m
    using that by (subst digits.simps) simp
  have "n div 10 div 10 = n div 100" by (simp flip: div_mult2_eq)
  then show ?thesis using n d e by auto
qed

text \<open>The digits of a number below 256 continue the field that was begun.\<close>

lemma parse_digits:
  assumes "n \<le> 255"
  shows "parseIPv4Fields (digits n @ x) b 0 0 fs = parseIPv4Fields x False n (length (digits n)) fs"
proof -
  define p q r where "p = n div 100" and "q = n div 10 mod 10" and "r = n mod 10"
  have "n div 10 div 10 = p" by (simp add: p_def flip: div_mult2_eq)
  then have n: "n = (p * 10 + q) * 10 + r" unfolding q_def r_def by (metis div_mult_mod_eq)
  have d: "p < 3" "q < 10" "r < 10" using assms by (auto simp: p_def q_def r_def)
  consider "n < 10" | "\<not> n < 10" "n < 100" | "\<not> n < 100" by linarith
  then show ?thesis
  proof cases
    case 1
    then have "digits n = [char_of (48 + n)]" by (subst digits.simps) simp
    with 1 show ?thesis by simp
  next
    case 2
    then have e: "digits n = [char_of (48 + q), char_of (48 + r)]" using digits_small [of n] by (simp add: q_def r_def)
    have "p = 0" "0 < q" using 2 by (auto simp: p_def q_def)
    with d n assms show ?thesis unfolding e by simp
  next
    case 3
    then have e: "digits n = [char_of (48 + p), char_of (48 + q), char_of (48 + r)]"
      using digits_small [of n] assms by (simp add: p_def q_def r_def)
    have "0 < p" using 3 by (auto simp: p_def)
    with d n assms show ?thesis unfolding e by simp
  qed
qed

lemma parse_dot: "x \<noteq> [] \<Longrightarrow> length fs \<noteq> 3 \<Longrightarrow>
    parseIPv4Fields (CHR ''.'' # x) False v k fs = parseIPv4Fields x True 0 0 (fs @ [of_nat v])"
  by (simp add: isDigit_def)

lemma nat_be4: "nat_be 4 v = [of_nat (v div 16777216 mod 256), of_nat (v div 65536 mod 256), of_nat (v div 256 mod 256), of_nat (v mod 256)]"
proof -
  have "(4 :: nat) = Suc (Suc (Suc (Suc 0)))" by simp
  moreover have "v div 256 div 256 = v div 65536" "v div 65536 div 256 = v div 16777216" by (simp_all flip: div_mult2_eq)
  ultimately show ?thesis by (simp only: nat_be.simps append.simps)
qed

lemma parse_string4: "parseIPv4Fields (string4 a) True 0 0 [] = Inr (As4 a)"
proof -
  obtain p q r s where b: "As4 a = [p, q, r, s]" using nat_be4 by (auto simp: As4_def)
  have l: "unat x \<le> 255" for x :: u8 using unat_byte_lt [of x] by linarith
  have "parseIPv4Fields (digits (unat p) @ CHR ''.'' # digits (unat q) @ CHR ''.'' # digits (unat r) @ CHR ''.'' # digits (unat s) @ []) True 0 0 []
      = Inr [p, q, r, s]"
    by (simp only: parse_digits [OF l] parse_dot digits_nonempty append_is_Nil_conv simp_thms list.size list.distinct append.simps) simp
  then show ?thesis by (simp add: string4_def b)
qed

lemma isDigit_plain: "isDigit c \<Longrightarrow> c \<notin> {CHR ''.'', CHR '':'', CHR ''%''}"
  by (auto simp: isDigit_def)

lemma find_digits: "find (\<lambda>c. c \<in> {CHR ''.'', CHR '':'', CHR ''%''}) (digits n @ x) = find (\<lambda>c. c \<in> {CHR ''.'', CHR '':'', CHR ''%''}) x"
  by (rule find_skip) (use digits_isDigit isDigit_plain in \<open>metis (no_types, lifting) list.pred_mono_strong\<close>)

lemma parse_addr4: "parseAddr0 (string4 a) = Inr (Addr4 a)"
proof -
  have "find (\<lambda>c. c \<in> {CHR ''.'', CHR '':'', CHR ''%''}) (string4 a) = Some CHR ''.''"
    unfolding string4_def Let_def by (simp only: find_digits) simp
  then show ?thesis by (simp add: parseAddr0_def parseIPv4_def parse_string4)
qed

section \<open>Reading back IPv6\<close>

lemma hexVal_hexChar [simp]: "d < 16 \<Longrightarrow> hexVal (hexChar d) = Some d"
  by (simp add: hexVal_def hexChar_def isDigit_def)

lemma hexScan_digits:
  assumes "list_all (\<lambda>d. d < 16) ds" and "acc < 16 ^ off" and "off + length ds \<le> 4"
  shows "hexScan (map hexChar ds @ x) off acc = hexScan x (off + length ds) (foldl (\<lambda>a d. a * 16 + d) acc ds)"
  using assms
proof (induction ds arbitrary: off acc)
  case (Cons d ds)
  have "acc * 16 + d < 16 ^ Suc off" using Cons.prems by (simp add: less_Suc_eq_le)
  moreover have "(16 :: nat) ^ Suc off \<le> 16 ^ 4" using Cons.prems by (intro power_increasing) simp_all
  ultimately have "acc * 16 + d < 16 ^ (off + 1)" "acc * 16 + d \<le> 65535" by simp_all
  with Cons show ?case by (simp add: Let_def)
qed simp

text \<open>The digits that \<^const>\<open>hexText\<close> prints.\<close>

definition nibbles :: "nat \<Rightarrow> nat list" where
  "nibbles x = (if x \<ge> 0x1000 then [x div 4096] else []) @ (if x \<ge> 0x100 then [x div 256 mod 16] else [])
     @ (if x \<ge> 0x10 then [x div 16 mod 16] else []) @ [x mod 16]"

lemma hexText_nibbles: "hexText x = map hexChar (nibbles x)"
  by (simp add: hexText_def nibbles_def)

lemma nibbles_value:
  assumes "x < 65536"
  shows "list_all (\<lambda>d. d < 16) (nibbles x)" "length (nibbles x) \<le> 4" "foldl (\<lambda>a d. a * 16 + d) 0 (nibbles x) = x"
    "nibbles x \<noteq> []"
proof -
  show "list_all (\<lambda>d. d < 16) (nibbles x)" using assms by (auto simp: nibbles_def)
  have e: "x div 16 div 16 = x div 256" "x div 256 div 16 = x div 4096" by (simp_all flip: div_mult2_eq)
  then have "((x div 4096 * 16 + x div 256 mod 16) * 16 + x div 16 mod 16) * 16 + x mod 16 = x"
    by (metis div_mult_mod_eq)
  then show "foldl (\<lambda>a d. a * 16 + d) 0 (nibbles x) = x" by (auto simp: nibbles_def)
qed (simp_all add: nibbles_def)

lemma hexScan_hexText:
  assumes "h < 65536" and "x = [] \<or> hexVal (hd x) = None"
  shows "hexScan (hexText h @ x) 0 0 = Inr (length (hexText h), h)"
proof -
  have "hexScan x n v = Inr (n, v)" for n v using assms(2) by (cases x) auto
  with hexScan_digits [OF nibbles_value(1) [OF assms(1)], of 0 0 x] nibbles_value [OF assms(1)]
  show ?thesis by (simp add: hexText_nibbles)
qed

definition groupBytes :: "nat \<Rightarrow> bytes" where
  "groupBytes h = [of_nat (h div 256), of_nat (h mod 256)]"

fun joinGroups :: "nat list \<Rightarrow> string" where
  "joinGroups [] = []"
| "joinGroups [h] = hexText h"
| "joinGroups (h # hs) = hexText h @ CHR '':'' # joinGroups hs"

lemma colon_noHex [simp]: "hexVal CHR '':'' = None"
  by (simp add: hexVal_def isDigit_def)

lemma hexText_ne [simp]: "hexText h \<noteq> []"
  by (simp add: hexText_def)

lemma hexText_hd: "h < 65536 \<Longrightarrow> hd (hexText h @ x) \<noteq> CHR '':''"
proof -
  assume h: "h < 65536"
  obtain d ds where n: "nibbles h = d # ds" using nibbles_value(4) [OF h] by (cases "nibbles h") auto
  then have "d < 16" using nibbles_value(1) [OF h] by simp
  then have "hexVal (hexChar d) \<noteq> None" by simp
  then show ?thesis using n by (auto simp: hexText_nibbles)
qed

lemma joinGroups_hd: "hs \<noteq> [] \<Longrightarrow> list_all (\<lambda>h. h < 65536) hs \<Longrightarrow> joinGroups hs \<noteq> [] \<and> hd (joinGroups hs @ x) \<noteq> CHR '':''"
  using hexText_hd by (cases hs rule: joinGroups.cases) auto

lemma parse_last:
  assumes "h < 65536" and "length ip < 16"
  shows "parseGroups (hexText h) ip e = Inr ([], ip @ groupBytes h, e)"
  using hexScan_hexText [OF assms(1), of "[]"] assms(2) by (subst parseGroups.simps) (simp add: groupBytes_def Let_def)

lemma parse_colon:
  assumes "h < 65536" and "length ip < 16" and "t \<noteq> []" and "hd t \<noteq> CHR '':''"
  shows "parseGroups (hexText h @ CHR '':'' # t) ip e = parseGroups t (ip @ groupBytes h) e"
  using hexScan_hexText [OF assms(1), of "CHR '':'' # t"] assms(2-4)
  by (subst parseGroups.simps) (simp add: groupBytes_def Let_def nth_append)

lemma parse_ellipsis:
  assumes "h < 65536" and "length ip < 16"
  shows "parseGroups (hexText h @ ''::'' @ t) ip None =
    (if t = [] then Inr ([], ip @ groupBytes h, Some (length ip + 2)) else parseGroups t (ip @ groupBytes h) (Some (length ip + 2)))"
  using hexScan_hexText [OF assms(1), of "''::'' @ t"] assms(2)
  by (subst parseGroups.simps) (simp add: groupBytes_def Let_def nth_append)

lemma length_groups [simp]: "length (concat (map groupBytes hs)) = 2 * length hs"
  by (induction hs) (simp_all add: groupBytes_def)

lemma parse_join:
  "hs \<noteq> [] \<Longrightarrow> list_all (\<lambda>h. h < 65536) hs \<Longrightarrow> length ip + 2 * length hs \<le> 16 \<Longrightarrow>
   parseGroups (joinGroups hs) ip e = Inr ([], ip @ concat (map groupBytes hs), e)"
proof (induction hs arbitrary: ip rule: joinGroups.induct)
  case (3 h h' hs)
  have "parseGroups (joinGroups (h # h' # hs)) ip e = parseGroups (joinGroups (h' # hs)) (ip @ groupBytes h) e"
    using parse_colon [of h ip "joinGroups (h' # hs)"] joinGroups_hd [of "h' # hs" "[]"] 3(3,4) by simp
  with 3 show ?case by (simp add: groupBytes_def)
qed (simp_all add: parse_last)

lemma parse_join_ellipsis:
  "hs \<noteq> [] \<Longrightarrow> list_all (\<lambda>h. h < 65536) hs \<Longrightarrow> length ip + 2 * length hs \<le> 16 \<Longrightarrow>
   parseGroups (joinGroups hs @ ''::'' @ t) ip None =
     (if t = [] then Inr ([], ip @ concat (map groupBytes hs), Some (length ip + 2 * length hs))
      else parseGroups t (ip @ concat (map groupBytes hs)) (Some (length ip + 2 * length hs)))"
proof (induction hs arbitrary: ip rule: joinGroups.induct)
  case (2 h)
  then show ?case using parse_ellipsis [of h ip t] by simp
next
  case (3 h h' hs)
  have "parseGroups (joinGroups (h # h' # hs) @ ''::'' @ t) ip None
      = parseGroups (joinGroups (h' # hs) @ ''::'' @ t) (ip @ groupBytes h) None"
  proof -
    have "h < 65536" "length ip < 16" "joinGroups (h' # hs) @ ''::'' @ t \<noteq> []" "hd (joinGroups (h' # hs) @ ''::'' @ t) \<noteq> CHR '':''"
      using joinGroups_hd [of "h' # hs" "[]"] 3(3,4) by simp_all
    from parse_colon [OF this] show ?thesis by simp
  qed
  moreover have "length (groupBytes h) = 2" by (simp add: groupBytes_def)
  ultimately show ?case using 3 by simp
qed simp

text \<open>The text of the groups, with and without an ellipsis.\<close>

lemma joinGroups_concat: "joinGroups (h # hs) = hexText h @ concat (map (\<lambda>h. CHR '':'' # hexText h) hs)"
  by (induction hs arbitrary: h) auto

definition groupText :: "(nat \<Rightarrow> nat) \<Rightarrow> nat \<Rightarrow> string" where
  "groupText u k = (if k > 0 then '':'' else []) @ hexText (u k)"

lemma groupsText_after:
  "zs < i \<or> 8 \<le> zs \<Longrightarrow> i \<le> 8 \<Longrightarrow> groupsText u zs ze i = concat (map (groupText u) [i..<8])"
proof (induction u zs ze i rule: groupsText.induct)
  case (1 u zs ze i)
  show ?case
  proof (cases "i < 8")
    case True
    then have "[i..<8] = i # [Suc i..<8]" by (rule upt_conv_Cons)
    with 1 True show ?thesis by (subst groupsText.simps) (auto simp: groupText_def [of u i])
  qed (use 1 in \<open>simp add: groupsText.simps\<close>)
qed

lemma groupsText_before:
  "i \<le> zs \<Longrightarrow> zs < 8 \<Longrightarrow> groupsText u zs ze i = concat (map (groupText u) [i..<zs]) @ groupsText u zs ze zs"
proof (induction u zs ze i rule: groupsText.induct)
  case (1 u zs ze i)
  show ?case
  proof (cases "i < zs")
    case True
    then have "[i..<zs] = i # [Suc i..<zs]" by (rule upt_conv_Cons)
    with 1 True show ?thesis by (subst groupsText.simps) (auto simp: groupText_def [of u i])
  qed (use 1 in simp)
qed

lemma joinGroups_groupText: "concat (map (groupText u) [0..<n]) = joinGroups (map u [0..<n])"
proof (cases n)
  case (Suc m)
  have "map (groupText u) [Suc 0..<n] = map (\<lambda>h. CHR '':'' # hexText h) (map u [Suc 0..<n])"
    by (simp add: groupText_def)
  moreover have "[0..<n] = 0 # [Suc 0..<n]" using Suc by (simp add: upt_conv_Cons)
  ultimately show ?thesis by (simp only: list.map concat.simps joinGroups_concat) (simp add: groupText_def)
qed simp

lemma groupsText_text:
  assumes "zs = 255 \<or> zs + 2 \<le> ze \<and> ze \<le> 8"
  shows "groupsText u zs ze 0 =
    (if zs = 255 then joinGroups (map u [0..<8]) else joinGroups (map u [0..<zs]) @ ''::'' @ joinGroups (map u [ze..<8]))"
proof (cases "zs = 255")
  case True
  then show ?thesis by (simp add: groupsText_after joinGroups_groupText)
next
  case False
  then have z: "zs + 2 \<le> ze" "ze \<le> 8" using assms by auto
  have "groupsText u zs ze zs = ''::'' @ joinGroups (map u [ze..<8])"
  proof (cases "ze = 8")
    case True
    then show ?thesis using z by (subst groupsText.simps) simp
  next
    case False
    then have e: "ze < 8" "[ze..<8] = ze # [Suc ze..<8]" using z by (simp_all add: upt_conv_Cons)
    have "groupsText u zs ze (ze + 1) = concat (map (groupText u) [Suc ze..<8])"
      using groupsText_after [of zs "Suc ze" u ze] z e by simp
    moreover have "map (groupText u) [Suc ze..<8] = map (\<lambda>h. CHR '':'' # hexText h) (map u [Suc ze..<8])"
      by (simp add: groupText_def)
    ultimately have "hexText (u ze) @ groupsText u zs ze (ze + 1) = joinGroups (map u [ze..<8])"
      by (simp only: e(2) list.map joinGroups_concat)
    then show ?thesis using z e by (subst groupsText.simps) simp
  qed
  with groupsText_before [of 0 zs u ze] z False show ?thesis by (simp add: joinGroups_groupText)
qed

lemma zeroRun_zero:
  assumes "i \<le> k" and "k < i + zeroRun u i"
  shows "u k = 0" "k < 8"
proof -
  let ?w = "takeWhile (\<lambda>j. u j = 0) [i..<8]"
  have m: "k - i < length ?w" using assms by (simp add: zeroRun_def)
  then have l: "k - i < length [i..<8]" using length_takeWhile_le [of "\<lambda>j. u j = 0" "[i..<8]"] by linarith
  have "?w ! (k - i) = k" using takeWhile_nth [OF m] l assms by simp
  moreover have "?w ! (k - i) \<in> set ?w" using m by (rule nth_mem)
  ultimately show "u k = 0" by (metis set_takeWhileD)
  show "k < 8" using l assms by simp
qed

definition runOk :: "(nat \<Rightarrow> nat) \<Rightarrow> nat \<times> nat \<Rightarrow> bool" where
  "runOk u z \<longleftrightarrow> z = (255, 255) \<or> (case z of (zs, ze) \<Rightarrow>
     zs + 2 \<le> ze \<and> ze \<le> 8 \<and> (\<forall>k. zs \<le> k \<and> k < ze \<longrightarrow> u k = 0))"

lemma zeroGroups_run: "runOk u (zeroGroups u)"
  unfolding zeroGroups_def
proof (rule fold_invariant [where Q = "\<lambda>i. True"])
  fix i :: nat and z :: "nat \<times> nat"
  assume z: "runOk u z"
  obtain zs ze where e: "z = (zs, ze)" by fastforce
  have n: "runOk u (i, i + zeroRun u i)" if "2 \<le> zeroRun u i"
  proof -
    have "i + zeroRun u i \<le> 8" using zeroRun_zero(2) [of i "i + zeroRun u i - 1" u] that by linarith
    then show ?thesis using zeroRun_zero(1) [of i _ u] that by (auto simp: runOk_def)
  qed
  show "runOk u (case z of (zs, ze) \<Rightarrow> let l = zeroRun u i in
       if l \<ge> 2 \<and> l > ze - zs then (i, i + l) else (zs, ze))"
    using z n unfolding e by (simp only: prod.case Let_def split: if_split) blast
qed (simp_all add: runOk_def)

text \<open>The groups of an address are its bytes, two at a time.\<close>

lemma nat_be_groups: "nat_be (Suc (Suc k)) v = nat_be k (v div 65536) @ groupBytes (v mod 65536)"
proof -
  have "v div 256 div 256 = v div 65536" by (simp flip: div_mult2_eq)
  moreover have "v mod 65536 div 256 = v div 256 mod 256" "v mod 65536 mod 256 = v mod 256"
    using mod_mult2_eq [of v 256 256] by (simp_all add: mod_mod_cancel)
  ultimately show ?thesis by (simp add: groupBytes_def)
qed

lemma nat_be_16: "nat_be 16 v = concat (map groupBytes (map (\<lambda>i. v div 65536 ^ (7 - i) mod 65536) [0..<8]))"
proof -
  have n: "(16 :: nat) = Suc (Suc (Suc (Suc (Suc (Suc (Suc (Suc (Suc (Suc (Suc (Suc (Suc (Suc (Suc (Suc 0)))))))))))))))" by simp
  have l: "[0..<8] = [0, 1, 2, 3, 4, 5, 6, 7 :: nat]" by (simp add: upt_rec)
  show ?thesis unfolding n l by (simp only: nat_be_groups) (simp add: div_mult2_eq [symmetric])
qed

abbreviation groupsOf :: "128 word \<Rightarrow> nat list" where
  "groupsOf a \<equiv> map (v6u16 a) [0..<8]"

lemma AddrFrom16_groups: "AddrFrom16 (concat (map groupBytes (groupsOf a))) = Addr6 a []"
proof -
  have "groupsOf a = map (\<lambda>i. unat a div 65536 ^ (7 - i) mod 65536) [0..<8]" by (simp add: v6u16_def)
  then have "concat (map groupBytes (groupsOf a)) = As16 (Addr6 a [])" by (simp only: nat_be_16 As16.simps)
  then show ?thesis by (simp only: AddrFrom16_As16)
qed

lemma groups_small: "list_all (\<lambda>h. h < 65536) (map (v6u16 a) is)"
  by (simp add: list_all_iff v6u16_def)

text \<open>Groups with a run of zeros left out are completed to the whole address.\<close>

lemma groups_expand:
  assumes "zs + 2 \<le> ze" and "ze \<le> 8" and "\<And>k. zs \<le> k \<Longrightarrow> k < ze \<Longrightarrow> u k = 0"
  shows "concat (map groupBytes (map u [0..<8])) = concat (map groupBytes (map u [0..<zs]))
     @ replicate (16 - (2 * zs + 2 * (8 - ze))) 0 @ concat (map groupBytes (map u [ze..<8]))"
proof -
  have u: "[i..<k] = [i..<j] @ [j..<k]" if "i \<le> j" "j \<le> k" for i j k :: nat
    using that by (metis le_add_diff_inverse upt_add_eq_append)
  have "[0..<8] = [0..<zs] @ [zs..<ze] @ [ze..<8]"
    using u [of 0 zs 8] u [of zs ze 8] assms(1,2) by simp
  moreover have "map u [zs..<ze] = replicate (ze - zs) 0"
    using assms(3) by (intro replicate_eqI) auto
  moreover have "concat (map groupBytes (replicate n 0)) = replicate (2 * n) 0" for n
    by (induction n) (simp_all add: groupBytes_def)
  moreover have "16 - (2 * zs + 2 * (8 - ze)) = 2 * (ze - zs)" using assms by simp
  ultimately show ?thesis by (simp only: map_append concat_append)
qed

lemma percent_free: "CHR ''%'' \<notin> set (hexText h)" if "h < 65536"
proof -
  have "c \<in> set (hexText h) \<Longrightarrow> hexVal c \<noteq> None" for c
    using nibbles_value(1) [OF that] by (auto simp: hexText_nibbles list_all_iff)
  moreover have "hexVal CHR ''%'' = None" by (simp add: hexVal_def isDigit_def)
  ultimately show ?thesis by metis
qed

lemma percent_free_join: "list_all (\<lambda>h. h < 65536) hs \<Longrightarrow> CHR ''%'' \<notin> set (joinGroups hs)"
  by (induction hs rule: joinGroups.induct) (auto dest: percent_free)

text \<open>The zone is split off before anything else.\<close>

lemma zone_split:
  assumes "CHR ''%'' \<notin> set s"
  shows "takeWhile (\<lambda>c. c \<noteq> CHR ''%'') (s @ zoneText z) = s" "drop (length s + 1) (s @ zoneText z) = z"
    "\<not> (length s < length (s @ zoneText z) \<and> z = [])"
  using assms by (auto simp: zoneText_def takeWhile_append takeWhile_eq_all_conv [THEN iffD2])

lemma parse_groups6:
  assumes "list_all (\<lambda>h. h < 65536) hs" and "length hs = 8"
  shows "parseIPv6 (joinGroups hs @ zoneText z) = Inr (WithZone z (AddrFrom16 (concat (map groupBytes hs))))"
proof -
  have ne: "hs \<noteq> []" using assms(2) by auto
  have "take 2 (joinGroups hs) \<noteq> ''::''"
    using joinGroups_hd [OF ne assms(1), of "[]"] by (cases "joinGroups hs") auto
  with zone_split [OF percent_free_join [OF assms(1)], of z] parse_join [OF ne assms(1), of "[]" None] assms(2)
  show ?thesis by (simp only: parseIPv6_def Let_def) (simp add: finishIPv6_def)
qed

lemma parse_elided6:
  assumes "list_all (\<lambda>h. h < 65536) hs" and "list_all (\<lambda>h. h < 65536) ks" and "length hs + length ks \<le> 6"
  shows "parseIPv6 (joinGroups hs @ ''::'' @ joinGroups ks @ zoneText z) = Inr (WithZone z (AddrFrom16
    (concat (map groupBytes hs) @ replicate (16 - (2 * length hs + 2 * length ks)) 0 @ concat (map groupBytes ks))))"
proof -
  let ?s = "joinGroups hs @ ''::'' @ joinGroups ks"
  have pf: "CHR ''%'' \<notin> set ?s" using percent_free_join assms by simp
  have sp: "takeWhile (\<lambda>c. c \<noteq> CHR ''%'') (?s @ zoneText z) = ?s" "drop (length ?s + 1) (?s @ zoneText z) = z"
    "\<not> (length ?s < length (?s @ zoneText z) \<and> z = [])" using zone_split [OF pf] by blast+
  have nil: "joinGroups ks = [] \<longleftrightarrow> ks = []" using joinGroups_hd [OF _ assms(2), of "[]"] by auto
  have ks: "parseGroups (joinGroups ks) ip e = Inr ([], ip @ concat (map groupBytes ks), e)"
    if "ks \<noteq> []" "length ip + 2 * length ks \<le> 16" for ip e using parse_join [OF that(1) assms(2) that(2)] .
  have "parseIPv6 (?s @ zoneText z) = Inr (WithZone z (AddrFrom16
    (concat (map groupBytes hs) @ replicate (16 - (2 * length hs + 2 * length ks)) 0 @ concat (map groupBytes ks))))"
  proof (cases "hs = []")
    case True
    then have "take 2 ?s = ''::''" "drop 2 ?s = joinGroups ks" by simp_all
    with sp nil ks [of "[]" "Some 0"] assms(3) True show ?thesis
      by (cases "ks = []") (simp_all only: parseIPv6_def Let_def, simp_all add: finishIPv6_def)
  next
    case False
    have "take 2 ?s \<noteq> ''::''" using joinGroups_hd [OF False assms(1), of "[]"] by (cases "joinGroups hs") auto
    moreover have "parseGroups ?s [] None = Inr ([], concat (map groupBytes hs) @ concat (map groupBytes ks), Some (2 * length hs))"
      using parse_join_ellipsis [OF False assms(1), of "[]" "joinGroups ks"] assms(3) nil
        ks [of "concat (map groupBytes hs)" "Some (2 * length hs)"] by (cases "ks = []") simp_all
    ultimately show ?thesis using sp assms(3) by (simp only: parseIPv6_def Let_def) (simp add: finishIPv6_def)
  qed
  then show ?thesis by simp
qed

text \<open>What is printed is all eight groups, or the groups around a run of zeros.\<close>

lemma string6_cases:
  obtains (full) "string6 a = joinGroups (groupsOf a)"
    | (elided) zs ze where "zs + 2 \<le> ze" "ze \<le> 8" "\<And>k. zs \<le> k \<Longrightarrow> k < ze \<Longrightarrow> v6u16 a k = 0"
        "string6 a = joinGroups (map (v6u16 a) [0..<zs]) @ ''::'' @ joinGroups (map (v6u16 a) [ze..<8])"
proof -
  obtain zs ze where g: "zeroGroups (v6u16 a) = (zs, ze)" by fastforce
  then have r: "zs = 255 \<and> ze = 255 \<or> zs + 2 \<le> ze \<and> ze \<le> 8 \<and> (\<forall>k. zs \<le> k \<and> k < ze \<longrightarrow> v6u16 a k = 0)"
    using zeroGroups_run [of "v6u16 a"] by (simp add: runOk_def)
  have t: "string6 a = (if zs = 255 then joinGroups (groupsOf a)
      else joinGroups (map (v6u16 a) [0..<zs]) @ ''::'' @ joinGroups (map (v6u16 a) [ze..<8]))"
    using groupsText_text [of zs ze "v6u16 a"] g r by (auto simp: string6_def)
  show thesis
  proof (cases "zs = 255")
    case True
    then show ?thesis using full t by simp
  next
    case False
    with r t show ?thesis by (intro elided [of zs ze]) auto
  qed
qed

lemma parse_string6: "parseIPv6 (string6 a @ zoneText z) = Inr (Addr6 a z)"
proof (cases a rule: string6_cases)
  case full
  then show ?thesis
    using parse_groups6 [OF groups_small [of a "[0..<8]"], of z]
    by (simp only: AddrFrom16_groups length_map length_upt) (simp add: WithZone_def)
next
  case (elided zs ze)
  have "length (map (v6u16 a) [0..<zs]) + length (map (v6u16 a) [ze..<8]) \<le> 6" using elided(1,2) by simp
  note p = parse_elided6 [OF groups_small [of a "[0..<zs]"] groups_small [of a "[ze..<8]"] this, of z]
  have "string6 a @ zoneText z = joinGroups (map (v6u16 a) [0..<zs]) @ ''::'' @ joinGroups (map (v6u16 a) [ze..<8]) @ zoneText z"
    using elided(4) by simp
  then have "parseIPv6 (string6 a @ zoneText z) = Inr (WithZone z (AddrFrom16 (concat (map groupBytes (groupsOf a)))))"
    using p by (simp only: length_map length_upt diff_zero groups_expand [OF elided(1-3), symmetric])
  then show ?thesis by (simp only: AddrFrom16_groups) (simp add: WithZone_def)
qed

text \<open>The IPv4-mapped form.\<close>

lemma AddrFrom16_mapped:
  assumes "drop_bit 32 a = (0xffff :: 128 word)"
  shows "AddrFrom16 (replicate 10 0 @ [0xff, 0xff] @ As4 (ucast a)) = Addr6 a []"
proof -
  have d: "unat a div 2 ^ 32 = 0xffff"
  proof -
    have "unat (drop_bit 32 a) = unat a div 2 ^ 32" by (simp add: unat_div_distrib drop_bit_eq_div)
    with assms show ?thesis by simp
  qed
  have m: "unat (ucast a :: 32 word) = unat a mod 2 ^ 32" by (simp add: unsigned_ucast_eq take_bit_eq_mod)
  have z: "be_nat (replicate n 0) = 0" for n by (induction n) (simp_all add: be_nat_def flip: replicate_append_same)
  have "be_nat (As4 (ucast a)) = unat a mod 2 ^ 32"
    using unat_lt_32 [of "ucast a"] m by (simp add: As4_def be_nat_nat_be)
  then have "be_nat (replicate 10 0 @ [0xff, 0xff] @ As4 (ucast a)) = 0xffff * 2 ^ 32 + unat a mod 2 ^ 32"
    by (simp only: be_nat_append z length_append length_As4) (simp add: be_nat_def)
  also have "\<dots> = unat a" using d by (metis div_mult_mod_eq)
  finally show ?thesis by (simp add: AddrFrom16_def)
qed

lemma digits_hexChar:
  assumes "n \<le> 255"
  obtains ds where "digits n = map hexChar ds" "list_all (\<lambda>d. d < 16) ds" "length ds \<le> 4"
proof -
  have c: "hexChar d = char_of (48 + d)" if "d < 10" for d using that by (simp add: hexChar_def)
  have m: "k mod 10 < (16 :: nat)" for k
  proof -
    have "k mod 10 < 10" by simp
    then show ?thesis by linarith
  qed
  have h: "n div 100 < 10" using assms by auto
  let ?ds = "(if n < 10 then [] else if n < 100 then [] else [n div 100]) @ (if n < 10 then [] else [n div 10 mod 10]) @ [n mod 10]"
  have "digits n = map hexChar ?ds" using digits_small [of n] assms h by (simp add: c)
  moreover have "list_all (\<lambda>d. d < 16) ?ds" using h m by simp
  ultimately show thesis by (rule that) simp
qed

lemma hexScan_digits10:
  assumes "n \<le> 255"
  shows "\<exists>v. hexScan (digits n @ CHR ''.'' # x) 0 0 = Inr (length (digits n), v)"
proof -
  obtain ds where d: "digits n = map hexChar ds" "list_all (\<lambda>d. d < 16) ds" "length ds \<le> 4"
    using digits_hexChar [OF assms] .
  have "hexVal CHR ''.'' = None" by (simp add: hexVal_def isDigit_def)
  with hexScan_digits [OF d(2), of 0 0 "CHR ''.'' # x"] d show ?thesis by simp
qed

lemma string4_first: "\<exists>n x. n \<le> 255 \<and> string4 w = digits n @ CHR ''.'' # x"
proof (intro exI conjI)
  show "unat (As4 w ! 0) \<le> 255" using unat_byte_lt [of "As4 w ! 0"] by linarith
  show "string4 w = digits (unat (As4 w ! 0)) @ CHR ''.'' # digits (unat (As4 w ! 1)) @ ''.'' @ digits (unat (As4 w ! 2)) @ ''.''
      @ digits (unat (As4 w ! 3))" by (simp add: string4_def Let_def)
qed

lemma parse_mapped:
  assumes "length ip \<le> 12"
  shows "parseGroups (string4 w) ip (Some e) = Inr ([], ip @ As4 w, Some e)"
proof -
  obtain n x where w: "n \<le> 255" "string4 w = digits n @ CHR ''.'' # x" using string4_first by blast
  obtain v where "hexScan (string4 w) 0 0 = Inr (length (digits n), v)" using hexScan_digits10 [OF w(1), of x] w(2) by auto
  moreover have "length (digits n) < length (string4 w)" "string4 w ! length (digits n) = CHR ''.''" using w(2) by simp_all
  ultimately show ?thesis using assms by (subst parseGroups.simps) (simp add: parse_string4)
qed

lemma string4_chars: "c \<in> set (string4 w) \<Longrightarrow> isDigit c \<or> c = CHR ''.''"
  using digits_isDigit by (auto simp: string4_def Let_def list_all_iff)

lemma parse_string4In6:
  assumes "drop_bit 32 a = (0xffff :: 128 word)"
  shows "parseIPv6 (''::ffff:'' @ string4 (ucast a) @ zoneText z) = Inr (Addr6 a z)"
proof -
  let ?s = "''::ffff:'' @ string4 (ucast a)"
  have "CHR ''%'' \<notin> set ?s" using string4_chars [of "CHR ''%''" "ucast a"] by (auto simp: isDigit_def)
  note sp = zone_split [OF this, of z]
  have t: "take 2 ?s = ''::''" "drop 2 ?s = hexText 0xffff @ CHR '':'' # string4 (ucast a)"
    by (simp_all add: hexText_def hexChar_def char_of_def bit_simps)
  obtain n x where w: "string4 (ucast a) = digits n @ CHR ''.'' # x" using string4_first by blast
  obtain c t where "digits n = c # t" using digits_nonempty [of n] by (cases "digits n") blast+
  then have "string4 (ucast a) \<noteq> []" "hd (string4 (ucast a)) \<noteq> CHR '':''"
    using w digits_isDigit [of n] isDigit_plain [of c] by auto
  then have "parseGroups (drop 2 ?s) [] (Some 0) = Inr ([], [0xff, 0xff] @ As4 (ucast a), Some 0)"
    unfolding t(2) using parse_colon [of "0xffff" "[]" "string4 (ucast a)" "Some 0"] parse_mapped [of "[0xff, 0xff]" "ucast a" 0]
    by (simp add: groupBytes_def)
  then have "parseIPv6 (?s @ zoneText z) = Inr (WithZone z (AddrFrom16 (replicate 10 0 @ [0xff, 0xff] @ As4 (ucast a))))"
    using sp t by (simp only: parseIPv6_def Let_def) (simp add: finishIPv6_def)
  then show ?thesis by (simp only: AddrFrom16_mapped [OF assms] append_assoc) (simp add: WithZone_def)
qed

section \<open>Reading back any address\<close>

abbreviation special :: "char \<Rightarrow> bool" where
  "special \<equiv> \<lambda>c. c \<in> {CHR ''.'', CHR '':'', CHR ''%''}"

lemma hexVal_plain: "hexVal c \<noteq> None \<Longrightarrow> \<not> special c"
  by (auto simp: hexVal_def isDigit_def)

lemma find_hexText: "h < 65536 \<Longrightarrow> find special (hexText h @ x) = find special x"
proof (rule find_skip)
  assume "h < 65536"
  with nibbles_value(1) [of h] hexVal_plain show "list_all (\<lambda>c. \<not> special c) (hexText h)"
    by (auto simp: hexText_nibbles list_all_iff)
qed

lemma find_string6: "find special (string6 a @ x) = Some CHR '':''"
proof -
  have g: "find special (joinGroups hs @ y) = (if length hs < 2 then find special y else Some CHR '':'')"
    if "list_all (\<lambda>h. h < 65536) hs" for hs y
    using that by (cases hs rule: joinGroups.cases) (simp_all add: find_hexText [simplified])
  show ?thesis
    by (cases a rule: string6_cases) (simp_all add: g [OF groups_small, simplified])
qed

lemma parse_addrString: "addrIsValid a \<Longrightarrow> parseAddr0 (addrString a) = Inr a"
proof (cases a)
  case (Addr6 w z)
  then show ?thesis
    using find_string6 [of w "zoneText z"] parse_string6 [of w z] parse_string4In6 [of w z]
    by (simp add: parseAddr0_def addrIs4In6_def)
qed (simp_all add: parse_addr4 addrIsValid_def)

end
