(* ===== verification/Runtime.thy ===== *)
theory Runtime
  imports ResolveProps EmbeddedData Netip
begin

text \<open>
  Creating a \<open>Runtime\<close> and its instances (\<open>runtime.go\<close>, \<open>module.go\<close>): the checks and defaults of
  \<open>NewRuntime\<close>, the memory limit in wasm pages, \<open>newModuleInstance\<close>, \<open>bindExports\<close>
  and \<open>newFullInstance\<close>. The
  concurrency of creation with closing is the subject of \<open>Registry\<close>; here the outcomes of those races
  (closed at registration, swept before publication) are inputs, as are the results of wazero.
\<close>

section \<open>NewRuntime\<close>

record config =
  MemoryLimit :: i64
  TrustAnchors :: bytes
  RootHints :: "string list"

text \<open>
  The table of Unicode's printable runes that \<open>%q\<close> consults, and the errors of instantiating the host modules
  and of compiling the module.
\<close>

record rtenv =
  isPrint :: "nat \<Rightarrow> bool"
  hostModulesErr :: "goerr option"
  compileErr :: "goerr option"

record runtime =
  rtPages :: u32
  rtAnchors :: bytes
  rtHints :: "string list"

fun checkHints :: "rtenv \<Rightarrow> string list \<Rightarrow> goerr option" where
  "checkHints V [] = None"
| "checkHints V (a # as) =
     (case ParseAddr (isPrint V) a of
        Inl err \<Rightarrow> Some (ErrNew (''unbound: invalid RootHints address '' @ Quote (isPrint V) a @ '': '' @ err))
      | Inr ip \<Rightarrow>
          if \<not> egressAllowed (AddrPortFrom ip 53)
          then Some (ErrNew (''unbound: RootHints address '' @ Quote (isPrint V) a @ '' is not a public unicast address''))
          else checkHints V as)"

text \<open>Go's division of signed integers rounds towards zero; the sum wraps at 64 bits.\<close>

definition goQuot :: "int \<Rightarrow> int \<Rightarrow> int" where
  "goQuot a b = (if a \<ge> 0 then a div b else - ((- a) div b))"

definition memoryPages :: "i64 \<Rightarrow> u32" where
  "memoryPages limit =
     (if sint limit > 0 then word_of_int (min (goQuot (sint (limit + 65536 - 1)) 65536) 65536) else 1024)"

definition NewRuntime :: "rtenv \<Rightarrow> config \<Rightarrow> goerr + runtime" where
  "NewRuntime V cfg =
     (case checkHints V (RootHints cfg) of Some err \<Rightarrow> Inl err
      | None \<Rightarrow>
          (let anchors = (if length (TrustAnchors cfg) = 0 then defaultTrustAnchors else TrustAnchors cfg);
               pages = memoryPages (MemoryLimit cfg)
           in case hostModulesErr V of
                Some err \<Rightarrow> Inl (ErrWrapf ''unbound: instantiate host ABI: '' err)
              | None \<Rightarrow>
                  (case compileErr V of Some err \<Rightarrow> Inl (ErrWrapf ''unbound: compile module: '' err)
                   | None \<Rightarrow> Inr \<lparr>rtPages = pages, rtAnchors = anchors, rtHints = RootHints cfg\<rparr>)))"

section \<open>Instances\<close>

definition requiredExports :: "string list" where
  "requiredExports = [''unbound_wasm_abi_version'', ''alloc'', ''dealloc'', ''init'', ''warmup'', ''reseed'',
     ''resolve_start'', ''io_ready'', ''timer_fired'', ''result_get'', ''resolve_cancel'']"

definition bindExports :: "string list \<Rightarrow> goerr option" where
  "bindExports exported =
     (case find (\<lambda>n. n \<notin> set exported) requiredExports of None \<Rightarrow> None
      | Some n \<Rightarrow> Some (ErrNew (''unbound: module lacks required export '' @ [CHR 0x22] @ n @ [CHR 0x22])))"

text \<open>
  What instantiation meets: whether the runtime was closed at registration, the error of wazero or the import
  calls of the start function and the memory it leaves, whether a concurrent \<open>Close\<close> swept the state before
  the module was published, and the module's exports. The allocator and the start functions that
  \<open>newModuleInstance\<close> passes on determine the memory and the calls: a clone starts from the mapped image.
\<close>

record ('m, 'pub) mienv =
  miClosed :: bool
  miErr :: "goerr option"
  miMem :: 'm
  miStart :: "('pub abienv \<times> ('m \<Rightarrow> 'm) \<times> guestCall) list"
  miAfter :: "'m \<Rightarrow> 'm"
  miSwept :: bool
  miExports :: "string list"

definition newInst :: "istate \<Rightarrow> 'm \<Rightarrow> 'm inst" where
  "newInst s m = \<lparr>iState = s, iMem = m, iClosed = False, iDead = False, iRegistered = True, iTrace = [], iTick = 0\<rparr>"

text \<open>The instance comes with an error when it was created and closed again.\<close>

definition newModuleInstance :: "'m memops \<Rightarrow> ('m, 'pub) mienv \<Rightarrow> 'm inst option \<times> goerr option" where
  "newModuleInstance M V =
     (if miClosed V then (None, Some (ErrNew ''unbound: closed runtime''))
      else case miErr V of
        Some err \<Rightarrow> (None, Some (ErrWrapf ''unbound: instantiate module: '' err))
      | None \<Rightarrow>
          if miSwept V then (None, Some (ErrNew ''unbound: closed runtime''))
          else case guestRun M (miStart V) (miMem V) newInstanceState of
            (s, m) \<Rightarrow>
              (let i = newInst s (miAfter V m) in
               case bindExports (miExports V) of
                 Some err \<Rightarrow> (Some (instClose i), Some err)
               | None \<Rightarrow> (Some i, None)))"

definition hintBytes :: "string list \<Rightarrow> bytes" where
  "hintBytes hints = (if length hints > 0
     then bytes_of_string (concat (map (\<lambda>h. h @ [CHR 0x0A]) hints)) else [])"

definition newFullInstance :: "('m, 'pub, 'p) ienv \<Rightarrow> ('m, 'pub) mienv \<Rightarrow> bool \<Rightarrow> runtime \<Rightarrow>
    'm inst option \<times> goerr option" where
  "newFullInstance E V disableIPv6 r =
     (case newModuleInstance (ieMem E) V of
        (Some i, None) \<Rightarrow>
          (case checkABIVersion E i of
             (i, Some err) \<Rightarrow> (Some (instClose i), Some err)
           | (i, None) \<Rightarrow>
               (let conf = (if disableIPv6 then defaultCanonicalConfig @ textLines [''do-ip6:=no'']
                            else defaultCanonicalConfig)
                in case initialize E conf (rtAnchors r) (hintBytes (rtHints r)) i of
                     (i, Some err) \<Rightarrow> (Some (instClose i), Some err)
                   | (i, None) \<Rightarrow> (Some i, None)))
      | (i, err) \<Rightarrow> (i, err))"

section \<open>The memory limit\<close>

lemma goQuot_ceil:
  assumes "0 \<le> a + 65535"
  shows "a \<le> 65536 * goQuot (a + 65535) 65536" "65536 * goQuot (a + 65535) 65536 < a + 65536"
proof -
  have "65536 * ((a + 65535) div 65536) + (a + 65535) mod 65536 = a + 65535" by simp
  moreover have "0 \<le> (a + 65535) mod 65536" "(a + 65535) mod 65536 < 65536" by simp_all
  ultimately show "a \<le> 65536 * goQuot (a + 65535) 65536" "65536 * goQuot (a + 65535) 65536 < a + 65536"
    using assms unfolding goQuot_def by (simp_all del: mult_div_mod_eq)
qed

lemma sint_limit:
  assumes "0 < sint limit"
  shows "sint (limit + 65536 - 1 :: i64)
    = (if sint limit \<le> 2 ^ 63 - 65536 then sint limit + 65535 else sint limit + 65535 - 2 ^ 64)"
proof -
  have l: "sint limit < 2 ^ 63" using sint_lt [of limit] by simp
  have e: "limit + 65536 - 1 = word_of_int (sint limit + 65535)" by simp
  have "sint (limit + 65536 - 1) = signed_take_bit 63 (sint limit + 65535)"
    unfolding e sint_sbintrunc' by simp
  also have "\<dots> = (sint limit + 65535 + 2 ^ 63) mod 2 ^ 64 - 2 ^ 63"
    by (simp add: signed_take_bit_eq_take_bit_shift take_bit_eq_mod)
  also have "\<dots> = (if sint limit \<le> 2 ^ 63 - 65536 then sint limit + 65535 else sint limit + 65535 - 2 ^ 64)"
  proof (cases "sint limit \<le> 2 ^ 63 - 65536")
    case True
    with assms show ?thesis by (simp add: mod_pos_pos_trivial)
  next
    case False
    have "(sint limit + 65535 + 2 ^ 63) mod 2 ^ 64 = sint limit + 65535 + 2 ^ 63 - 2 ^ 64"
    proof -
      have "(sint limit + 65535 + 2 ^ 63 - 2 ^ 64) mod 2 ^ 64 = sint limit + 65535 + 2 ^ 63 - 2 ^ 64"
        using False l by (intro mod_pos_pos_trivial) simp_all
      then show ?thesis by (simp only: minus_mod_self2)
    qed
    with False show ?thesis by simp
  qed
  finally show ?thesis .
qed

text \<open>The pages for a limit: rounded up and capped, or, where the sum overflows, at most one.\<close>

lemma memoryPages_fits:
  assumes "0 < sint limit" and "sint limit \<le> 2 ^ 63 - 65536"
  shows "uint (memoryPages limit) = min (goQuot (sint limit + 65535) 65536) 65536"
proof -
  have "0 \<le> goQuot (sint limit + 65535) 65536" using assms by (simp add: goQuot_def)
  then have "0 \<le> min (goQuot (sint limit + 65535) 65536) 65536" "min (goQuot (sint limit + 65535) 65536) 65536 < 2 ^ 32"
    by simp_all
  then show ?thesis
    unfolding memoryPages_def sint_limit [OF assms(1)]
    using assms by (simp add: unsigned_of_int take_bit_eq_mod mod_pos_pos_trivial)
qed

lemma memoryPages_overflow:
  assumes "2 ^ 63 - 65536 < sint limit"
  shows "uint (memoryPages limit) \<le> 1"
proof -
  have l: "sint limit < 2 ^ 63" using sint_lt [of limit] by simp
  define a where "a = - (sint limit + 65535 - 2 ^ 64)"
  define q where "q = a div 65536"
  have a: "65536 * q + a mod 65536 = a" "0 \<le> a mod 65536" "a mod 65536 < 65536" by (simp_all add: q_def)
  have b: "2 ^ 63 - 65535 < a" "a \<le> 2 ^ 63" using assms l by (simp_all add: a_def)
  have q: "q = 2 ^ 47 - 1 \<or> q = 2 ^ 47" using a b by simp arith
  have "sint (limit + 65536 - 1) = - a"
    using assms sint_limit [of limit] unfolding a_def by simp
  then have "goQuot (sint (limit + 65536 - 1)) 65536 = - q"
    using b by (simp only: goQuot_def q_def) simp
  then have "uint (memoryPages limit) = (- q) mod 2 ^ 32"
    using assms q by (auto simp: memoryPages_def unsigned_of_int take_bit_eq_mod)
  with q show ?thesis by auto
qed

section \<open>Creation\<close>

lemma checkHints_None: "checkHints V hs = None \<longleftrightarrow>
    list_all (\<lambda>h. \<exists>ip. parseAddr0 h = Inr ip \<and> egressAllowed (AddrPortFrom ip 53)) hs"
  by (induction hs) (auto simp: ParseAddr_def split: sum.splits)

lemma parse_public_dns: "parseAddr0 ''8.8.8.8'' = Inr (ip4 8 8 8 8)"
  by (simp add: parseAddr0_def parseIPv4_def isDigit_def AddrFrom4_def be_nat_def ip4_def)

lemma defaultTrustAnchors_nonempty: "defaultTrustAnchors \<noteq> []"
  by (simp add: defaultTrustAnchors_def trustAnchorLines_def textLines_def)

lemma newFullInstance_closed:
  assumes "newFullInstance E V d r = (Some i, Some err)"
  shows "iClosed i"
proof -
  have c: "iClosed (instClose j)" for j :: "'a inst" by (simp add: instClose_def)
  obtain oi e where m: "newModuleInstance (ieMem E) V = (oi, e)" by fastforce
  have mc: "e = None \<or> oi = None \<or> (\<exists>j. oi = Some (instClose j))"
    using m by (auto simp: newModuleInstance_def Let_def split: if_splits option.splits prod.splits)
  show ?thesis
  proof (cases "oi = None \<or> e \<noteq> None")
    case True
    with assms m mc c show ?thesis by (auto simp: newFullInstance_def split: option.splits)
  next
    case False
    then obtain j where j: "oi = Some j" "e = None" by auto
    obtain j1 e1 where a: "checkABIVersion E j = (j1, e1)" by fastforce
    obtain j2 e2 where b: "initialize E (if d then defaultCanonicalConfig @ textLines [''do-ip6:=no'']
        else defaultCanonicalConfig) (rtAnchors r) (hintBytes (rtHints r)) j1 = (j2, e2)" by fastforce
    show ?thesis using assms m j a b c by (cases e1; cases e2) (auto simp: newFullInstance_def Let_def)
  qed
qed

text \<open>A new instance is reached by steps of the interleaving model from the initial state.\<close>

lemma reachable_trans: "reachable (s, Idle) \<Longrightarrow> steps (s, Idle) (s', Idle) \<Longrightarrow> reachable (s', Idle)"
  by (auto simp: reachable_def intro: rtranclp_trans)

lemma reachable_close: "reachable (iState i, Idle) \<Longrightarrow> reachable (iState (instClose i), Idle)"
  using reachable_trans [OF _ shutdown_steps] by (simp add: instClose_def stateClose_def)

lemma newModuleInstance_reachable:
  assumes "list_all (\<lambda>(A, g, c). replay (abiHost A) = None) (miStart V)"
    and "newModuleInstance M V = (Some i, e)"
  shows "reachable (iState i, Idle)"
proof -
  let ?j = "newInst (fst (guestRun M (miStart V) (miMem V) newInstanceState))
     (miAfter V (snd (guestRun M (miStart V) (miMem V) newInstanceState)))"
  have "reachable (iState ?j, Idle)"
    using guestRun_steps [OF assms(1)] by (simp add: reachable_def newInst_def)
  moreover have "i = ?j \<or> i = instClose ?j"
    using assms(2) by (auto simp: newModuleInstance_def Let_def case_prod_unfold split: if_splits option.splits)
  ultimately show ?thesis using reachable_close by metis
qed

lemma newFullInstance_reachable:
  assumes "production E" and "list_all (\<lambda>(A, g, c). replay (abiHost A) = None) (miStart V)"
    and "newFullInstance E V d r = (Some i, err)"
  shows "reachable (iState i, Idle)"
proof -
  note eff = production_effect [OF assms(1)] and tr = reachable_trans and cl = reachable_close
  obtain oi e where m: "newModuleInstance (ieMem E) V = (oi, e)" by fastforce
  have mc: "reachable (iState j, Idle)" if "oi = Some j" for j
    using newModuleInstance_reachable [OF assms(2)] m that by blast
  show ?thesis
  proof (cases "oi = None \<or> e \<noteq> None")
    case True
    with assms(3) m mc show ?thesis by (auto simp: newFullInstance_def split: option.splits)
  next
    case False
    then obtain j where j: "oi = Some j" "e = None" by auto
    obtain j1 e1 where a: "checkABIVersion E j = (j1, e1)" by fastforce
    obtain j2 e2 where b: "initialize E (if d then defaultCanonicalConfig @ textLines [''do-ip6:=no'']
        else defaultCanonicalConfig) (rtAnchors r) (hintBytes (rtHints r)) j1 = (j2, e2)" by fastforce
    have j1: "reachable (iState j1, Idle)"
      using tr [OF mc [OF j(1)]] inst_effect.checkABIVersion [OF eff, of j] a by simp
    have j2: "reachable (iState j2, Idle)"
      using tr [OF j1] inst_effect.initialize [OF eff, of j1] b by (metis fst_conv)
    show ?thesis using assms(3) m j a b j1 j2 cl by (cases e1; cases e2) (auto simp: newFullInstance_def Let_def)
  qed
qed

section \<open>Properties\<close>

text \<open>C36: a runtime is only created when every root hint is the literal of an address the egress policy lets the
  resolver query, and it always has trust anchors: the caller's, or the built-in ones when none are given.\<close>

theorem newRuntime_safe:
  assumes "NewRuntime V cfg = Inr r"
  shows "list_all (\<lambda>h. \<exists>ip. ParseAddr (isPrint V) h = Inr ip \<and> public_unicast (Unmap ip)) (rtHints r)
     \<and> rtHints r = RootHints cfg \<and> rtPages r = memoryPages (MemoryLimit cfg)
     \<and> rtAnchors r = (if TrustAnchors cfg = [] then defaultTrustAnchors else TrustAnchors cfg) \<and> rtAnchors r \<noteq> []"
proof -
  have "checkHints V (RootHints cfg) = None" "rtHints r = RootHints cfg" "rtPages r = memoryPages (MemoryLimit cfg)"
    "rtAnchors r = (if TrustAnchors cfg = [] then defaultTrustAnchors else TrustAnchors cfg)"
    using assms by (auto simp: NewRuntime_def Let_def split: option.splits if_splits)
  then show ?thesis
    using defaultTrustAnchors_nonempty
    by (auto simp: checkHints_None egressAllowed_eq AddrPortFrom_def ParseAddr_def list_all_iff)
qed

theorem newRuntime_safe_witness:
  "\<exists>V r. NewRuntime V \<lparr>MemoryLimit = 0, TrustAnchors = [], RootHints = [''8.8.8.8'']\<rparr> = Inr r \<and> rtAnchors r \<noteq> []"
proof -
  define V where "V = \<lparr>isPrint = \<lambda>r. True, hostModulesErr = None, compileErr = None\<rparr>"
  obtain r where r: "NewRuntime V \<lparr>MemoryLimit = 0, TrustAnchors = [], RootHints = [''8.8.8.8'']\<rparr> = Inr r"
    by (simp add: NewRuntime_def V_def public_dns_allowed Let_def ParseAddr_def parse_public_dns)
  from newRuntime_safe [OF r] r show ?thesis by blast
qed

text \<open>C37: a list of addresses, printed as literals, is accepted as root hints exactly when each of them is public unicast
  after unmapping: the parser reads back every form in which an address is printed.\<close>

theorem hints_printed: "checkHints V (map addrString ips) = None \<longleftrightarrow> list_all (\<lambda>ip. public_unicast (Unmap ip)) ips"
proof -
  have "(\<exists>ip'. parseAddr0 (addrString ip) = Inr ip' \<and> egressAllowed (AddrPortFrom ip' 53)) \<longleftrightarrow> public_unicast (Unmap ip)" for ip
  proof (cases "addrIsValid ip")
    case True
    then show ?thesis by (simp add: parse_addrString egressAllowed_eq AddrPortFrom_def)
  next
    case False
    then have "ip = AddrZero" by (cases ip) (simp_all add: addrIsValid_def)
    then show ?thesis by (simp add: parseAddr0_def Unmap_def addrIs4In6_def)
  qed
  then show ?thesis by (simp add: checkHints_None list_all_iff)
qed

text \<open>C40: a memory limit is rounded up to whole pages and capped at 4 GiB, except within one page of the largest
  64-bit integer, where the sum in the rounding overflows and at most one page is left.\<close>

theorem memory_limit_pages:
  assumes "0 < sint limit"
  shows "if sint limit \<le> 2 ^ 63 - 65536
     then min (sint limit) (2 ^ 32) \<le> 65536 * uint (memoryPages limit)
       \<and> 65536 * uint (memoryPages limit) < sint limit + 65536 \<and> 65536 * uint (memoryPages limit) \<le> 2 ^ 32
     else uint (memoryPages limit) \<le> 1"
  using assms goQuot_ceil [of "sint limit"] memoryPages_fits [of limit] memoryPages_overflow [of limit]
  by (auto simp: min_def)

theorem memory_limit_pages_witness:
  "uint (memoryPages 100000) = 2 \<and> uint (memoryPages 0x7fffffffffffffff) \<le> 1"
  using memory_limit_pages [of 100000] memory_limit_pages [of "0x7fffffffffffffff"] by (simp add: min_def)

end
