(* ===== verification/Segments.thy ===== *)
theory Segments
  imports GoErrors GoStrings
begin

text \<open>
  The parser of \<open>zygote.go\<close> for the data segments of a wasm binary. A Go \<open>int\<close> has 64 bits
  here, and a slice has fewer than \<open>2 ^ 63\<close> bytes, so positions in the binary are natural
  numbers; the decoded values are kept at their 64 bits. The lemmas give the value of a LEB128
  encoding, and the properties that a binary is parsed to exactly the segments it was built from.
\<close>

section \<open>Data segments\<close>

record segRange =
  segOff :: u32
  segLen :: u32

text \<open>Unsigned LEB128, from position \<open>p\<close> with \<open>v\<close> and \<open>shift\<close> accumulated so far.\<close>

function uleb :: "bytes \<Rightarrow> nat \<Rightarrow> u64 \<Rightarrow> nat \<Rightarrow> goerr + (u64 \<times> nat)" where
  "uleb wasm p v shift =
     (if p \<ge> length wasm \<or> shift > 63 then Inl (ErrNew ''bad leb128'')
      else
        (let b = wasm ! p; v = v OR push_bit shift (ucast (b AND 0x7f)) in
         if b AND 0x80 = 0 then Inr (v, p + 1) else uleb wasm (p + 1) v (shift + 7)))"
  by pat_completeness auto
termination uleb
  by (relation "measure (\<lambda>(wasm, p, v, shift). length wasm - p)") auto

text \<open>The signed LEB128 of the \<open>i32.const\<close> operand, sign-extended to 64 bits.\<close>

function sleb :: "bytes \<Rightarrow> nat \<Rightarrow> i64 \<Rightarrow> nat \<Rightarrow> goerr + (i64 \<times> nat)" where
  "sleb wasm p off shift =
     (if p \<ge> length wasm \<or> shift > 63 then Inl (ErrNew ''bad sleb128'')
      else
        (let b = wasm ! p; off = off OR push_bit shift (ucast (b AND 0x7f)); shift = shift + 7 in
         if b AND 0x80 = 0 then
           Inr (if b AND 0x40 \<noteq> 0 \<and> shift < 64 then off OR push_bit shift (- 1) else off, p + 1)
         else sleb wasm (p + 1) off shift))"
  by pat_completeness auto
termination sleb
  by (relation "measure (\<lambda>(wasm, p, off, shift). length wasm - p)") auto

declare uleb.simps [simp del] sleb.simps [simp del]

definition uleb0 :: "bytes \<Rightarrow> nat \<Rightarrow> goerr + (u64 \<times> nat)" where
  "uleb0 wasm p = uleb wasm p 0 0"

text \<open>One active data segment at position \<open>p\<close>: flags, offset expression, length and contents.\<close>

definition dataSegment :: "bytes \<Rightarrow> nat \<Rightarrow> nat \<Rightarrow> goerr + (segRange \<times> nat)" where
  "dataSegment wasm endp p =
     (case uleb0 wasm p of Inl e \<Rightarrow> Inl e
      | Inr (flags, p) \<Rightarrow>
        if flags \<noteq> 0 then Inl (ErrNew (''data segment flags '' @ itoa (uint flags)))
        else if p \<ge> length wasm \<or> wasm ! p \<noteq> 0x41
          then Inl (ErrNew ''data segment offset is not i32.const'')
        else case sleb wasm (p + 1) 0 0 of Inl e \<Rightarrow> Inl e
        | Inr (off, p) \<Rightarrow>
          if p \<ge> length wasm \<or> wasm ! p \<noteq> 0x0b
            then Inl (ErrNew ''data segment offset expression too long'')
          else case uleb0 wasm (p + 1) of Inl e \<Rightarrow> Inl e
          | Inr (n, p) \<Rightarrow>
            if sint off < 0 \<or> sint off > 2 ^ 32 - 1 \<or> unat n > 2 ^ 32 - 1
              then Inl (ErrNew ''data segment out of range'')
            else
              (let p = p + unat n in
               if p > endp then Inl (ErrNew ''data segment overflows section'')
               else Inr (\<lparr>segOff = ucast off, segLen = ucast n\<rparr>, p)))"

text \<open>The loop \<open>for range count\<close>.\<close>

fun dataSegments :: "bytes \<Rightarrow> nat \<Rightarrow> nat \<Rightarrow> nat \<Rightarrow> segRange list \<Rightarrow> goerr + segRange list" where
  "dataSegments wasm endp 0 p segs = Inr segs"
| "dataSegments wasm endp (Suc count) p segs =
     (case dataSegment wasm endp p of Inl e \<Rightarrow> Inl e
      | Inr (seg, p) \<Rightarrow> dataSegments wasm endp count p (segs @ [seg]))"

lemma uleb_pos: "uleb wasm p v shift = Inr (w, q) \<Longrightarrow> p < q \<and> q \<le> length wasm"
proof (induction wasm p v shift rule: uleb.induct)
  case (1 wasm p v shift)
  then show ?case
    by (subst (asm) (2) uleb.simps) (fastforce simp: Let_def split: if_splits)
qed

function sections :: "bytes \<Rightarrow> nat \<Rightarrow> segRange list \<Rightarrow> goerr + segRange list" where
  "sections wasm p segs =
     (if p < length wasm then
        (let i = wasm ! p in
         case uleb0 wasm (p + 1) of Inl e \<Rightarrow> Inl (ErrNew ''bad section size'')
         | Inr (sz, p) \<Rightarrow>
           if length wasm - p < unat sz then Inl (ErrNew ''bad section size'')
           else
             (let endp = p + unat sz in
              if i \<noteq> 11 then sections wasm endp segs
              else case uleb0 wasm p of Inl e \<Rightarrow> Inl e
                | Inr (count, p) \<Rightarrow>
                  (case dataSegments wasm endp (unat count) p segs of Inl e \<Rightarrow> Inl e
                   | Inr segs \<Rightarrow> sections wasm endp segs)))
      else Inr segs)"
  by pat_completeness auto
termination sections
  by (relation "measure (\<lambda>(wasm, p, segs). length wasm - p)")
     (auto simp: uleb0_def dest!: uleb_pos)

declare sections.simps [simp del]

definition parseDataSegments :: "bytes \<Rightarrow> goerr + segRange list" where
  "parseDataSegments wasm =
     (if length wasm < 8 \<or> take 4 wasm \<noteq> [0x00, 0x61, 0x73, 0x6d] \<or> le32 (take 4 (drop 4 wasm)) \<noteq> 1
      then Inl (ErrNew ''not a wasm v1 binary'')
      else sections wasm 8 [])"

section \<open>LEB128\<close>

text \<open>The encodings, with the high bit set on every byte but the last.\<close>

function ulebEnc :: "nat \<Rightarrow> bytes" where
  "ulebEnc n = (if n < 128 then [of_nat n] else of_nat (128 + n mod 128) # ulebEnc (n div 128))"
  by pat_completeness auto
termination ulebEnc
  by (relation "measure id") auto

text \<open>Signed, for a number that is not negative: the last byte also keeps bit 6 clear.\<close>

function slebEnc :: "nat \<Rightarrow> bytes" where
  "slebEnc n = (if n < 64 then [of_nat n] else of_nat (128 + n mod 128) # slebEnc (n div 128))"
  by pat_completeness auto
termination slebEnc
  by (relation "measure id") auto

declare ulebEnc.simps [simp del] slebEnc.simps [simp del]

lemma and_7f: "b AND 0x7f = take_bit 7 b" for b :: u8
  by (simp add: take_bit_eq_mask mask_eq_exp_minus_1)

lemma and_80: "b AND 0x80 = 0 \<longleftrightarrow> \<not> bit b 7" for b :: u8
  using and_exp_eq_0_iff_not_bit [of b 7] by simp

lemma and_40: "b AND 0x40 = 0 \<longleftrightarrow> \<not> bit b 6" for b :: u8
  using and_exp_eq_0_iff_not_bit [of b 6] by simp

lemma low_bits: "ucast (take_bit 7 (of_nat m :: u8)) = (of_nat (m mod 128) :: 64 word)"
proof -
  have "take_bit 7 (of_nat m :: u8) = of_nat (m mod 128)"
    by (simp add: take_bit_of_nat flip: take_bit_eq_mod [of 7 m, simplified])
  moreover have "unat (of_nat (m mod 128) :: u8) = m mod 128"
    by (simp add: unat_of_nat)
  ultimately show ?thesis
    by (metis of_nat_unat)
qed

lemma bit_byte: "k < 8 \<Longrightarrow> bit (of_nat m :: u8) k \<longleftrightarrow> odd (m div 2 ^ k)"
  by (simp only: bit_of_nat_iff, simp add: possible_bit_word bit_iff_odd)

lemma bit_high: "bit (of_nat (128 + n mod 128) :: u8) 7"
proof -
  have "(128 + n mod 128) div 128 = 1" by (simp add: div_add_self1)
  then show ?thesis using bit_byte [of 7 "128 + n mod 128"] by (simp del: of_nat_add)
qed

lemma or_push:
  fixes v :: "64 word"
  assumes "unat v < 2 ^ s"
  shows "v OR push_bit s x = v + push_bit s x"
proof (rule disjunctive_add [symmetric])
  fix n
  have "take_bit s (unat v) = unat v" using assms by (simp add: take_bit_nat_eq_self)
  moreover have "bit v n \<longleftrightarrow> bit (unat v) n" by (simp add: bit_unsigned_iff)
  ultimately have "bit v n \<Longrightarrow> n < s" by (metis bit_take_bit_iff)
  then show "\<not> bit v n \<or> \<not> bit (push_bit s x) n" by (auto simp: bit_push_bit_iff)
qed


lemma accumulate:
  assumes "a < 2 ^ s" and "s \<le> 63"
  shows "(of_nat a :: 64 word) OR push_bit s (ucast (take_bit 7 (of_nat m :: u8)))
     = of_nat (a + (m mod 128) * 2 ^ s)"
proof -
  have "(2 :: nat) ^ s \<le> 2 ^ 64" using assms(2) by (intro power_increasing) simp_all
  with assms(1) have "a < 2 ^ 64" by (rule order.strict_trans2)
  then have "unat (of_nat a :: 64 word) = a" by (simp add: unat_of_nat)
  then show ?thesis
    using or_push [of "of_nat a" s] assms(1) by (simp add: low_bits push_bit_eq_mult)
qed

lemma nth_drop_Cons: "drop p xs = b # rest \<Longrightarrow> p < length xs \<and> xs ! p = b \<and> drop (Suc p) xs = rest"
  by (metis Cons_nth_drop_Suc drop_all list.distinct(1) list.inject not_less)

lemma shift_bound: "n \<noteq> 0 \<Longrightarrow> a + n * 2 ^ s < 2 ^ 64 \<Longrightarrow> s \<le> 63" for a n s :: nat
proof (rule ccontr)
  assume n: "n \<noteq> 0" and b: "a + n * 2 ^ s < 2 ^ 64" and "\<not> s \<le> 63"
  then have "(2 :: nat) ^ 64 \<le> 2 ^ s" by (intro power_increasing) simp_all
  also have "\<dots> \<le> n * 2 ^ s" using n by simp
  finally show False using b by simp
qed

lemma digit_step: "a + (n mod 128) * 2 ^ s + (n div 128) * 2 ^ (s + 7) = a + n * 2 ^ s" for a n s :: nat
proof -
  have "n * 2 ^ s = (n mod 128 + 128 * (n div 128)) * 2 ^ s" by simp
  also have "\<dots> = (n mod 128) * 2 ^ s + (n div 128) * 2 ^ (s + 7)"
    by (simp only: power_add add_mult_distrib) (simp add: mult_ac)
  finally show ?thesis by simp
qed

lemma digit_bound: "a < 2 ^ s \<Longrightarrow> a + (n mod 128) * 2 ^ s < 2 ^ (s + 7)" for a n s :: nat
proof -
  assume a: "a < 2 ^ s"
  have "n mod 128 \<le> 127" by (simp add: less_Suc_eq_le [symmetric])
  then have "(n mod 128) * 2 ^ s \<le> 127 * 2 ^ s" by (rule mult_le_mono1)
  with a have "a + (n mod 128) * 2 ^ s < 128 * 2 ^ s" by linarith
  then show ?thesis by (simp add: power_add)
qed

lemma uleb_ulebEnc:
  assumes "drop p wasm = ulebEnc n @ rest" and "a < 2 ^ s" and "n = 0 \<Longrightarrow> s \<le> 63"
    and "a + n * 2 ^ s < 2 ^ 64"
  shows "uleb wasm p (of_nat a) s = Inr (of_nat (a + n * 2 ^ s), p + length (ulebEnc n))"
  using assms
proof (induction n arbitrary: p a s rule: ulebEnc.induct)
  case (1 n)
  have s: "s \<le> 63" using 1(4,5) shift_bound by blast
  show ?case
  proof (cases "n < 128")
    case True
    with 1(2) have d: "p < length wasm" "wasm ! p = of_nat n"
      using nth_drop_Cons [of p wasm "of_nat n" rest] by (simp_all add: ulebEnc.simps [of n])
    have "\<not> bit (of_nat n :: u8) 7" using True by (simp add: bit_byte)
    with True d s accumulate [OF 1(3) s, of n] show ?thesis
      by (simp add: uleb.simps [of wasm p] ulebEnc.simps [of n] Let_def and_7f and_80)
  next
    case False
    let ?b = "of_nat (128 + n mod 128) :: u8"
    from False 1(2) have d: "p < length wasm" "wasm ! p = ?b" "drop (Suc p) wasm = ulebEnc (n div 128) @ rest"
      using nth_drop_Cons [of p wasm ?b "ulebEnc (n div 128) @ rest"]
      by (simp_all add: ulebEnc.simps [of n] del: of_nat_add)
    have b: "bit ?b 7" by (rule bit_high)
    have z: "n div 128 = 0 \<Longrightarrow> s + 7 \<le> 63" using False by (simp add: div_eq_0_iff)
    have t: "a + n mod 128 * 2 ^ s + n div 128 * 2 ^ (s + 7) < 2 ^ 64"
      using 1(5) by (simp only: digit_step)
    have acc: "(of_nat a :: 64 word) OR push_bit s (ucast (take_bit 7 ?b)) = of_nat (a + (n mod 128) * 2 ^ s)"
      using accumulate [OF 1(3) s, of "128 + n mod 128"] by simp
    have "uleb wasm (Suc p) (of_nat (a + (n mod 128) * 2 ^ s)) (s + 7)
        = Inr (of_nat (a + (n mod 128) * 2 ^ s + (n div 128) * 2 ^ (s + 7)), Suc p + length (ulebEnc (n div 128)))"
      by (rule 1(1) [OF False d(3) digit_bound [OF 1(3)] z t])
    then show ?thesis
      using d b s acc unfolding digit_step
      by (simp add: uleb.simps [of wasm p] ulebEnc.simps [of n] False Let_def and_7f and_80 del: of_nat_add of_nat_mult)
  qed
qed


lemma sleb_slebEnc:
  assumes "drop p wasm = slebEnc n @ rest" and "a < 2 ^ s" and "n = 0 \<Longrightarrow> s \<le> 63"
    and "a + n * 2 ^ s < 2 ^ 63"
  shows "sleb wasm p (of_nat a) s = Inr (of_nat (a + n * 2 ^ s), p + length (slebEnc n))"
  using assms
proof (induction n arbitrary: p a s rule: slebEnc.induct)
  case (1 n)
  have s: "s \<le> 63" using 1(4,5) shift_bound [of n a s] by fastforce
  show ?case
  proof (cases "n < 64")
    case True
    with 1(2) have d: "p < length wasm" "wasm ! p = of_nat n"
      using nth_drop_Cons [of p wasm "of_nat n" rest] by (simp_all add: slebEnc.simps [of n])
    have "\<not> bit (of_nat n :: u8) 7" "\<not> bit (of_nat n :: u8) 6" using True by (simp_all add: bit_byte)
    with True d s accumulate [OF 1(3) s, of n] show ?thesis
      by (simp add: sleb.simps [of wasm p] slebEnc.simps [of n] Let_def and_7f and_80 and_40)
  next
    case False
    let ?b = "of_nat (128 + n mod 128) :: u8"
    from False 1(2) have d: "p < length wasm" "wasm ! p = ?b" "drop (Suc p) wasm = slebEnc (n div 128) @ rest"
      using nth_drop_Cons [of p wasm ?b "slebEnc (n div 128) @ rest"]
      by (simp_all add: slebEnc.simps [of n] del: of_nat_add)
    have b: "bit ?b 7" by (rule bit_high)
    have z: "s + 7 \<le> 63"
    proof (rule ccontr)
      assume "\<not> s + 7 \<le> 63"
      then have "(2 :: nat) ^ 63 \<le> 2 ^ (6 + s)" by (intro power_increasing) simp_all
      also have "\<dots> \<le> n * 2 ^ s" using False by (simp add: power_add)
      finally show False using 1(5) by simp
    qed
    have t: "a + n mod 128 * 2 ^ s + n div 128 * 2 ^ (s + 7) < 2 ^ 63"
      using 1(5) by (simp only: digit_step)
    have acc: "(of_nat a :: 64 word) OR push_bit s (ucast (take_bit 7 ?b)) = of_nat (a + (n mod 128) * 2 ^ s)"
      using accumulate [OF 1(3) s, of "128 + n mod 128"] by simp
    have "sleb wasm (Suc p) (of_nat (a + (n mod 128) * 2 ^ s)) (s + 7)
        = Inr (of_nat (a + (n mod 128) * 2 ^ s + (n div 128) * 2 ^ (s + 7)), Suc p + length (slebEnc (n div 128)))"
      by (rule 1(1) [OF False d(3) digit_bound [OF 1(3)] z t])
    then show ?thesis
      using d b s acc unfolding digit_step
      by (simp add: sleb.simps [of wasm p] slebEnc.simps [of n] False Let_def and_7f and_80 del: of_nat_add of_nat_mult)
  qed
qed

section \<open>Binaries built from their sections\<close>

datatype wasmSection = Other u8 bytes | Data "(nat \<times> bytes) list"

fun encSeg :: "nat \<times> bytes \<Rightarrow> bytes" where
  "encSeg (off, d) = [0, 0x41] @ slebEnc off @ [0x0b] @ ulebEnc (length d) @ d"

definition secBody :: "(nat \<times> bytes) list \<Rightarrow> bytes" where
  "secBody segs = ulebEnc (length segs) @ concat (map encSeg segs)"

fun encSection :: "wasmSection \<Rightarrow> bytes" where
  "encSection (Other i payload) = i # ulebEnc (length payload) @ payload"
| "encSection (Data segs) = 11 # ulebEnc (length (secBody segs)) @ secBody segs"

definition encModule :: "wasmSection list \<Rightarrow> bytes" where
  "encModule secs = [0x00, 0x61, 0x73, 0x6d, 1, 0, 0, 0] @ concat (map encSection secs)"

fun secOk :: "wasmSection \<Rightarrow> bool" where
  "secOk (Other i payload) = (i \<noteq> 11)"
| "secOk (Data segs) = list_all (\<lambda>(off, d). off < 2 ^ 32 \<and> length d < 2 ^ 32) segs"

fun secRanges :: "wasmSection \<Rightarrow> segRange list" where
  "secRanges (Other i payload) = []"
| "secRanges (Data segs) = map (\<lambda>(off, d). \<lparr>segOff = of_nat off, segLen = of_nat (length d)\<rparr>) segs"

lemma drop_app: "drop p xs = a @ b \<Longrightarrow> drop (p + length a) xs = b"
  by (metis add.commute append_eq_conv_conj drop_drop)

lemma drop_length: "drop p xs = a @ b \<Longrightarrow> a \<noteq> [] \<Longrightarrow> p + length a \<le> length xs"
proof -
  assume d: "drop p xs = a @ b" and "a \<noteq> []"
  then have "p < length xs" by (metis append_is_Nil_conv drop_all not_less)
  moreover from d have "length xs - p = length a + length b" by (metis length_append length_drop)
  ultimately show ?thesis by simp
qed

lemma uleb0_enc:
  "drop p wasm = ulebEnc n @ rest \<Longrightarrow> n < 2 ^ 64 \<Longrightarrow> uleb0 wasm p = Inr (of_nat n, p + length (ulebEnc n))"
  using uleb_ulebEnc [of p wasm n rest 0 0] by (simp add: uleb0_def)

lemma ulebEnc_0: "ulebEnc 0 = [0]"
  by (simp add: ulebEnc.simps)

lemma ulebEnc_ne [simp]: "ulebEnc n \<noteq> []"
  by (simp add: ulebEnc.simps)

lemma dataSegment_enc:
  assumes d: "drop p wasm = encSeg (off, d) @ rest" and "off < 2 ^ 32" and "length d < 2 ^ 32"
    and "p + length (encSeg (off, d)) \<le> endp"
  shows "dataSegment wasm endp p =
    Inr (\<lparr>segOff = of_nat off, segLen = of_nat (length d)\<rparr>, p + length (encSeg (off, d)))"
proof -
  have f: "uleb0 wasm p = Inr (0, p + 1)"
    using uleb0_enc [of p wasm 0 "0x41 # slebEnc off @ [0x0b] @ ulebEnc (length d) @ d @ rest"] d
    by (simp add: ulebEnc_0)
  have d1: "drop (Suc p) wasm = 0x41 # slebEnc off @ [0x0b] @ ulebEnc (length d) @ d @ rest"
    using drop_app [of p wasm "[0]"] d by simp
  have c: "p + 1 < length wasm" "wasm ! (p + 1) = 0x41"
    "drop (p + 2) wasm = slebEnc off @ [0x0b] @ ulebEnc (length d) @ d @ rest"
    using nth_drop_Cons [OF d1] by simp_all
  let ?p3 = "p + 2 + length (slebEnc off)"
  have o: "sleb wasm (p + 2) 0 0 = Inr (of_nat off, ?p3)"
    using sleb_slebEnc [OF c(3), of 0 0] assms(2) by simp
  have d3: "drop ?p3 wasm = 0x0b # ulebEnc (length d) @ d @ rest"
    using drop_app [OF c(3)] by simp
  have e: "?p3 < length wasm" "wasm ! ?p3 = 0x0b" "drop (?p3 + 1) wasm = ulebEnc (length d) @ d @ rest"
    using nth_drop_Cons [OF d3] by simp_all
  have n: "uleb0 wasm (?p3 + 1) = Inr (of_nat (length d), ?p3 + 1 + length (ulebEnc (length d)))"
    using uleb0_enc [OF e(3)] assms(3) by simp
  have u: "unat (of_nat (length d) :: 64 word) = length d" using assms(3) by (simp add: unat_of_nat)
  have so: "sint (of_nat off :: 64 word) = int off"
    using assms(2) by (simp add: signed_of_nat signed_take_bit_int_eq_self)
  have uc: "(ucast (of_nat off :: 64 word) :: u32) = of_nat off"
    "(ucast (of_nat (length d) :: 64 word) :: u32) = of_nat (length d)"
    using assms(2,3) by (simp_all add: unsigned_of_nat take_bit_nat_eq_self)
  show ?thesis
    using f c o e n assms u so uc by (simp add: dataSegment_def Let_def)
qed


lemma dataSegments_enc:
  assumes "drop p wasm = concat (map encSeg ds) @ rest" and "p + length (concat (map encSeg ds)) \<le> endp"
    and "secOk (Data ds)"
  shows "dataSegments wasm endp (length ds) p segs = Inr (segs @ secRanges (Data ds))"
  using assms
proof (induction ds arbitrary: p segs)
  case (Cons x ds)
  obtain off d where x: "x = (off, d)" by (cases x)
  have d: "drop p wasm = encSeg (off, d) @ concat (map encSeg ds) @ rest"
    using Cons.prems(1) x by simp
  have "dataSegment wasm endp p =
      Inr (\<lparr>segOff = of_nat off, segLen = of_nat (length d)\<rparr>, p + length (encSeg (off, d)))"
    using Cons.prems x by (intro dataSegment_enc [OF d]) (simp_all del: encSeg.simps)
  moreover have "dataSegments wasm endp (length ds) (p + length (encSeg (off, d))) s = Inr (s @ secRanges (Data ds))" for s
    using Cons.prems x by (intro Cons.IH drop_app [OF d]) (simp_all del: encSeg.simps)
  ultimately show ?case using x by (simp del: encSeg.simps)
qed simp

lemma sections_enc:
  assumes "drop p wasm = concat (map encSection secs)" and "p \<le> length wasm" and "length wasm < 2 ^ 63"
    and "list_all secOk secs"
  shows "sections wasm p segs = Inr (segs @ concat (map secRanges secs))"
  using assms
proof (induction secs arbitrary: p segs)
  case Nil
  then have "p = length wasm" by simp
  then show ?case by (simp add: sections.simps)
next
  case (Cons x secs)
  define body where "body = (case x of Other i pl \<Rightarrow> pl | Data ds \<Rightarrow> secBody ds)"
  define i where "i = (case x of Other i pl \<Rightarrow> i | Data ds \<Rightarrow> 11)"
  have x: "encSection x = i # ulebEnc (length body) @ body"
    by (cases x) (simp_all add: body_def i_def)
  let ?rest = "concat (map encSection secs)"
  have d: "drop p wasm = i # ulebEnc (length body) @ body @ ?rest" using Cons.prems(1) x by simp
  note d1 = nth_drop_Cons [OF d]
  let ?p1 = "Suc p + length (ulebEnc (length body))"
  have d2: "drop (Suc p) wasm = ulebEnc (length body) @ body @ ?rest" using d1 by simp
  have l: "length body \<le> length wasm"
    using arg_cong [OF d, of length] by simp
  have u: "unat (of_nat (length body) :: 64 word) = length body"
    using l Cons.prems(3) by (simp add: unat_of_nat)
  have b: "uleb0 wasm (Suc p) = Inr (of_nat (length body), ?p1)"
    using uleb0_enc [OF d2] l Cons.prems(3) by simp
  have d3: "drop ?p1 wasm = body @ ?rest" using drop_app [OF d2] by simp
  have le: "?p1 \<le> length wasm" using drop_length [OF d2] by simp
  have f: "length wasm - ?p1 = length body + length ?rest" using d3 by (metis length_append length_drop)
  have IH: "sections wasm (?p1 + length body) s = Inr (s @ concat (map secRanges secs))" for s
    using Cons.prems le f by (intro Cons.IH drop_app [OF d3]) simp_all
  show ?case
  proof (cases x)
    case (Other j pl)
    with Cons.prems(4) have "i \<noteq> 11" by (simp add: i_def)
    with d1 b u f IH Other show ?thesis by (simp add: sections.simps [of wasm p] Let_def)
  next
    case (Data ds)
    have i: "i = 11" using Data by (simp add: i_def)
    have d4: "drop ?p1 wasm = ulebEnc (length ds) @ concat (map encSeg ds) @ ?rest"
      using d3 Data by (simp add: body_def secBody_def)
    have len: "length body = length (ulebEnc (length ds)) + length (concat (map encSeg ds))"
      using Data by (simp add: body_def secBody_def)
    have "length ds \<le> length (concat (map encSeg ds))"
      by (induction ds) auto
    then have c: "length ds < 2 ^ 63" using len l Cons.prems(3) by linarith
    have cu: "unat (of_nat (length ds) :: 64 word) = length ds" using c by (simp add: unat_of_nat)
    have "uleb0 wasm ?p1 = Inr (of_nat (length ds), ?p1 + length (ulebEnc (length ds)))"
      using uleb0_enc [OF d4] c by simp
    moreover have "dataSegments wasm (?p1 + length body) (length ds) (?p1 + length (ulebEnc (length ds))) s
        = Inr (s @ secRanges (Data ds))" for s
      using len Data Cons.prems(4) by (intro dataSegments_enc [OF drop_app [OF d4]]) simp_all
    ultimately show ?thesis
      using d1 b u f IH i Data cu by (simp add: sections.simps [of wasm p] Let_def del: secRanges.simps)
  qed
qed

lemma parse_encModule:
  assumes "list_all secOk secs" and "length (encModule secs) < 2 ^ 63"
  shows "parseDataSegments (encModule secs) = Inr (concat (map secRanges secs))"
proof -
  have "sections (encModule secs) 8 [] = Inr ([] @ concat (map secRanges secs))"
    using assms by (intro sections_enc) (simp_all add: encModule_def)
  moreover have "le32 [1, 0, 0, 0] = 1" by (simp add: le32_def)
  ultimately show ?thesis
    by (simp add: parseDataSegments_def encModule_def)
qed

section \<open>Properties\<close>

text \<open>C29: the data segment parser returns exactly the ranges of the active data segments of a wasm binary,
  in order, whatever other sections surround them; the LEB128 numbers in between are decoded at
  their full 64 bits.\<close>

theorem parseDataSegments_roundtrip:
  assumes "list_all secOk secs" and "length (encModule secs) < 2 ^ 63"
  shows "parseDataSegments (encModule secs) = Inr (concat (map secRanges secs))"
  using assms by (rule parse_encModule)

theorem parseDataSegments_roundtrip_witness:
  "parseDataSegments (encModule [Other 1 [5], Data [(1024, [1, 2, 3])], Other 0 []])
     = Inr [\<lparr>segOff = 1024, segLen = 3\<rparr>]"
proof -
  have "length (encModule [Other 1 [5], Data [(1024, [1, 2, 3])], Other 0 []]) < 2 ^ 63"
    by (simp add: encModule_def secBody_def ulebEnc.simps slebEnc.simps)
  then show ?thesis
    using parseDataSegments_roundtrip [of "[Other 1 [5], Data [(1024, [1, 2, 3])], Other 0 []]"] by simp
qed

end
