(* ===== verification/Zygote.thy ===== *)
theory Zygote
  imports Runtime Segments
begin

text \<open>
  The zygote of \<open>zygote.go\<close>: building the template (\<open>initZygote\<close>), cloning it (\<open>newClone\<close>), and the
  choice of \<open>NewInstance\<close> between a clone and a full instance. The template and the clones are instances of
  \<open>Instance\<close>, created as in \<open>Runtime\<close>; what the file system and the platform answer is the parameter
  \<open>zyenv\<close>. The image file and the allocator of a zygote are opaque; whether the file is left open is part
  of the result.
\<close>

section \<open>Building the template\<close>

record zygote =
  zImage :: bytes
  zSegs :: "segRange list"

record zyenv =
  zyDisable :: bool
  zyAllocator :: bool
  zyModule :: bytes
  zyCreateTemp :: "goerr option"
  zyWriteImage :: "goerr option"
  zyImageAlloc :: bool

text \<open>The outcome: \<open>r.zygote\<close>, \<open>r.zygoteErr\<close>, and whether the image file is open.\<close>

record zyResult =
  zrZygote :: "zygote option"
  zrErr :: "goerr option"
  zrFileOpen :: bool

definition zyNothing :: zyResult where
  "zyNothing = \<lparr>zrZygote = None, zrErr = None, zrFileOpen = False\<rparr>"

definition zyFail :: "goerr \<Rightarrow> zyResult" where
  "zyFail e = zyNothing\<lparr>zrErr := Some e\<rparr>"

definition mapLen :: "('k \<times> nat) list option \<Rightarrow> nat" where
  "mapLen om = (case om of None \<Rightarrow> 0 | Some m \<Rightarrow> length m)"

definition segInside :: "bytes \<Rightarrow> segRange \<Rightarrow> bool" where
  "segInside img s \<longleftrightarrow> unat (segOff s) + unat (segLen s) \<le> length img"

definition readTemplate :: "('m, 'pub, 'p) ienv \<Rightarrow> 'm inst \<Rightarrow> 'm inst \<times> (goerr + bytes)" where
  "readTemplate E i = guest E (\<lambda>i.
     case memRead (ieMem E) (iMem i) 0 (memSize (ieMem E) (iMem i)) of
       None \<Rightarrow> (i, Inl (ErrNew ''unbound: reading template memory failed''))
     | Some view \<Rightarrow> (i, Inr view)) i"

text \<open>From the image on.\<close>

definition installImage :: "zyenv \<Rightarrow> segRange list \<Rightarrow> bytes \<Rightarrow> zyResult" where
  "installImage Z segs img =
     (if \<not> list_all (segInside img) segs then
        zyFail (ErrNew ''unbound: data segment outside template memory'')
      else case zyCreateTemp Z of Some e \<Rightarrow> zyNothing
      | None \<Rightarrow>
          (case zyWriteImage Z of Some e \<Rightarrow> zyNothing
           | None \<Rightarrow>
               if \<not> zyImageAlloc Z then zyNothing
               else zyNothing\<lparr>zrZygote := Some \<lparr>zImage = img, zSegs = segs\<rparr>, zrFileOpen := True\<rparr>))"

text \<open>The numbers of sockets and timers, each read under its own lock.\<close>

definition countResources :: "('m, 'pub, 'p) ienv \<Rightarrow> 'm inst \<Rightarrow> 'm inst \<times> nat \<times> nat" where
  "countResources E i =
     (let i = yield E i; ns = mapLen (sockets (iState i)); i = yield E i in (i, ns, mapLen (timers (iState i))))"

text \<open>From the warmed template on.\<close>

definition snapshot :: "('m, 'pub, 'p) ienv \<Rightarrow> zyenv \<Rightarrow> segRange list \<Rightarrow> 'm inst \<Rightarrow> 'm inst \<times> zyResult" where
  "snapshot E Z segs i =
     (case countResources E i of (i, ns, nt) \<Rightarrow>
      if ns \<noteq> 0 \<or> nt \<noteq> 0 then
        (i, zyFail (ErrNew (''unbound: warmed template holds '' @ itoa (int ns) @ '' sockets and '' @ itoa (int nt)
          @ '' timers'')))
      else case readTemplate E i of (i, Inl e) \<Rightarrow> (i, zyFail e)
      | (i, Inr img) \<Rightarrow> (i, installImage Z segs img))"

text \<open>The result and the template, which the deferred \<open>inst.Close\<close> closes on every path.\<close>

definition initZygote :: "('m, 'pub, 'p) ienv \<Rightarrow> ('m, 'pub) mienv \<Rightarrow> bool \<Rightarrow> runtime \<Rightarrow> zyenv \<Rightarrow>
    zyResult \<times> 'm inst option" where
  "initZygote E V disableIPv6 r Z =
     (if zyDisable Z \<or> \<not> zyAllocator Z then (zyNothing, None)
      else case parseDataSegments (zyModule Z) of Inl e \<Rightarrow> (zyNothing, None)
      | Inr segs \<Rightarrow>
        (case newFullInstance E V disableIPv6 r of
           (oi, Some e) \<Rightarrow> (zyFail e, oi)
         | (None, None) \<Rightarrow> (zyNothing, None)
         | (Some i, None) \<Rightarrow>
             (case (case call E warmup [] i of
                (i, Inl e) \<Rightarrow> (i, zyFail (ErrWrapf ''unbound: warmup: '' e))
              | (i, Inr out) \<Rightarrow>
                  (let rc = (ucast out :: i32) in
                   if rc \<noteq> 0 then (i, zyFail (ErrErrno ''unbound: guest warmup failed: wasi errno '' (- rc)))
                   else snapshot E Z segs i)) of
                (i, res) \<Rightarrow> (res, Some (instClose i)))))"

section \<open>Cloning\<close>

text \<open>
  \<open>image[s.off : s.off+s.len]\<close>: the bounds are 32-bit sums, and Go panics (\<^const>\<open>None\<close>)
  when they are not in order or outside the slice.
\<close>

definition imageSlice :: "bytes \<Rightarrow> segRange \<Rightarrow> bytes option" where
  "imageSlice img s =
     (let lo = segOff s; hi = segOff s + segLen s in
      if lo \<le> hi \<and> unat hi \<le> length img then Some (take (unat hi - unat lo) (drop (unat lo) img))
      else None)"

fun restoreSegs :: "'m memops \<Rightarrow> bytes \<Rightarrow> segRange list \<Rightarrow> 'm \<Rightarrow> (goerr + 'm) option" where
  "restoreSegs M img [] m = Some (Inr m)"
| "restoreSegs M img (s # ss) m =
     (case imageSlice img s of None \<Rightarrow> None
      | Some b \<Rightarrow>
          (case memWrite M m (segOff s) b of
             None \<Rightarrow> Some (Inl (ErrNew ''unbound: restoring data segment failed''))
           | Some m \<Rightarrow> restoreSegs M img ss m))"

text \<open>The guarded block of \<open>newClone\<close>.\<close>

definition restoreImage :: "'m memops \<Rightarrow> zygote \<Rightarrow> 'm \<Rightarrow> (goerr + 'm) option" where
  "restoreImage M z m =
     (if unat (memSize M m) \<noteq> length (zImage z) then
        Some (Inl (ErrNew (''unbound: clone memory is '' @ itoa (uint (memSize M m)) @
          '' bytes, template '' @ itoa (int (length (zImage z))))))
      else restoreSegs M (zImage z) (zSegs z) m)"

text \<open>The guest block; the result \<^const>\<open>False\<close> is a panic.\<close>

definition restoreClone :: "('m, 'pub, 'p) ienv \<Rightarrow> zygote \<Rightarrow> 'm inst \<Rightarrow> 'm inst \<times> (goerr + bool)" where
  "restoreClone E z i = guest E (\<lambda>i.
     case restoreImage (ieMem E) z (iMem i) of
       None \<Rightarrow> (i, Inr False)
     | Some (Inl e) \<Rightarrow> (i, Inl e)
     | Some (Inr m) \<Rightarrow> (i\<lparr>iMem := m\<rparr>, Inr True)) i"

text \<open>Redrawing the entropy and checking the version, after the restore.\<close>

definition startClone :: "('m, 'pub, 'p) ienv \<Rightarrow> 'm inst \<Rightarrow> 'm inst option \<times> goerr option" where
  "startClone E i =
     (case call E reseed [] i of
        (i, Inl e) \<Rightarrow> (Some (instClose i), Some (ErrWrapf ''unbound: reseed: '' e))
      | (i, Inr _) \<Rightarrow>
          (case checkABIVersion E i of
             (i, Some e) \<Rightarrow> (Some (instClose i), Some e)
           | (i, None) \<Rightarrow> (Some i, None)))"

text \<open>\<^const>\<open>None\<close> is a panic.\<close>

definition newClone :: "('m, 'pub, 'p) ienv \<Rightarrow> ('m, 'pub) mienv \<Rightarrow> zygote \<Rightarrow> ('m inst option \<times> goerr option) option" where
  "newClone E V z =
     (case newModuleInstance (ieMem E) V of
        (Some i, None) \<Rightarrow>
          (case restoreClone E z i of
             (i, Inl e) \<Rightarrow> Some (Some (instClose i), Some e)
           | (i, Inr False) \<Rightarrow> None
           | (i, Inr True) \<Rightarrow> Some (startClone E i))
      | (oi, err) \<Rightarrow> Some (oi, err))"

text \<open>\<open>NewInstance\<close>, given the outcome of the zygote's initialization, which runs once.\<close>

definition NewInstance :: "('m, 'pub, 'p) ienv \<Rightarrow> ('m, 'pub) mienv \<Rightarrow> bool \<Rightarrow> runtime \<Rightarrow> bool \<Rightarrow> zyResult \<Rightarrow>
    ('m inst option \<times> goerr option) option" where
  "NewInstance E V disableIPv6 r isClosed zy =
     (if isClosed then Some (None, Some (ErrNew ''unbound: nil or closed runtime''))
      else case zrErr zy of Some err \<Rightarrow> Some (None, Some err)
      | None \<Rightarrow> (case zrZygote zy of Some z \<Rightarrow> newClone E V z | None \<Rightarrow> Some (newFullInstance E V disableIPv6 r)))"

section \<open>Restoring the data segments\<close>

definition segBytes :: "segRange \<Rightarrow> nat set" where
  "segBytes s = {unat (segOff s) ..< unat (segOff s) + unat (segLen s)}"

text \<open>The bytes at the addresses of \<open>G\<close> are those of the image.\<close>

definition agrees :: "'m memops \<Rightarrow> bytes \<Rightarrow> 'm \<Rightarrow> nat set \<Rightarrow> bool" where
  "agrees M img m G \<longleftrightarrow> (\<forall>q < length img. q \<in> G \<longrightarrow> memRead M m (of_nat q) 1 = Some [img ! q])"

lemma imageSlice_inside:
  assumes "segInside img s" and "length img < 2 ^ 32"
  shows "imageSlice img s = Some (take (unat (segLen s)) (drop (unat (segOff s)) img))"
proof -
  have "unat (segOff s) + unat (segLen s) < 2 ^ 32" using assms by (simp add: segInside_def)
  then have u: "unat (segOff s + segLen s) = unat (segOff s) + unat (segLen s)"
    by (simp add: unat_word_ariths)
  then have "segOff s \<le> segOff s + segLen s" by (simp add: word_le_nat_alt)
  with u assms(1) show ?thesis by (simp add: imageSlice_def Let_def segInside_def)
qed

lemma agrees_write:
  assumes L: "linear_memory M memLen" and w: "memWrite M m p b = Some m'"
    and b: "b = take n (drop (unat p) img)" and r: "unat p + n \<le> length img"
    and l: "length img < 2 ^ 32" and g: "agrees M img m G"
  shows "agrees M img m' (G \<union> {unat p ..< unat p + n})"
  unfolding agrees_def
proof (intro allI impI)
  fix q assume q: "q < length img" and qg: "q \<in> G \<union> {unat p ..< unat p + n}"
  have u: "unat (of_nat q :: u32) = q" using q l by (simp add: unat_of_nat)
  have lb: "length b = n" using b r by simp
  show "memRead M m' (of_nat q) 1 = Some [img ! q]"
  proof (cases "unat p \<le> q \<and> q < unat p + n")
    case True
    then have k: "q - unat p + unat (1 :: u32) \<le> length b" "unat (of_nat q :: u32) = unat p + (q - unat p)"
      using u lb by (auto simp: Suc_le_eq less_diff_conv2)
    have "take 1 (drop (q - unat p) b) = [b ! (q - unat p)]"
      using k(1) by (simp add: Cons_nth_drop_Suc [symmetric])
    moreover from True have "q - unat p < n" by linarith
    then have "b ! (q - unat p) = img ! q" using True b r by simp
    ultimately have "take 1 (drop (q - unat p) b) = [img ! q]" by simp
    with linear_memory.write_inside [OF L w k] show ?thesis by simp
  next
    case False
    then have "unat (of_nat q :: u32) + unat (1 :: u32) \<le> unat p \<or> unat p + length b \<le> unat (of_nat q :: u32)"
      using u lb by auto
    from linear_memory.write_outside [OF L w this] False qg g q show ?thesis by (auto simp: agrees_def)
  qed
qed

lemma restoreSegs_agrees:
  assumes L: "linear_memory M memLen" and l: "length img < 2 ^ 32"
  shows "list_all (segInside img) segs \<Longrightarrow> memLen m = length img \<Longrightarrow> agrees M img m G \<Longrightarrow>
    \<exists>m'. restoreSegs M img segs m = Some (Inr m') \<and> agrees M img m' (G \<union> (\<Union>s \<in> set segs. segBytes s))"
proof (induction segs arbitrary: m G)
  case (Cons s ss)
  let ?b = "take (unat (segLen s)) (drop (unat (segOff s)) img)"
  have i: "segInside img s" using Cons.prems(1) by simp
  then have r: "unat (segOff s) + unat (segLen s) \<le> length img" by (simp add: segInside_def)
  then have "length ?b = unat (segLen s)" by simp
  with r Cons.prems(2) linear_memory.write_range [OF L, of m "segOff s" ?b]
  obtain m1 where w: "memWrite M m (segOff s) ?b = Some m1" by auto
  have "agrees M img m1 (G \<union> segBytes s)"
    unfolding segBytes_def by (rule agrees_write [OF L w HOL.refl r l Cons.prems(3)])
  with Cons.IH [of m1 "G \<union> segBytes s"] Cons.prems linear_memory.write_len [OF L w]
  show ?case by (auto simp: imageSlice_inside [OF i l] w Un_assoc)
qed auto

section \<open>The template\<close>

lemma readTemplate_Inr: "readTemplate E i = (j, Inr img) \<Longrightarrow>
    memRead (ieMem E) (iMem i) 0 (memSize (ieMem E) (iMem i)) = Some img"
  by (auto simp: readTemplate_def guest_def yield_def Let_def split: if_splits option.splits)

lemma installImage_cases:
  assumes "zrZygote (installImage Z segs img) = Some z"
  shows "z = \<lparr>zImage = img, zSegs = segs\<rparr>" and "list_all (segInside img) segs"
  using assms by (auto simp: installImage_def zyNothing_def zyFail_def split: if_splits option.splits)

lemma countResources_none:
  assumes "countResources E i = (j, 0, 0)"
  shows "mapLen (sockets (iState (yield E i))) = 0 \<and> mapLen (timers (iState (yield E (yield E i)))) = 0 \<and> iMem j = iMem i"
  using assms by (auto simp: countResources_def yield_def)

lemma snapshot_cases:
  assumes "snapshot E Z segs i = (k, res)" and "zrZygote res = Some z"
  obtains j where "countResources E i = (j, 0, 0)" and "zSegs z = segs"
    and "memRead (ieMem E) (iMem j) 0 (memSize (ieMem E) (iMem j)) = Some (zImage z)"
    and "list_all (segInside (zImage z)) (zSegs z)"
proof -
  obtain j ns nt where c: "countResources E i = (j, ns, nt)" by (metis prod_cases3)
  then have e: "ns = 0" "nt = 0"
    using assms by (auto simp: snapshot_def zyFail_def zyNothing_def split: if_splits)
  obtain k' r where t: "readTemplate E j = (k', r)" by fastforce
  obtain img where r: "r = Inr img" and "res = installImage Z segs img"
    using assms e t c by (cases r) (auto simp: snapshot_def zyFail_def zyNothing_def)
  then have "zrZygote (installImage Z segs img) = Some z" using assms by simp
  from installImage_cases [OF this] readTemplate_Inr t r c e that show thesis by auto
qed

lemma initZygote_cases:
  assumes "zrZygote (fst (initZygote E V d r Z)) = Some z"
  obtains i0 i j out where "parseDataSegments (zyModule Z) = Inr (zSegs z)"
    "newFullInstance E V d r = (Some i0, None)" "call E warmup [] i0 = (i, Inr out)" "(ucast out :: i32) = 0"
    "countResources E i = (j, 0, 0)"
    "memRead (ieMem E) (iMem j) 0 (memSize (ieMem E) (iMem j)) = Some (zImage z)"
    "list_all (segInside (zImage z)) (zSegs z)"
proof -
  from assms obtain segs where 1: "parseDataSegments (zyModule Z) = Inr segs" and g: "\<not> (zyDisable Z \<or> \<not> zyAllocator Z)"
    by (cases "parseDataSegments (zyModule Z)") (auto simp: initZygote_def zyNothing_def split: if_splits)
  obtain oi e where n: "newFullInstance E V d r = (oi, e)" by fastforce
  obtain i0 where 2: "oi = Some i0" "e = None"
    using assms 1 g n by (cases e; cases oi) (auto simp: initZygote_def zyNothing_def zyFail_def)
  obtain i r' where w: "call E warmup [] i0 = (i, r')" by fastforce
  obtain out where 3: "r' = Inr out"
    using assms 1 g n 2 w by (cases r') (auto simp: initZygote_def zyNothing_def zyFail_def)
  obtain k res where s: "snapshot E Z segs i = (k, res)" by fastforce
  have z: "zrZygote res = Some z" and rc: "(ucast out :: i32) = 0"
    using assms 1 g n 2 w 3 s by (auto simp: initZygote_def Let_def zyNothing_def zyFail_def split: if_splits)
  from snapshot_cases [OF s z] obtain j where "countResources E i = (j, 0, 0)" "zSegs z = segs"
    "memRead (ieMem E) (iMem j) 0 (memSize (ieMem E) (iMem j)) = Some (zImage z)"
    "list_all (segInside (zImage z)) (zSegs z)" .
  with that 1 n 2 w 3 rc show thesis by simp
qed

text \<open>A zygote and its open file come together, without an error.\<close>

definition zyTidy :: "zyResult \<Rightarrow> bool" where
  "zyTidy r \<longleftrightarrow> (zrFileOpen r \<longleftrightarrow> zrZygote r \<noteq> None) \<and> (zrZygote r \<noteq> None \<longrightarrow> zrErr r = None)"

lemma zyTidy_results [simp]:
  "zyTidy zyNothing" "zyTidy (zyFail e)" "zyTidy (zyNothing\<lparr>zrZygote := Some z, zrFileOpen := True\<rparr>)"
  by (simp_all add: zyTidy_def zyNothing_def zyFail_def)

lemma zyTidy_snapshot [simp]: "zyTidy (snd (snapshot E Z segs i))"
  by (simp add: snapshot_def installImage_def case_prod_unfold split: option.split sum.split)

lemma zyTidy_initZygote [simp]: "zyTidy (fst (initZygote E V d r Z))"
  by (simp add: initZygote_def Let_def case_prod_unfold split: sum.split option.split)

lemma initZygote_closed: "snd (initZygote E V d r Z) = Some t \<Longrightarrow> iClosed t"
proof -
  have c: "iClosed (instClose i)" for i :: "'a inst" by (simp add: instClose_def)
  assume t: "snd (initZygote E V d r Z) = Some t"
  obtain oi e where n: "newFullInstance E V d r = (oi, e)" by fastforce
  show ?thesis
    using t n c newFullInstance_closed [of E V d r t]
    by (cases e; cases oi) (auto simp: initZygote_def case_prod_unfold split: if_splits sum.splits)
qed

section \<open>Clones\<close>

lemma zygote_image:
  assumes L: "linear_memory (ieMem E) memLen" and z: "zrZygote (fst (initZygote E V d r Z)) = Some z"
  shows "length (zImage z) < 2 ^ 32" "list_all (segInside (zImage z)) (zSegs z)" "parseDataSegments (zyModule Z) = Inr (zSegs z)"
proof -
  let ?M = "ieMem E"
  have "\<exists>i :: 'a inst. memRead ?M (iMem i) 0 (memSize ?M (iMem i)) = Some (zImage z)
      \<and> list_all (segInside (zImage z)) (zSegs z) \<and> parseDataSegments (zyModule Z) = Inr (zSegs z)"
    by (rule initZygote_cases [OF z]) blast
  then obtain i :: "'a inst" where "memRead ?M (iMem i) 0 (memSize ?M (iMem i)) = Some (zImage z)"
    and "list_all (segInside (zImage z)) (zSegs z)" "parseDataSegments (zyModule Z) = Inr (zSegs z)" by blast
  then show "list_all (segInside (zImage z)) (zSegs z)" "parseDataSegments (zyModule Z) = Inr (zSegs z)"
    "length (zImage z) < 2 ^ 32"
    using linear_memory.read_length [OF L] unsigned_less [of "memSize ?M (iMem i)", where 'a = nat] by auto
qed

lemma restoreImage_agrees:
  assumes L: "linear_memory (ieMem E) memLen" and z: "zrZygote (fst (initZygote E V d r Z)) = Some z"
    and "memLen m = length (zImage z)"
    and "agrees (ieMem E) (zImage z) m (- (\<Union>s \<in> set (zSegs z). segBytes s))"
  shows "\<exists>m'. restoreImage (ieMem E) z m = Some (Inr m') \<and> agrees (ieMem E) (zImage z) m' UNIV"
proof -
  note l = zygote_image(1) [OF L z] and inside = zygote_image(2) [OF L z]
  have sz: "unat (memSize (ieMem E) m) = length (zImage z)"
    using l assms(3) linear_memory.size [OF L, of m] by (simp add: unat_of_nat)
  from restoreSegs_agrees [OF L l inside assms(3,4)]
  show ?thesis by (simp only: Compl_partition2 restoreImage_def sz) simp
qed

text \<open>The slices of an installed image are in range, so creating an instance does not panic.\<close>

lemma restoreSegs_no_panic:
  "length img < 2 ^ 32 \<Longrightarrow> list_all (segInside img) ss \<Longrightarrow> restoreSegs M img ss m \<noteq> None"
  by (induction ss arbitrary: m) (auto simp: imageSlice_inside split: option.split)

lemma restoreImage_no_panic:
  assumes "zrZygote (fst (initZygote E V d r Z)) = Some z"
  shows "restoreImage M z m \<noteq> None"
proof (cases "unat (memSize M m) = length (zImage z)")
  case True
  then have "length (zImage z) < 2 ^ 32"
    using unsigned_less [of "memSize M m", where 'a = nat] by simp
  moreover have "list_all (segInside (zImage z)) (zSegs z)" by (rule initZygote_cases [OF assms])
  ultimately show ?thesis using True restoreSegs_no_panic by (simp add: restoreImage_def)
qed (simp add: restoreImage_def)

lemma newClone_no_panic:
  assumes "zrZygote (fst (initZygote E0 V0 d r Z)) = Some z"
  shows "newClone E V z \<noteq> None"
proof -
  have "snd (restoreClone E z i) \<noteq> Inr False" for i
    using restoreImage_no_panic [OF assms, of "ieMem E" "iMem i"]
    by (auto simp: restoreClone_def guest_def yield_def Let_def split: option.split sum.split)
  then show ?thesis
    by (auto simp: newClone_def split: option.split prod.split sum.split bool.split) (metis snd_conv)
qed

lemma newInstance_no_panic: "NewInstance E V d r isClosed (fst (initZygote E0 V0 d r Z)) \<noteq> None"
  using newClone_no_panic by (auto simp: NewInstance_def split: option.split)

text \<open>A returned instance without an error is there.\<close>

lemma newModuleInstance_some: "newModuleInstance M V = (oi, None) \<Longrightarrow> oi \<noteq> None"
  by (auto simp: newModuleInstance_def Let_def split: if_splits option.splits prod.splits)

lemma newInstance_some: "NewInstance E V d r isClosed zy \<noteq> Some (None, None)"
proof -
  obtain oi e where m: "newModuleInstance (ieMem E) V = (oi, e)" by fastforce
  have "startClone E i \<noteq> (None, None)" for i
    by (auto simp: startClone_def split: prod.split sum.split option.split)
  then have "newClone E V z \<noteq> Some (None, None)" for z
    using m newModuleInstance_some [of "ieMem E" V oi]
    by (cases e; cases oi) (auto simp: newClone_def split: prod.split sum.split bool.split)
  moreover have "newFullInstance E V d r \<noteq> (None, None)"
    using m newModuleInstance_some [of "ieMem E" V oi]
    by (cases e; cases oi) (auto simp: newFullInstance_def Let_def split: prod.split option.split)
  ultimately show ?thesis by (auto simp: NewInstance_def split: option.split)
qed

text \<open>The effects of an instance's operations extend to cloning, so every instance the runtime hands out is
  reached by steps of the interleaving model.\<close>

context inst_effect
begin

lemma restoreClone: "R i (fst (restoreClone E z i))"
  unfolding restoreClone_def by (rule guest) (auto intro: refl mem_write split: option.split sum.split)

lemma startClone: "startClone E i = (Some j, err) \<Longrightarrow> R i j"
proof -
  obtain i1 r1 where a: "call E reseed [] i = (i1, r1)" by fastforce
  obtain i2 r2 where b: "checkABIVersion E i1 = (i2, r2)" by fastforce
  have i1: "R i i1" using call [of i reseed] a by (metis fst_conv)
  moreover have "R i i2" using trans [OF i1] checkABIVersion b by (metis fst_conv)
  ultimately have "R i (instClose i1)" "R i i2" "R i (instClose i2)" using trans close by blast+
  moreover assume "startClone E i = (Some j, err)"
  ultimately show ?thesis using a b by (cases r1; cases r2) (auto simp: startClone_def)
qed

end

lemma newClone_reachable:
  assumes "production E" and "list_all (\<lambda>(A, g, c). replay (abiHost A) = None) (miStart V)"
    and "newClone E V z = Some (Some i, err)"
  shows "reachable (iState i, Idle)"
proof -
  note eff = production_effect [OF assms(1)]
  obtain oi e where m: "newModuleInstance (ieMem E) V = (oi, e)" by fastforce
  have mc: "reachable (iState j, Idle)" if "oi = Some j" for j
    using newModuleInstance_reachable [OF assms(2)] m that by blast
  show ?thesis
  proof (cases "oi = None \<or> e \<noteq> None")
    case True
    with assms(3) m mc show ?thesis by (auto simp: newClone_def split: option.splits)
  next
    case False
    then obtain j where j: "oi = Some j" "e = None" by auto
    obtain j1 r where a: "restoreClone E z j = (j1, r)" by fastforce
    have j1: "reachable (iState j1, Idle)"
      using reachable_trans [OF mc [OF j(1)]] inst_effect.restoreClone [OF eff, of j] a by (metis fst_conv)
    then have "reachable (iState k, Idle)" if "startClone E j1 = (Some k, err)" for k
      using reachable_trans inst_effect.startClone [OF eff that] by blast
    with j1 show ?thesis
      using assms(3) m j a reachable_close by (auto simp: newClone_def split: sum.splits bool.splits)
  qed
qed

lemma newInstance_reachable:
  assumes "production E" and "list_all (\<lambda>(A, g, c). replay (abiHost A) = None) (miStart V)"
    and "NewInstance E V d r isClosed zy = Some (Some i, err)"
  shows "reachable (iState i, Idle)"
  using assms(3) newClone_reachable [OF assms(1,2)] newFullInstance_reachable [OF assms(1,2)]
  by (auto simp: NewInstance_def split: if_splits option.splits)

lemma restoreClone_agrees:
  assumes L: "linear_memory (ieMem E) memLen" and "zrZygote (fst (initZygote E V d r Z)) = Some z"
    and "newModuleInstance (ieMem E) C = (Some i, None)" and "\<not> ieDead E 0"
    and "memLen (iMem i) = length (zImage z)"
    and "agrees (ieMem E) (zImage z) (iMem i) (- (\<Union>s \<in> set (zSegs z). segBytes s))"
  shows "\<exists>i'. restoreClone E z i = (i', Inr True) \<and> agrees (ieMem E) (zImage z) (iMem i') UNIV
     \<and> restoreImage (ieMem E) z (iMem i) = Some (Inr (iMem i')) \<and> iTrace i' = [] \<and> newClone E C z = Some (startClone E i')"
proof -
  have i: "iTick i = 0" "\<not> iDead i" "iTrace i = []"
    using assms(3) by (auto simp: newModuleInstance_def newInst_def Let_def case_prod_unfold split: if_splits option.splits)
  obtain m where m: "restoreImage (ieMem E) z (iMem i) = Some (Inr m)" "agrees (ieMem E) (zImage z) m UNIV"
    using restoreImage_agrees [OF assms(1,2,5,6)] by blast
  have "restoreClone E z i = ((yield E i)\<lparr>iMem := m\<rparr>, Inr True)"
    using m(1) i assms(4) by (simp add: restoreClone_def guest_def yield_def)
  with m i(3) assms(3) show ?thesis by (auto simp: newClone_def yield_def)
qed

section \<open>Properties\<close>

text \<open>C28: a zygote is only installed after a successful warmup, when the warmed template held no socket and no
  timer; its image is the template's whole memory, and every data segment of the module lies inside it.
  Without a zygote no image file stays open, and the template is closed in any case.\<close>

theorem initZygote_sound:
  "(case zrZygote (fst (initZygote E V d r Z)) of
      None \<Rightarrow> \<not> zrFileOpen (fst (initZygote E V d r Z))
    | Some z \<Rightarrow> zrErr (fst (initZygote E V d r Z)) = None
        \<and> parseDataSegments (zyModule Z) = Inr (zSegs z) \<and> list_all (segInside (zImage z)) (zSegs z)
        \<and> (\<exists>i0 i out. newFullInstance E V d r = (Some i0, None) \<and> call E warmup [] i0 = (i, Inr out)
             \<and> (ucast out :: i32) = 0 \<and> mapLen (sockets (iState (yield E i))) = 0
             \<and> mapLen (timers (iState (yield E (yield E i)))) = 0
             \<and> memRead (ieMem E) (iMem i) 0 (memSize (ieMem E) (iMem i)) = Some (zImage z)))
   \<and> (case snd (initZygote E V d r Z) of None \<Rightarrow> True | Some t \<Rightarrow> iClosed t)"
proof (rule conjI)
  note tidy = zyTidy_initZygote [of E V d r Z, unfolded zyTidy_def]
  show "case zrZygote (fst (initZygote E V d r Z)) of
      None \<Rightarrow> \<not> zrFileOpen (fst (initZygote E V d r Z))
    | Some z \<Rightarrow> zrErr (fst (initZygote E V d r Z)) = None
        \<and> parseDataSegments (zyModule Z) = Inr (zSegs z) \<and> list_all (segInside (zImage z)) (zSegs z)
        \<and> (\<exists>i0 i out. newFullInstance E V d r = (Some i0, None) \<and> call E warmup [] i0 = (i, Inr out)
             \<and> (ucast out :: i32) = 0 \<and> mapLen (sockets (iState (yield E i))) = 0
             \<and> mapLen (timers (iState (yield E (yield E i)))) = 0
             \<and> memRead (ieMem E) (iMem i) 0 (memSize (ieMem E) (iMem i)) = Some (zImage z))"
    using tidy by (auto split: option.split elim!: initZygote_cases dest!: countResources_none)
qed (use initZygote_closed in \<open>auto split: option.split\<close>)

text \<open>A clone starts from the template's memory: whatever instantiation wrote over the data segments of
  the mapped image, after the restore every byte is the image's, no slice panics, and only then the
  clone draws its own randomness and is checked.\<close>

theorem clone_restores_template:
  assumes "linear_memory (ieMem E) memLen" and "zrZygote (fst (initZygote E V d r Z)) = Some z"
    and "newModuleInstance (ieMem E) C = (Some i, None)" and "\<not> ieDead E 0"
    and "memLen (iMem i) = length (zImage z)"
    and "agrees (ieMem E) (zImage z) (iMem i) (- (\<Union>s \<in> set (zSegs z). segBytes s))"
  shows "\<exists>i'. restoreClone E z i = (i', Inr True) \<and> agrees (ieMem E) (zImage z) (iMem i') UNIV
     \<and> iTrace i' = [] \<and> newClone E C z = Some (startClone E i')"
  using restoreClone_agrees [OF assms] by blast

text \<open>A sample: a guest with room for the configuration, whose warmup leaves a memory of four bytes, and which answers
  every query at once.\<close>

definition tinyMem :: bytes where
  "tinyMem = replicate (8 + length defaultCanonicalConfig + length defaultTrustAnchors) 0"

definition tinyOut :: "export \<Rightarrow> u64" where
  "tinyOut f = (if f = alloc then 8 else if f = resolve_start \<or> f = result_get then 1 else 0)"

definition tinyGuest :: "nat \<Rightarrow> export \<Rightarrow> u64 list \<Rightarrow> bytes \<Rightarrow> (bytes, unit) guestAct" where
  "tinyGuest n f params m = \<lparr>gaCalls = [], gaAfter = (\<lambda>m. if f = warmup then [9, 8, 6, 5] else m),
     gaOut = Inr (tinyOut f)\<rparr>"

definition tinyEnv :: "(bytes, unit, (u16 \<times> dnsOption list) list) ienv" where
  "tinyEnv = \<lparr>ieMem = flat_ops, ieGuest = tinyGuest, ieOthers = (\<lambda>n s. s), ieClosed = (\<lambda>n. False),
     ieDead = (\<lambda>n. False), ieDns = sampleParser [] [], ieFold = Suc\<rparr>"

definition tinyStart :: "bytes \<Rightarrow> (bytes, unit) mienv" where
  "tinyStart m = \<lparr>miClosed = False, miErr = None, miMem = m, miStart = [], miAfter = (\<lambda>m. m), miSwept = False,
     miExports = requiredExports\<rparr>"

definition tinyRuntime :: runtime where
  "tinyRuntime = \<lparr>rtPages = 1024, rtAnchors = defaultTrustAnchors, rtHints = []\<rparr>"

definition sampleZyenv :: zyenv where
  "sampleZyenv = \<lparr>zyDisable = False, zyAllocator = True, zyModule = encModule [Data [(2, [7])]],
     zyCreateTemp = None, zyWriteImage = None, zyImageAlloc = True\<rparr>"

definition sampleZygote :: zygote where
  "sampleZygote = \<lparr>zImage = [9, 8, 6, 5], zSegs = [\<lparr>segOff = 2, segLen = 1\<rparr>]\<rparr>"

definition tinyInst :: "bytes \<Rightarrow> (export \<times> u64 list \<times> bool) list \<Rightarrow> nat \<Rightarrow> bytes inst" where
  "tinyInst m t n = \<lparr>iState = newInstanceState, iMem = m, iClosed = False, iDead = False, iRegistered = True,
     iTrace = t, iTick = n\<rparr>"

lemma tiny_yield [simp]: "yield tinyEnv (tinyInst m t n) = tinyInst m t (Suc n)" "ieMem tinyEnv = flat_ops"
  by (simp_all add: yield_def tinyEnv_def tinyInst_def)

lemma tinyInst_simps [simp]: "iMem (tinyInst m t n) = m" "iDead (tinyInst m t n) = False"
  "iState (tinyInst m t n) = newInstanceState" "(tinyInst m t n)\<lparr>iMem := m'\<rparr> = tinyInst m' t n"
  by (simp_all add: tinyInst_def)

lemma tiny_fCall [simp]: "fCall tinyEnv f params (tinyInst m t n) =
    (tinyInst (if f = warmup then [9, 8, 6, 5] else m) (t @ [(f, params, False)]) (Suc n),
     Inr (tinyOut f))"
  by (simp add: fCall_def tinyEnv_def tinyGuest_def tinyInst_def)

lemma tiny_call [simp]: "call tinyEnv f params (tinyInst m t n) =
    (tinyInst (if f = warmup then [9, 8, 6, 5] else m) (t @ [(f, params, False)]) (Suc (Suc n)),
     Inr (tinyOut f))"
  by (simp add: call_def guest_def)

lemma tinyOut_simps [simp]: "tinyOut alloc = 8" "tinyOut resolve_start = 1" "tinyOut result_get = 1" "tinyOut warmup = 0"
  "tinyOut init = 0" "tinyOut reseed = 0" "tinyOut unbound_wasm_abi_version = 0"
  by (simp_all add: tinyOut_def)

lemma tiny_alloc:
  assumes "8 + length b \<le> length m"
  shows "\<exists>m' t' n'. length m' = length m \<and> allocWrite tinyEnv b (tinyInst m t n) = (tinyInst m' t' n', Inr 8)"
proof (cases "b = []")
  case True
  then show ?thesis by (simp add: allocWrite_def guest_def) blast
next
  case False
  define m' where "m' = take 8 m @ b @ drop (8 + length b) m"
  have "flat_write m 8 b = Some m'" using assms by (simp add: flat_write_def m'_def)
  moreover have "length m' = length m" using assms by (simp add: m'_def)
  ultimately show ?thesis using False by (simp add: allocWrite_def guest_def) blast
qed

lemma tiny_freeAll: "\<exists>t' n'. freeAll tinyEnv vals ptrs (tinyInst m t n) = tinyInst m t' n'"
proof -
  have "\<exists>t' n'. fold (\<lambda>(p, v). free tinyEnv p (of_nat (length v))) ps (tinyInst m t n) = tinyInst m t' n'"
    for ps :: "(u32 \<times> bytes) list"
    by (induction ps arbitrary: t n) (auto simp: free_def)
  then show ?thesis by (simp add: freeAll_def)
qed

lemma tiny_module: "newModuleInstance flat_ops (tinyStart m) = (Some (tinyInst m [] 0), None)"
proof -
  have "find (\<lambda>n. n \<notin> set requiredExports) requiredExports = None" by (simp add: find_None_iff)
  then show ?thesis by (simp add: newModuleInstance_def tinyStart_def bindExports_def newInst_def tinyInst_def Let_def)
qed

lemma tiny_full: "\<exists>m t n. length m = length tinyMem
    \<and> newFullInstance tinyEnv (tinyStart tinyMem) False tinyRuntime = (Some (tinyInst m t n), None)"
proof -
  let ?l = "8 + length defaultCanonicalConfig + length defaultTrustAnchors"
  have v: "checkABIVersion tinyEnv (tinyInst tinyMem [] 0) =
      (tinyInst tinyMem [(unbound_wasm_abi_version, [], False)] 2, None)"
    by (simp add: checkABIVersion_def numeral_2_eq_2)
  obtain m2 t2 n2 where a: "length m2 = ?l" "allocWrite tinyEnv defaultCanonicalConfig
      (tinyInst tinyMem [(unbound_wasm_abi_version, [], False)] 2) = (tinyInst m2 t2 n2, Inr 8)"
    using tiny_alloc [of defaultCanonicalConfig tinyMem] by (force simp: tinyMem_def)
  obtain m3 t3 n3 where b: "length m3 = ?l" "allocWrite tinyEnv defaultTrustAnchors (tinyInst m2 t2 n2)
      = (tinyInst m3 t3 n3, Inr 8)"
    using tiny_alloc [of defaultTrustAnchors m2 t2 n2] a(1) by force
  obtain m4 t4 n4 where c: "length m4 = ?l" "allocWrite tinyEnv [] (tinyInst m3 t3 n3) = (tinyInst m4 t4 n4, Inr 8)"
    using tiny_alloc [of "[]" m3 t3 n3] b(1) by force
  have "\<exists>t n. newFullInstance tinyEnv (tinyStart tinyMem) False tinyRuntime = (Some (tinyInst m4 t n), None)"
    by (simp add: newFullInstance_def tiny_module v initialize_def tinyRuntime_def hintBytes_def a(2) b(2) c(2) Let_def)
      (rule tiny_freeAll)
  moreover have "length m4 = length tinyMem" using c(1) by (simp only: tinyMem_def length_replicate)
  ultimately show ?thesis by blast
qed

lemma sample_snapshot: "snd (snapshot tinyEnv sampleZyenv [\<lparr>segOff = 2, segLen = 1\<rparr>] (tinyInst [9, 8, 6, 5] t n))
    = \<lparr>zrZygote = Some sampleZygote, zrErr = None, zrFileOpen = True\<rparr>"
proof -
  have "countResources tinyEnv (tinyInst m t n) = (tinyInst m t (Suc (Suc n)), 0, 0)" for m
    by (simp add: countResources_def newInstanceState_def mapLen_def)
  moreover have "readTemplate tinyEnv (tinyInst [9, 8, 6, 5] t n) = (tinyInst [9, 8, 6, 5] t (Suc n), Inr [9, 8, 6, 5])"
    for n by (simp add: readTemplate_def guest_def flat_read_def)
  ultimately show ?thesis
    by (simp add: snapshot_def installImage_def segInside_def sampleZyenv_def sampleZygote_def zyNothing_def)
qed

lemma sample_zygote: "zrZygote (fst (initZygote tinyEnv (tinyStart tinyMem) False tinyRuntime sampleZyenv))
    = Some sampleZygote"
proof -
  have "length (encModule [Data [(2, [7])]]) < 2 ^ 63"
    by (simp add: encModule_def secBody_def ulebEnc.simps slebEnc.simps)
  then have p: "parseDataSegments (encModule [Data [(2, [7])]]) = Inr [\<lparr>segOff = 2, segLen = 1\<rparr>]"
    using parse_encModule [of "[Data [(2, [7])]]"] by simp
  obtain m t n where f: "newFullInstance tinyEnv (tinyStart tinyMem) False tinyRuntime
      = (Some (tinyInst m t n), None)" using tiny_full by blast
  have z: "zyModule sampleZyenv = encModule [Data [(2, [7])]]" "\<not> zyDisable sampleZyenv" "zyAllocator sampleZyenv"
    by (simp_all add: sampleZyenv_def)
  show ?thesis by (simp add: initZygote_def p f z case_prod_unfold sample_snapshot)
qed

theorem clone_restores_template_witness:
  "\<exists>i'. agrees flat_ops (zImage sampleZygote) (iMem i') UNIV
     \<and> newClone tinyEnv (tinyStart [9, 8, 7, 5]) sampleZygote = Some (startClone tinyEnv i')"
proof -
  let ?i = "tinyInst [9, 8, 7, 5] [] 0"
  have c: "\<not> ieDead tinyEnv 0" "length (iMem ?i) = length (zImage sampleZygote)"
    by (simp_all add: tinyEnv_def sampleZygote_def)
  have "agrees flat_ops (zImage sampleZygote) (iMem ?i) (- (\<Union>s \<in> set (zSegs sampleZygote). segBytes s))"
    by (auto simp: agrees_def sampleZygote_def segBytes_def flat_read_def less_Suc_eq)
  then have a: "agrees (ieMem tinyEnv) (zImage sampleZygote) (iMem ?i) (- (\<Union>s \<in> set (zSegs sampleZygote). segBytes s))"
    by simp
  have l: "linear_memory (ieMem tinyEnv) length" "newModuleInstance (ieMem tinyEnv) (tinyStart [9, 8, 7, 5]) = (Some ?i, None)"
    using flat.linear_memory_axioms tiny_module by simp_all
  from clone_restores_template [OF l(1) sample_zygote l(2) c a] show ?thesis by auto
qed

end
