(* ===== verification/Memory.thy ===== *)
theory Memory
  imports Prelude
begin

text \<open>
  The memory allocators of \<open>memory_unix.go\<close>: the three kinds of linear memory handed to wazero and
  the two functions that create them. The backing store of a memory is a list of bytes, the whole
  reservation for a mapped memory and the whole capacity for a slice; a nil buffer is \<^const>\<open>None\<close>.
  wazero sees a prefix of it and writes to it in place. Whether \<open>mmap\<close> succeeds is a parameter; fresh
  anonymous pages and the elements of a new slice are zero.

  On platforms without \<open>mmap\<close> (\<open>memory_other.go\<close>) both allocators are nil.
\<close>

section \<open>Linear memories\<close>

datatype linearMemory =
    mmapMemoryRegion "bytes option"
  | imageMemory "bytes option" nat
  | sliceMemory bytes nat

text \<open>
  \<open>buf[:size]\<close> of a mapped buffer: nil when the buffer is too short or was freed (a slice of a nil
  buffer is nil).
\<close>

definition sliceTo :: "bytes option \<Rightarrow> nat \<Rightarrow> bytes option" where
  "sliceTo buf n = (case buf of None \<Rightarrow> None | Some b \<Rightarrow> if n > length b then None else Some (take n b))"

text \<open>\<open>Reallocate\<close> of each kind: the slice returned (nil as \<^const>\<open>None\<close>) and the memory afterwards.\<close>

definition mmapReallocate :: "bytes option \<Rightarrow> u64 \<Rightarrow> bytes option \<times> linearMemory" where
  [simp]: "mmapReallocate buf n = (sliceTo buf (unat n), mmapMemoryRegion buf)"

definition imageReallocate :: "bytes option \<Rightarrow> nat \<Rightarrow> u64 \<Rightarrow> bytes option \<times> linearMemory" where
  [simp]: "imageReallocate buf imageLen n =
     (let n = (if unat n < imageLen then imageLen else unat n) in (sliceTo buf n, imageMemory buf imageLen))"

definition sliceReallocate :: "bytes \<Rightarrow> nat \<Rightarrow> u64 \<Rightarrow> bytes option \<times> linearMemory" where
  [simp]: "sliceReallocate arr len n =
     (let n = (if unat n < len then len else unat n) in
      if n > length arr then (let b = take len arr @ replicate (n - len) 0 in (Some b, sliceMemory b n))
      else (Some (take n arr), sliceMemory arr n))"

fun Reallocate :: "linearMemory \<Rightarrow> u64 \<Rightarrow> bytes option \<times> linearMemory" where
  "Reallocate (mmapMemoryRegion buf) n = mmapReallocate buf n"
| "Reallocate (imageMemory buf imageLen) n = imageReallocate buf imageLen n"
| "Reallocate (sliceMemory arr len) n = sliceReallocate arr len n"

definition mmapFree :: "bytes option \<Rightarrow> linearMemory" where
  [simp]: "mmapFree buf = mmapMemoryRegion (case buf of None \<Rightarrow> buf | Some b \<Rightarrow> None)"

definition imageFree :: "bytes option \<Rightarrow> nat \<Rightarrow> linearMemory" where
  [simp]: "imageFree buf imageLen = imageMemory (case buf of None \<Rightarrow> buf | Some b \<Rightarrow> None) imageLen"

definition sliceFree :: linearMemory where
  [simp]: "sliceFree = sliceMemory [] 0"

fun Free :: "linearMemory \<Rightarrow> linearMemory" where
  "Free (mmapMemoryRegion buf) = mmapFree buf"
| "Free (imageMemory buf imageLen) = imageFree buf imageLen"
| "Free (sliceMemory arr len) = sliceFree"

section \<open>Allocators\<close>

text \<open>The argument \<open>ok\<close> says whether the system call succeeds.\<close>

definition mmapMemory :: "bool \<Rightarrow> u64 \<Rightarrow> linearMemory" where
  "mmapMemory ok maxBytes =
     (if unat maxBytes > 2 ^ 63 - 1 then sliceMemory [] 0
      else if \<not> ok then sliceMemory [] 0
      else mmapMemoryRegion (Some (replicate (unat maxBytes) 0)))"

definition newImageAllocator :: "bool \<Rightarrow> bool \<Rightarrow> bytes \<Rightarrow> u64 \<Rightarrow> linearMemory" where
  "newImageAllocator ok okFixed img maxBytes =
     (if unat maxBytes \<le> 2 ^ 63 - 1 \<and> unat maxBytes \<ge> length img \<and> ok \<and> okFixed
      then imageMemory (Some (img @ replicate (unat maxBytes - length img) 0)) (length img)
      else sliceMemory img (length img))"

section \<open>Growing\<close>

text \<open>
  The abstract memory of a wasm instance is the list of its bytes; growing appends zeros. A memory
  implements it when the visible prefix is that list and what lies behind is zero. The guest's stores go
  to the visible prefix.
\<close>

fun backing :: "linearMemory \<Rightarrow> bytes" where
  "backing (mmapMemoryRegion buf) = (case buf of None \<Rightarrow> [] | Some b \<Rightarrow> b)"
| "backing (imageMemory buf imageLen) = (case buf of None \<Rightarrow> [] | Some b \<Rightarrow> b)"
| "backing (sliceMemory arr len) = arr"

fun storeByte :: "linearMemory \<Rightarrow> nat \<Rightarrow> u8 \<Rightarrow> linearMemory" where
  "storeByte (mmapMemoryRegion buf) a v = mmapMemoryRegion (map_option (\<lambda>b. b[a := v]) buf)"
| "storeByte (imageMemory buf imageLen) a v = imageMemory (map_option (\<lambda>b. b[a := v]) buf) imageLen"
| "storeByte (sliceMemory arr len) a v = sliceMemory (arr[a := v]) len"

fun lower :: "linearMemory \<Rightarrow> nat" where
  "lower (mmapMemoryRegion buf) = 0"
| "lower (imageMemory buf imageLen) = imageLen"
| "lower (sliceMemory arr len) = len"

fun isSlice :: "linearMemory \<Rightarrow> bool" where
  "isSlice (sliceMemory arr len) = True"
| "isSlice _ = False"

definition implements :: "linearMemory \<Rightarrow> bytes \<Rightarrow> bool" where
  "implements lm m \<longleftrightarrow> (if isSlice lm then lower lm = length m else lower lm \<le> length m)
     \<and> (\<exists>k. backing lm = m @ replicate k 0)"

lemma implements_store:
  assumes "implements lm m" and "a < length m"
  shows "implements (storeByte lm a v) (m[a := v])"
proof -
  obtain k where k: "backing lm = m @ replicate k 0" using assms by (auto simp: implements_def)
  then have "backing (storeByte lm a v) = m[a := v] @ replicate k 0"
    using assms(2) by (cases lm) (auto simp: list_update_append split: option.splits)
  moreover have "lower (storeByte lm a v) = lower lm" "isSlice (storeByte lm a v) = isSlice lm"
    by (cases lm; simp)+
  ultimately show ?thesis using assms by (auto simp: implements_def)
qed

lemma sliceTo_zeros:
  assumes "(case buf of None \<Rightarrow> [] | Some b \<Rightarrow> b) = m @ replicate k 0" and "length m \<le> n"
  shows "case sliceTo buf n of Some v \<Rightarrow> v = m @ replicate (n - length m) 0 \<and> n \<le> length m + k
     | None \<Rightarrow> buf = None \<or> n > length m + k"
  using assms by (cases buf) (auto simp: sliceTo_def)

lemma zeros_split: "n \<le> length m + k \<Longrightarrow> length m \<le> n \<Longrightarrow>
   m @ replicate k (0 :: u8) = (m @ replicate (n - length m) 0) @ replicate (k - (n - length m)) 0"
  by (simp flip: replicate_add)

lemma implements_grow:
  assumes "backing lm = m @ replicate k 0" and "length m \<le> n" and "n \<le> length m + k"
    and "if isSlice lm then lower lm = n else lower lm \<le> n"
  shows "implements lm (m @ replicate (n - length m) 0)"
proof -
  have "backing lm = (m @ replicate (n - length m) 0) @ replicate (k - (n - length m)) 0"
    using zeros_split [OF assms(3,2)] assms(1) by (rule trans [rotated])
  moreover have "length (m @ replicate (n - length m) (0 :: u8)) = n" using assms(2) by simp
  ultimately show ?thesis using assms(4) unfolding implements_def by (metis (no_types))
qed

lemma implements_mmapMemory: "implements (mmapMemory ok maxBytes) []"
  by (simp add: implements_def mmapMemory_def)

lemma implements_image: "implements (newImageAllocator ok okFixed img maxBytes) img"
  "lower (newImageAllocator ok okFixed img maxBytes) = length img"
  by (auto simp: implements_def newImageAllocator_def)

lemma Reallocate_step:
  assumes "implements lm m" and "length m \<le> unat n \<or> lower lm = length m"
  shows "case Reallocate lm n of
      (Some v, lm') \<Rightarrow> v = m @ replicate (unat n - length m) 0 \<and> implements lm' v
    | (None, lm') \<Rightarrow> lm' = lm \<and> unat n \<ge> length (backing lm)"
proof (cases lm)
  case (mmapMemoryRegion buf)
  then obtain k where k: "(case buf of None \<Rightarrow> [] | Some b \<Rightarrow> b) = m @ replicate k 0" and n: "length m \<le> unat n"
    using assms by (auto simp: implements_def)
  have b: "backing lm = m @ replicate k 0" using k by (simp add: mmapMemoryRegion)
  show ?thesis
  proof (cases "sliceTo buf (unat n)")
    case None
    then show ?thesis using sliceTo_zeros [OF k n] b by (auto simp: mmapMemoryRegion)
  next
    case (Some v)
    then show ?thesis
      using sliceTo_zeros [OF k n] implements_grow [OF b n] by (simp add: mmapMemoryRegion)
  qed
next
  case (imageMemory buf imageLen)
  let ?n = "if unat n < imageLen then imageLen else unat n"
  obtain k where k: "(case buf of None \<Rightarrow> [] | Some b \<Rightarrow> b) = m @ replicate k 0"
    and n: "length m \<le> ?n" "?n - length m = unat n - length m" and l: "imageLen \<le> length m"
    using assms imageMemory by (auto simp: implements_def)
  have b: "backing lm = m @ replicate k 0" using k by (simp add: imageMemory)
  show ?thesis
  proof (cases "sliceTo buf ?n")
    case None
    then show ?thesis using sliceTo_zeros [OF k n(1)] b l by (auto simp: imageMemory split: if_splits)
  next
    case (Some v)
    then show ?thesis
      using sliceTo_zeros [OF k n(1)] implements_grow [OF b n(1)] n(2) by (simp add: imageMemory)
  qed
next
  case (sliceMemory arr len)
  then obtain k where arr: "arr = m @ replicate k 0" "len = length m"
    using assms by (auto simp: implements_def)
  show ?thesis
  proof (cases "max (unat n) len > length arr")
    case True
    then show ?thesis using sliceMemory arr by (auto simp: implements_def max_def Let_def split: if_splits)
  next
    case False
    then show ?thesis
      using sliceMemory arr implements_grow [of "sliceMemory arr (max (unat n) len)" m k "max (unat n) len"]
      by (simp add: Let_def max_def split: if_splits)
  qed
qed

text \<open>Freeing twice is freeing once, and a freed mapping is never handed out again.\<close>

lemma Free_idem: "Free (Free lm) = Free lm"
  by (cases lm) (simp_all split: option.splits)

lemma Free_Reallocate: "\<not> isSlice lm \<Longrightarrow> fst (Reallocate (Free lm) n) = None"
  by (cases lm) (simp_all add: sliceTo_def split: option.splits)

section \<open>Runs\<close>

text \<open>
  What wazero does with a linear memory: the guest stores a byte (a store outside the visible memory traps
  and changes nothing) or the memory grows to a size in bytes, which may fail.
\<close>

datatype memOp = Store nat u8 | Grow u64

fun runOps :: "('b \<Rightarrow> u64 \<Rightarrow> bytes option \<times> 'b) \<Rightarrow> ('b \<Rightarrow> nat \<Rightarrow> u8 \<Rightarrow> 'b) \<Rightarrow>
    memOp list \<Rightarrow> 'b \<Rightarrow> nat \<Rightarrow> 'b \<times> bool list" where
  "runOps grow store [] b k = (b, [])"
| "runOps grow store (Store a v # ops) b k =
     (case runOps grow store ops (if a < k then store b a v else b) k of (b, os) \<Rightarrow> (b, (a < k) # os))"
| "runOps grow store (Grow n # ops) b k =
     (if unat n < k then (case runOps grow store ops b k of (b, os) \<Rightarrow> (b, False # os))
      else case grow b n of
        (None, b) \<Rightarrow> (case runOps grow store ops b k of (b, os) \<Rightarrow> (b, False # os))
      | (Some v, b) \<Rightarrow> (case runOps grow store ops b (length v) of (b, os) \<Rightarrow> (b, True # os)))"

text \<open>The same on the abstract memory, given which operations succeeded.\<close>

fun absOps :: "(memOp \<times> bool) list \<Rightarrow> bytes \<Rightarrow> bytes" where
  "absOps [] m = m"
| "absOps ((Store a v, ok) # ops) m = absOps ops (if ok then m[a := v] else m)"
| "absOps ((Grow n, ok) # ops) m = absOps ops (if ok then m @ replicate (unat n - length m) 0 else m)"

locale growable =
  fixes impl :: "'b \<Rightarrow> bytes \<Rightarrow> bool" and grow :: "'b \<Rightarrow> u64 \<Rightarrow> bytes option \<times> 'b"
    and store :: "'b \<Rightarrow> nat \<Rightarrow> u8 \<Rightarrow> 'b"
  assumes store: "impl b m \<Longrightarrow> a < length m \<Longrightarrow> impl (store b a v) (m[a := v])"
    and grow: "impl b m \<Longrightarrow> length m \<le> unat n \<Longrightarrow>
      (case grow b n of (Some v, b') \<Rightarrow> v = m @ replicate (unat n - length m) 0 \<and> impl b' v
       | (None, b') \<Rightarrow> impl b' m)"
begin

lemma run: "impl b m \<Longrightarrow> runOps grow store ops b (length m) = (b', os) \<Longrightarrow> impl b' (absOps (zip ops os) m)"
proof (induction ops arbitrary: b m b' os)
  case (Cons x ops)
  show ?case
  proof (cases x)
    case (Store a v)
    let ?b = "if a < length m then store b a v else b" and ?m = "if a < length m then m[a := v] else m"
    obtain b1 os1 where r: "runOps grow store ops ?b (length ?m) = (b1, os1)" by fastforce
    have "impl ?b ?m" using store Cons.prems(1) by simp
    from Cons.IH [OF this r] r Cons.prems(2) Store show ?thesis by (cases "a < length m") auto
  next
    case (Grow n)
    obtain o' b1 where g: "grow b n = (o', b1)" by fastforce
    show ?thesis
    proof (cases "unat n < length m")
      case True
      with Cons.IH [OF Cons.prems(1)] Cons.prems(2) Grow show ?thesis by (auto split: prod.splits)
    next
      case False
      note law = grow [OF Cons.prems(1), of n, unfolded g]
      show ?thesis
      proof (cases o')
        case None
        obtain b2 os2 where r: "runOps grow store ops b1 (length m) = (b2, os2)" by fastforce
        have "impl b1 m" using law False None by simp
        from Cons.IH [OF this r] r Cons.prems(2) Grow False g None show ?thesis by auto
      next
        case (Some v)
        obtain b2 os2 where r: "runOps grow store ops b1 (length v) = (b2, os2)" by fastforce
        have v: "v = m @ replicate (unat n - length m) 0" "impl b1 v" using law False Some by auto
        from Cons.IH [OF v(2) r] r Cons.prems(2) Grow False g Some v(1) show ?thesis by auto
      qed
    qed
  qed
qed simp

end

interpretation linear: growable implements Reallocate storeByte
proof
  fix lm m and n :: u64
  assume m: "implements lm m" "length m \<le> unat n"
  obtain o' lm' where r: "Reallocate lm n = (o', lm')" by fastforce
  show "case Reallocate lm n of (Some v, b') \<Rightarrow> v = m @ replicate (unat n - length m) 0 \<and> implements b' v
      | (None, b') \<Rightarrow> implements b' m"
    using Reallocate_step [OF m(1), of n] m r by (cases o') auto
qed (rule implements_store)

section \<open>Properties\<close>

text \<open>C26: the linear memories of both allocators implement the growable zero-filled memory of a wasm instance:
  after any sequence of stores and growths, failed ones included, the visible bytes are those of the abstract
  memory, which starts empty or, for a clone, as the image, and the bytes behind them are zero.\<close>

theorem linear_memory_refines:
  "implements (fst (runOps Reallocate storeByte ops (mmapMemory ok maxBytes) 0))
     (absOps (zip ops (snd (runOps Reallocate storeByte ops (mmapMemory ok maxBytes) 0))) [])
   \<and> implements (fst (runOps Reallocate storeByte ops (newImageAllocator ok okFixed img maxBytes) (length img)))
     (absOps (zip ops (snd (runOps Reallocate storeByte ops (newImageAllocator ok okFixed img maxBytes) (length img)))) img)"
  using linear.run [OF implements_mmapMemory, of ops ok maxBytes] linear.run [OF implements_image(1), of ops ok okFixed img maxBytes]
  by (metis list.size(3) prod.collapse)

end
