(* ===== verification/Clone.thy ===== *)
theory Clone
  imports Zygote Memory
begin

text \<open>
  The allocators of the platforms (\<open>memory_unix.go\<close>, \<open>memory_other.go\<close>), and the memory of a clone from its
  allocation to the end of the restore: the image allocator, the data segments that instantiation writes, and
  \<open>newClone\<close> together leave the image of the template.
\<close>

section \<open>Platforms\<close>

datatype platform = Unix | NotUnix

text \<open>A nil allocator is \<^const>\<open>None\<close>. The arguments of the allocators say whether their system calls succeed.\<close>

definition guestMemoryAllocator :: "platform \<Rightarrow> (bool \<Rightarrow> u64 \<Rightarrow> linearMemory) option" where
  "guestMemoryAllocator p = (case p of Unix \<Rightarrow> Some mmapMemory | NotUnix \<Rightarrow> None)"

definition imageAllocator :: "platform \<Rightarrow> bytes \<Rightarrow> (bool \<Rightarrow> bool \<Rightarrow> u64 \<Rightarrow> linearMemory) option" where
  "imageAllocator p img = (case p of Unix \<Rightarrow> Some (\<lambda>ok okFixed. newImageAllocator ok okFixed img) | NotUnix \<Rightarrow> None)"

definition onPlatform :: "platform \<Rightarrow> zyenv \<Rightarrow> zyenv" where
  "onPlatform p Z = Z\<lparr>zyAllocator := guestMemoryAllocator p \<noteq> None, zyImageAlloc := imageAllocator p [] \<noteq> None\<rparr>"

text \<open>Without \<open>mmap\<close> there is no zygote and every instance is created in full.\<close>

lemma no_zygote_elsewhere: "initZygote E V d r (onPlatform NotUnix Z) = (zyNothing, None)"
  by (simp add: initZygote_def onPlatform_def guestMemoryAllocator_def)

lemma full_elsewhere:
  "NewInstance E V d r False (fst (initZygote T C d r (onPlatform NotUnix Z))) = Some (newFullInstance E V d r)"
  by (simp add: no_zygote_elsewhere NewInstance_def zyNothing_def)

section \<open>The memory of a clone\<close>

text \<open>The first allocation of a clone is the image, mapped or copied, for any smaller minimum of the module.\<close>

lemma image_allocated:
  assumes "unat minBytes \<le> length img"
  shows "fst (Reallocate (newImageAllocator ok okFixed img maxBytes) minBytes) = Some img"
proof -
  obtain v lm where r: "Reallocate (newImageAllocator ok okFixed img maxBytes) minBytes = (v, lm)" by fastforce
  have "v \<noteq> None" using r assms by (auto simp: newImageAllocator_def sliceTo_def Let_def split: if_splits)
  then show ?thesis
    using Reallocate_step [OF implements_image(1), of img minBytes ok okFixed maxBytes] r assms
    by (auto simp: implements_image(2))
qed

lemma flat_byte: "q < length m \<Longrightarrow> length m < 2 ^ 32 \<Longrightarrow> flat_read m (of_nat q) 1 = Some [m ! q]"
proof -
  assume q: "q < length m" "length m < 2 ^ 32"
  then have "unat (of_nat q :: u32) = q" by (simp add: unat_of_nat)
  moreover have "take (Suc 0) (drop q m) = [m ! q]" using q(1) by (simp add: take_Suc_conv_app_nth)
  ultimately show ?thesis using q by (simp add: flat_read_def)
qed

lemma restoreSegs_len:
  assumes "linear_memory M memLen"
  shows "restoreSegs M img segs m = Some (Inr m') \<Longrightarrow> memLen m' = memLen m"
proof (induction segs arbitrary: m)
  case (Cons s ss)
  then show ?case using linear_memory.write_len [OF assms] by (auto split: option.splits)
qed simp

text \<open>The addresses of the active data segments of a module.\<close>

fun secData :: "wasmSection \<Rightarrow> nat set" where
  "secData (Other i payload) = {}"
| "secData (Data segs) = (\<Union>(off, b) \<in> set segs. {off ..< off + length b})"

lemma secRanges_data:
  assumes "secOk s"
  shows "(\<Union>x \<in> set (secRanges s). segBytes x) = secData s"
proof (cases s)
  case (Data segs)
  have b: "segBytes \<lparr>segOff = of_nat off, segLen = of_nat (length b)\<rparr> = {off ..< off + length b}" if "(off, b) \<in> set segs" for off b
  proof -
    have "off < 2 ^ 32" "length b < 2 ^ 32" using that assms Data by (auto simp: list_all_iff)
    then have "unat (of_nat off :: u32) = off" "unat (of_nat (length b) :: u32) = length b" by (simp_all add: unat_of_nat)
    then show ?thesis by (simp only: segBytes_def segRange.simps)
  qed
  have "(\<Union>x \<in> set (secRanges s). segBytes x)
      = (\<Union>y \<in> set segs. segBytes \<lparr>segOff = of_nat (fst y), segLen = of_nat (length (snd y))\<rparr>)"
    by (simp add: Data case_prod_unfold)
  also have "\<dots> = (\<Union>y \<in> set segs. {fst y ..< fst y + length (snd y)})"
    using b by (intro SUP_cong HOL.refl) simp
  finally show ?thesis by (simp only: Data secData.simps case_prod_unfold)
qed simp

lemma module_data:
  assumes "list_all secOk secs"
  shows "(\<Union>x \<in> set (concat (map secRanges secs)). segBytes x) = (\<Union>s \<in> set secs. secData s)"
proof -
  have "(\<Union>x \<in> set (concat (map secRanges secs)). segBytes x) = (\<Union>s \<in> set secs. \<Union>x \<in> set (secRanges s). segBytes x)" by simp
  also have "\<dots> = (\<Union>s \<in> set secs. secData s)" using assms secRanges_data by (simp add: list_all_iff)
  finally show ?thesis .
qed

section \<open>Properties\<close>

text \<open>C27: the memory of a clone. The allocator gives the image of the template, mapped or, when a system call
  fails, copied; instantiation writes nothing but the data segments of the module; and after the restore the
  whole memory of the clone is the image again, before the clone draws its randomness. The ranges restored are those that
  the parser found in the module.\<close>

theorem clone_memory_is_image:
  assumes "list_all secOk secs" and "length (encModule secs) < 2 ^ 63" and "zyModule Z = encModule secs"
    and "zrZygote (fst (initZygote E V d r Z)) = Some z" and "ieMem E = flat_ops" and "unat minBytes \<le> length (zImage z)"
    and "fst (Reallocate (newImageAllocator ok okFixed (zImage z) maxBytes) minBytes) = Some v"
    and "newModuleInstance flat_ops C = (Some i, None)" and "\<not> ieDead E 0" and "length (iMem i) = length v"
    and "\<And>q. q < length v \<Longrightarrow> q \<notin> (\<Union>s \<in> set secs. secData s) \<Longrightarrow> iMem i ! q = v ! q"
  shows "\<exists>i'. restoreClone E z i = (i', Inr True) \<and> iMem i' = zImage z \<and> iTrace i' = [] \<and> newClone E C z = Some (startClone E i')"
proof -
  have L: "linear_memory (ieMem E) length" using flat.linear_memory_axioms assms(5) by simp
  note z = zygote_image [OF L assms(4)]
  have v: "v = zImage z" using image_allocated [OF assms(6)] assms(7) by simp
  have "zSegs z = concat (map secRanges secs)" using parse_encModule [OF assms(1,2)] z(3) assms(3) by simp
  then have "(\<Union>x \<in> set (zSegs z). segBytes x) = (\<Union>s \<in> set secs. secData s)" using module_data [OF assms(1)] by simp
  then have "agrees (ieMem E) (zImage z) (iMem i) (- (\<Union>s \<in> set (zSegs z). segBytes s))"
    using assms(5,10,11) v z(1) by (simp add: agrees_def flat_byte)
  then obtain i' where i': "restoreClone E z i = (i', Inr True)" "agrees flat_ops (zImage z) (iMem i') UNIV"
    "restoreImage flat_ops z (iMem i) = Some (Inr (iMem i'))" "iTrace i' = []" "newClone E C z = Some (startClone E i')"
    using restoreClone_agrees [OF L assms(4) _ assms(9)] assms(5,8,10) v by auto
  have "length (iMem i') = length (iMem i)"
    using i'(3) restoreSegs_len [OF flat.linear_memory_axioms] by (auto simp: restoreImage_def split: if_splits)
  then have "length (iMem i') = length (zImage z)" using assms(10) v by simp
  moreover from this have "iMem i' ! q = zImage z ! q" if "q < length (zImage z)" for q
    using that i'(2) z(1) flat_byte [of q "iMem i'"] by (simp add: agrees_def)
  ultimately have "iMem i' = zImage z" by (intro nth_equalityI) simp_all
  with i' show ?thesis by blast
qed

theorem clone_memory_is_image_witness:
  "\<exists>i'. restoreClone tinyEnv sampleZygote (tinyInst [9, 8, 7, 5] [] 0) = (i', Inr True) \<and> iMem i' = [9, 8, 6, 5]"
proof -
  let ?secs = "[Data [(2, [7])]]"
  have l: "length (encModule ?secs) < 2 ^ 63" by (simp add: encModule_def secBody_def ulebEnc.simps slebEnc.simps)
  have c: "list_all secOk ?secs" "zyModule sampleZyenv = encModule ?secs" "ieMem tinyEnv = flat_ops" "\<not> ieDead tinyEnv 0"
    "unat (4 :: u64) \<le> length (zImage sampleZygote)" "length (iMem (tinyInst [9, 8, 7, 5] [] 0)) = length (zImage sampleZygote)"
    by (simp_all add: sampleZyenv_def tinyEnv_def sampleZygote_def)
  have q: "iMem (tinyInst [9, 8, 7, 5] [] 0) ! q = zImage sampleZygote ! q"
    if "q < length (zImage sampleZygote)" "q \<notin> (\<Union>s \<in> set ?secs. secData s)" for q
    using that by (auto simp: sampleZygote_def less_Suc_eq)
  from clone_memory_is_image [OF c(1) l c(2) sample_zygote c(3,5) image_allocated [OF c(5)] tiny_module c(4,6) q]
  show ?thesis by (auto simp: sampleZygote_def)
qed

end
