(* ===== verification/Api.thy ===== *)
theory Api
  imports GoErrors GoText
begin

text \<open>
  The texts of errors: \<open>EDE.String\<close> with its table of names, the \<open>Error\<close> methods of \<open>BogusError\<close>,
  \<open>ResponseError\<close> (\<open>unbound.go\<close>) and \<open>QueryError\<close> (\<open>runtime.go\<close>), and the text of any error the package
  returns. The types themselves are the record \<open>EDE\<close> and constructors of \<open>goerr\<close>.
\<close>

section \<open>Extended DNS errors\<close>

definition edeNames :: "string list" where
  "edeNames = [''Other Error'', ''Unsupported DNSKEY Algorithm'', ''Unsupported DS Digest Type'', ''Stale Answer'',
     ''Forged Answer'', ''DNSSEC Indeterminate'', ''DNSSEC Bogus'', ''Signature Expired'',
     ''Signature Not Yet Valid'', ''DNSKEY Missing'', ''RRSIGs Missing'', ''No Zone Key Bit Set'',
     ''NSEC Missing'', ''Cached Error'', ''Not Ready'', ''Blocked'', ''Censored'', ''Filtered'', ''Prohibited'',
     ''Stale NXDOMAIN Answer'', ''Not Authoritative'', ''Not Supported'', ''No Reachable Authority'',
     ''Network Error'', ''Invalid Data'']"

definition EDE_String :: "EDE \<Rightarrow> string" where
  "EDE_String e =
     (let s = (if unat (Code e) < length edeNames then edeNames ! unat (Code e)
               else ''EDE '' @ itoa (int (unat (Code e))))
      in if Text e \<noteq> [] then s @ '': '' @ Text e else s)"

section \<open>Errors\<close>

definition BogusError_Error :: "string \<Rightarrow> EDE list \<Rightarrow> string" where
  "BogusError_Error reason edes = ''unbound: DNSSEC validation failed: '' @ reason"

definition rcodeText :: "int \<Rightarrow> string" where
  "rcodeText rcode =
     (if rcode = 1 then ''FORMERR'' else if rcode = 2 then ''SERVFAIL'' else if rcode = 4 then ''NOTIMP''
      else if rcode = 5 then ''REFUSED'' else ''rcode '' @ itoa rcode)"

fun addEDEs :: "string \<Rightarrow> EDE list \<Rightarrow> string" where
  "addEDEs msg [] = msg"
| "addEDEs msg (ede # edes) = addEDEs (msg @ '' ('' @ EDE_String ede @ '')'') edes"

definition ResponseError_Error :: "int \<Rightarrow> EDE list \<Rightarrow> string" where
  "ResponseError_Error rcode edes = addEDEs (''unbound: resolution failed: '' @ rcodeText rcode) edes"

definition QueryError_Error :: "(nat \<Rightarrow> bool) \<Rightarrow> Query \<Rightarrow> string \<Rightarrow> string" where
  "QueryError_Error pr q err =
     ''unbound: query '' @ Quote pr (QName q) @ '' type '' @ itoa (int (unat (QType q))) @ '': '' @ err"

text \<open>
  The text of an error. The texts of the operating system's errors and of \<open>*net.OpError\<close>, which names
  addresses, are the parameter \<open>os\<close>; \<open>errors.Join\<close> puts its errors on lines of their own.
\<close>

fun errText :: "(nat \<Rightarrow> bool) \<Rightarrow> (goerr \<Rightarrow> string) \<Rightarrow> goerr \<Rightarrow> string"
  and joinTexts :: "(nat \<Rightarrow> bool) \<Rightarrow> (goerr \<Rightarrow> string) \<Rightarrow> goerr list \<Rightarrow> string" where
  "errText pr os (ErrNew s) = s"
| "errText pr os (ErrWrapf s e) = s @ errText pr os e"
| "errText pr os (ErrErrno s n) = s @ itoa (sint n)"
| "errText pr os (ErrSys n) = os (ErrSys n)"
| "errText pr os (ErrOp e) = os (ErrOp e)"
| "errText pr os ErrDeadlineExceeded = ''context deadline exceeded''"
| "errText pr os ErrCanceled = ''context canceled''"
| "errText pr os ErrNetTimeout = ''i/o timeout''"
| "errText pr os ErrNetClosed = ''use of closed network connection''"
| "errText pr os ErrEOF = ''EOF''"
| "errText pr os ErrClosed = ''unbound: instance closed''"
| "errText pr os errEventQueueOverflow = ''unbound: host event queue overflowed''"
| "errText pr os (BogusError reason edes) = BogusError_Error reason edes"
| "errText pr os (ResponseError rcode edes) = ResponseError_Error rcode edes"
| "errText pr os (QueryError q e) = QueryError_Error pr q (errText pr os e)"
| "errText pr os (ErrJoin es) = joinTexts pr os es"
| "joinTexts pr os [] = []"
| "joinTexts pr os (e # es) = errText pr os e @ (if es = [] then [] else CHR 0x0A # joinTexts pr os es)"

section \<open>Reading decimal numbers\<close>

text \<open>
  \<open>strconv.ParseUint(s, 10, 16)\<close>: decimal digits only, refused as soon as the value exceeds 65535 (which
  comes before any overflow of the 64-bit accumulator).
\<close>

fun parseDigits :: "string \<Rightarrow> nat \<Rightarrow> nat option" where
  "parseDigits [] n = Some n"
| "parseDigits (c # cs) n =
     (if isDigit c
      then (let n = 10 * n + (of_char c - 48) in if n > 65535 then None else parseDigits cs n)
      else None)"

definition parseUint16 :: "string \<Rightarrow> nat option" where
  "parseUint16 s = (if s = [] then None else parseDigits s 0)"

lemma parseDigits_append: "parseDigits (xs @ ys) n = Option.bind (parseDigits xs n) (parseDigits ys)"
  by (induction xs n rule: parseDigits.induct) (simp_all add: Let_def)

lemma parseDigits_digits: "n \<le> 65535 \<Longrightarrow> parseDigits (digits n) 0 = Some n"
proof (induction n rule: digits.induct)
  case (1 n)
  show ?case
  proof (cases "n < 10")
    case True
    then show ?thesis by (subst digits.simps) simp
  next
    case False
    have "n mod 10 < 10" by simp
    with 1 False show ?thesis by (subst digits.simps) (simp add: parseDigits_append)
  qed
qed

lemma parseUint16_digits: "n \<le> 65535 \<Longrightarrow> parseUint16 (digits n) = Some n"
  by (simp add: parseUint16_def parseDigits_digits)

lemma parseUint16_bound: "parseUint16 s = Some n \<Longrightarrow> n \<le> 65535"
proof -
  have "parseDigits s k = Some n \<Longrightarrow> k \<le> 65535 \<Longrightarrow> n \<le> 65535" for k
    by (induction s k rule: parseDigits.induct) (auto simp: Let_def split: if_splits)
  then show "parseUint16 s = Some n \<Longrightarrow> n \<le> 65535" by (auto simp: parseUint16_def split: if_splits)
qed

section \<open>Names identify codes\<close>

lemma edeNames_distinct: "distinct edeNames"
  by (simp add: edeNames_def)

lemma edeNames_not_numbered: "list_all (\<lambda>s. take 4 s \<noteq> ''EDE '') edeNames"
  by (simp add: edeNames_def)

lemma EDE_String_plain: "Text e = [] \<Longrightarrow> EDE_String e =
    (if unat (Code e) < length edeNames then edeNames ! unat (Code e) else ''EDE '' @ itoa (int (unat (Code e))))"
  by (simp add: EDE_String_def Let_def)

lemma EDE_String_code:
  assumes "EDE_String e = EDE_String e'" and "Text e = []" and "Text e' = []"
  shows "Code e = Code e'"
proof -
  let ?c = "unat (Code e)" and ?d = "unat (Code e')"
  have le: "unat w \<le> 65535" for w :: u16
  proof -
    have "unat w < 65536" by (rule order.strict_trans2 [OF unsigned_less]) simp
    then show ?thesis by simp
  qed
  have n: "edeNames ! i \<noteq> ''EDE '' @ s" if "i < length edeNames" for i s
  proof
    assume "edeNames ! i = ''EDE '' @ s"
    moreover have "take 4 (edeNames ! i) \<noteq> ''EDE ''"
      using edeNames_not_numbered that unfolding list_all_length by blast
    ultimately show False by simp
  qed
  note eq = assms(1) [unfolded EDE_String_plain [OF assms(2)] EDE_String_plain [OF assms(3)]]
  consider "?c < length edeNames" "?d < length edeNames" | "?c < length edeNames" "\<not> ?d < length edeNames"
    | "\<not> ?c < length edeNames" "?d < length edeNames" | "\<not> ?c < length edeNames" "\<not> ?d < length edeNames"
    by blast
  then have "?c = ?d"
  proof cases
    case 1
    then have "edeNames ! ?c = edeNames ! ?d" using eq by (simp only: if_True if_False)
    then show ?thesis using nth_eq_iff_index_eq [OF edeNames_distinct 1] by blast
  next
    case 2
    then have "edeNames ! ?c = ''EDE '' @ itoa (int ?d)" using eq by (simp only: if_True if_False)
    with n [OF 2(1)] show ?thesis by blast
  next
    case 3
    then have "edeNames ! ?d = ''EDE '' @ itoa (int ?c)" using eq by (simp only: if_True if_False)
    with n [OF 3(2)] show ?thesis by blast
  next
    case 4
    then have "itoa (int ?c) = itoa (int ?d)" using eq by (simp only: if_False same_append_eq)
    then have "digits ?c = digits ?d" by (simp only: itoa_def) (simp only: nat_int of_nat_less_0_iff if_False)
    then show ?thesis by (metis option.inject parseUint16_digits [OF le])
  qed
  then show ?thesis by (simp only: word_unat_eq_iff)
qed

end
