(* ===== verification/Output.thy ===== *)
theory Output
  imports Answer Netip
begin

text \<open>
  What the command prints: the value it fills, as \<open>encoding/json\<close> writes it, on a line of its own. The reader
  is one of JSON (RFC 8259) for values of these kinds; the lemmas show that it reads back what is written.
\<close>

section \<open>JSON values\<close>

datatype 's json = JNum nat | JBool bool | JStr 's | JArr "'s json list" | JObj "('s \<times> 's json) list"

fun printJson :: "bytes json \<Rightarrow> bytes"
  and printElems :: "bytes json list \<Rightarrow> bytes"
  and printFields :: "(bytes \<times> bytes json) list \<Rightarrow> bytes" where
  "printJson (JNum n) = bytes_of_string (digits n)"
| "printJson (JBool b) = bytes_of_string (if b then ''true'' else ''false'')"
| "printJson (JStr s) = jsonString s"
| "printJson (JArr vs) = 0x5b # printElems vs @ [0x5d]"
| "printJson (JObj fs) = 0x7b # printFields fs @ [0x7d]"
| "printElems [] = []"
| "printElems (v # vs) = printJson v @ (if vs = [] then [] else 0x2c # printElems vs)"
| "printFields [] = []"
| "printFields ((k, v) # fs) = jsonString k @ 0x3a # printJson v @ (if fs = [] then [] else 0x2c # printFields fs)"

section \<open>The output\<close>

text \<open>The accessors of a result.\<close>

definition Result_Addrs :: "Result \<Rightarrow> addr list" where
  "Result_Addrs r = resAddrs r"

definition Result_TXT :: "Result \<Rightarrow> string list" where
  "Result_TXT r = resTxt r"

definition Result_CAA :: "Result \<Rightarrow> CAA list" where
  "Result_CAA r = resCaa r"

definition jsonText :: "string \<Rightarrow> bytes json" where
  "jsonText s = JStr (bytes_of_string s)"

text \<open>\<open>netip.Addr\<close> is a \<open>TextMarshaler\<close>; the zero address has no text.\<close>

definition jsonAddr :: "addr \<Rightarrow> bytes json" where
  "jsonAddr a = jsonText (if a = AddrZero then [] else addrString a)"

definition jsonCAA :: "CAA \<Rightarrow> bytes json" where
  "jsonCAA c = JObj [(bytes_of_string ''Flags'', JNum (unat (caaFlags c))), (bytes_of_string ''Tag'', jsonText (caaTag c)),
     (bytes_of_string ''Value'', jsonText (caaValue c))]"

text \<open>A field with \<open>omitempty\<close>.\<close>

definition jsonOmit :: "string \<Rightarrow> bytes json list \<Rightarrow> (bytes \<times> bytes json) list" where
  "jsonOmit k vs = (if vs = [] then [] else [(bytes_of_string k, JArr vs)])"

definition outValue :: "string \<Rightarrow> u16 \<Rightarrow> Result \<Rightarrow> bytes json" where
  "outValue name ty res = JObj (
     [(bytes_of_string ''name'', jsonText name), (bytes_of_string ''type'', JNum (unat ty)),
      (bytes_of_string ''secure'', JBool (Secure res)), (bytes_of_string ''have_data'', JBool (HaveData res)),
      (bytes_of_string ''nxdomain'', JBool (NXDomain res))]
     @ jsonOmit ''addrs'' (map jsonAddr (Result_Addrs res)) @ jsonOmit ''txt'' (map jsonText (Result_TXT res))
     @ jsonOmit ''caa'' (map jsonCAA (Result_CAA res))
     @ [(bytes_of_string ''answer_packet_base64'', JStr (base64Encode (AnswerPacket res)))])"

definition encodeOut :: "string \<Rightarrow> u16 \<Rightarrow> Result \<Rightarrow> bytes" where
  "encodeOut name ty res = printJson (outValue name ty res) @ [0x0a]"

section \<open>A reader\<close>

definition digitByte :: "u8 \<Rightarrow> bool" where
  "digitByte b \<longleftrightarrow> 48 \<le> unat b \<and> unat b \<le> 57"

definition readNum :: "bytes \<Rightarrow> nat \<times> bytes" where
  "readNum s = (foldl (\<lambda>n b. n * 10 + (unat b - 48)) 0 (takeWhile digitByte s), dropWhile digitByte s)"

fun readValue :: "nat \<Rightarrow> bytes \<Rightarrow> (nat list json \<times> bytes) option"
  and readElems :: "nat \<Rightarrow> bytes \<Rightarrow> (nat list json list \<times> bytes) option"
  and readFields :: "nat \<Rightarrow> bytes \<Rightarrow> ((nat list \<times> nat list json) list \<times> bytes) option" where
  "readValue 0 s = None"
| "readValue (Suc n) s =
     (case s of [] \<Rightarrow> None
      | c # t \<Rightarrow>
          if c = 0x22 then map_option (apfst JStr) (jsonScan t)
          else if c = 0x5b then
            (if take 1 t = [0x5d] then Some (JArr [], drop 1 t) else map_option (apfst JArr) (readElems n t))
          else if c = 0x7b then
            (if take 1 t = [0x7d] then Some (JObj [], drop 1 t) else map_option (apfst JObj) (readFields n t))
          else if digitByte c then Some (apfst JNum (readNum s))
          else if take 4 s = bytes_of_string ''true'' then Some (JBool True, drop 4 s)
          else if take 5 s = bytes_of_string ''false'' then Some (JBool False, drop 5 s)
          else None)"
| "readElems 0 s = None"
| "readElems (Suc n) s =
     (case readValue n s of None \<Rightarrow> None
      | Some (v, s) \<Rightarrow>
          if take 1 s = [0x5d] then Some ([v], drop 1 s)
          else if take 1 s = [0x2c] then map_option (apfst ((#) v)) (readElems n (drop 1 s))
          else None)"
| "readFields 0 s = None"
| "readFields (Suc n) s =
     (if take 1 s = [0x22] then
        (case jsonScan (drop 1 s) of None \<Rightarrow> None
         | Some (k, s) \<Rightarrow>
             if take 1 s = [0x3a] then
               (case readValue n (drop 1 s) of None \<Rightarrow> None
                | Some (v, s) \<Rightarrow>
                    if take 1 s = [0x7d] then Some ([(k, v)], drop 1 s)
                    else if take 1 s = [0x2c] then map_option (apfst ((#) (k, v))) (readFields n (drop 1 s))
                    else None)
             else None)
      else None)"

definition readJson :: "bytes \<Rightarrow> (nat list json \<times> bytes) option" where
  "readJson s = readValue (length s) s"

section \<open>Reading back\<close>

lemma unat_of_char: "unat (of_char c :: u8) = of_char c"
  by (rule unat_of_char_byte)

lemma digits_bytes: "list_all digitByte (bytes_of_string (digits n))"
  using digits_isDigit [of n] by (auto simp: bytes_of_string_def list_all_iff digitByte_def isDigit_def unat_of_char)

lemma foldl_digits: "foldl (\<lambda>n b. n * 10 + (unat b - 48)) 0 (bytes_of_string (digits n)) = n"
proof (induction n rule: digits.induct)
  case (1 n)
  have "n mod 10 < 10" by simp
  then have m: "(of_char (char_of (48 + n mod 10)) :: nat) = 48 + n mod 10" by (rule digit_char)
  show ?case
  proof (cases "n < 10")
    case True
    then show ?thesis by (subst digits.simps) (simp add: bytes_of_string_def unat_of_char)
  next
    case False
    with 1 m show ?thesis by (subst digits.simps) (simp add: bytes_of_string_def unat_of_char)
  qed
qed

definition ends :: "bytes \<Rightarrow> bool" where
  "ends x \<longleftrightarrow> (x = [] \<or> \<not> digitByte (hd x))"

lemma readNum_digits: "ends x \<Longrightarrow> readNum (bytes_of_string (digits n) @ x) = (n, x)"
proof -
  assume x: "ends x"
  then have "takeWhile digitByte x = []" "dropWhile digitByte x = x" by (cases x; auto simp: ends_def)+
  with digits_bytes [of n] show ?thesis
    by (simp add: readNum_def takeWhile_append dropWhile_append list_all_iff foldl_digits takeWhile_eq_all_conv [THEN iffD2])
qed

lemma length_jsonString: "length (jsonString s) \<ge> 2"
  by (simp add: jsonString_def)

lemma digits_pos: "length (bytes_of_string (digits n)) > 0"
  by (simp add: bytes_of_string_def)

lemma printJson_pos: "length (printJson v) > 0"
  by (cases v) (simp_all add: digits_pos jsonString_def bytes_of_string_def)

lemma print_first: "take 1 (printJson v @ x) \<noteq> [0x5d]"
proof (cases v)
  case (JNum n)
  obtain b t where b: "bytes_of_string (digits n) = b # t" using digits_pos [of n] by (cases "bytes_of_string (digits n)") auto
  then have "digitByte b" using digits_bytes [of n] by simp
  with JNum b show ?thesis by (auto simp: digitByte_def)
qed (simp_all add: jsonString_def bytes_of_string_def)

lemma read_print:
  "length (printJson v) \<le> n \<Longrightarrow> ends x \<Longrightarrow> readValue n (printJson v @ x) = Some (map_json runesOf v, x)"
  "vs \<noteq> [] \<Longrightarrow> length (printElems vs) < n \<Longrightarrow>
     readElems n (printElems vs @ 0x5d # x) = Some (map (map_json runesOf) vs, x)"
  "fs \<noteq> [] \<Longrightarrow> length (printFields fs) < n \<Longrightarrow>
     readFields n (printFields fs @ 0x7d # x) = Some (map (map_prod runesOf (map_json runesOf)) fs, x)"
proof (induction v and vs and fs arbitrary: n x and n x and n x rule: printJson_printElems_printFields.induct)
  case (1 k)
  obtain b t where b: "bytes_of_string (digits k) = b # t" using digits_pos [of k] by (cases "bytes_of_string (digits k)") auto
  then have "digitByte b" using digits_bytes [of k] by simp
  then have "b \<noteq> 0x22 \<and> b \<noteq> 0x5b \<and> b \<noteq> 0x7b" by (auto simp: digitByte_def)
  moreover obtain m where "n = Suc m" using 1(1) b by (cases n) auto
  ultimately show ?case using readNum_digits [OF 1(2), of k] b \<open>digitByte b\<close> by simp
next
  case (2 b)
  then obtain m where "n = Suc m" by (cases n) (auto simp: bytes_of_string_def split: if_splits)
  then show ?case by (simp add: bytes_of_string_def digitByte_def)
next
  case (3 s)
  then obtain m where "n = Suc m" by (cases n) (auto simp: jsonString_def)
  then show ?case by (simp add: jsonString_def jsonBody_scan)
next
  case (4 vs)
  then obtain m where m: "n = Suc m" "Suc (length (printElems vs)) \<le> m" by (cases n) auto
  show ?case
  proof (cases vs)
    case (Cons v ws)
    have "take 1 (printElems vs @ 0x5d # x) \<noteq> [0x5d]" using Cons print_first by simp
    with 4 m Cons show ?thesis by simp
  qed (simp add: m)
next
  case (5 fs)
  then obtain m where m: "n = Suc m" "Suc (length (printFields fs)) \<le> m" by (cases n) auto
  show ?case
  proof (cases fs)
    case (Cons f ws)
    have "take 1 (printFields fs @ 0x7d # x) \<noteq> [0x7d]" using Cons by (cases f) (simp add: jsonString_def)
    with 5 m Cons show ?thesis by simp
  qed (simp add: m)
next
  case (7 v vs)
  then obtain m where m: "n = Suc m" "length (printElems (v # vs)) \<le> m" by (cases n) auto
  show ?case
  proof (cases "vs = []")
    case True
    with 7(1) [of m "0x5d # x"] m show ?thesis by (simp add: ends_def digitByte_def)
  next
    case False
    with 7(1) [of m "0x2c # printElems vs @ 0x5d # x"] 7(2) [of m x] m show ?thesis
      by (simp add: ends_def digitByte_def)
  qed
next
  case (9 k v fs)
  then obtain m where m: "n = Suc m" "length (printFields ((k, v) # fs)) \<le> m" by (cases n) auto
  show ?case
  proof (cases "fs = []")
    case True
    with 9(1) [of m "0x7d # x"] m show ?thesis by (simp add: ends_def digitByte_def jsonString_def jsonBody_scan)
  next
    case False
    with 9(1) [of m "0x2c # printFields fs @ 0x7d # x"] 9(2) [of m x] m show ?thesis
      by (simp add: ends_def digitByte_def jsonString_def jsonBody_scan)
  qed
qed simp_all

lemma readJson_print: "readJson (printJson v @ [0x0a]) = Some (map_json runesOf v, [0x0a])"
  unfolding readJson_def by (rule read_print(1)) (simp_all add: ends_def digitByte_def)

text \<open>Text in ASCII is read back as its characters.\<close>

lemma runesOf_ascii: "list_all (\<lambda>b. unat b < 0x80) s \<Longrightarrow> runesOf s = map unat s"
proof (induction s)
  case (Cons b s)
  then show ?case by (subst runesOf.simps) (simp add: decode_ascii)
qed (simp add: runesOf.simps)

lemma char_runes: "list_all (\<lambda>c. (of_char c :: nat) < 0x80) s \<Longrightarrow> map char_of (runesOf (bytes_of_string s)) = s"
  by (subst runesOf_ascii) (simp_all add: bytes_of_string_def list_all_iff unat_of_char comp_def)

lemma b64char_ascii: "unat (b64char n) < 0x80"
  by (auto simp: b64char_def unat_of_nat)

lemma base64_ascii: "list_all (\<lambda>b. unat b < 0x80) (base64Encode s)"
  by (induction s rule: base64Encode.induct) (simp_all add: Let_def b64char_ascii)

lemma base64_runes: "map of_nat (runesOf (base64Encode s)) = base64Encode s"
  by (simp add: runesOf_ascii base64_ascii comp_def)

section \<open>What a program finds in the output\<close>

definition jsonField :: "(nat list \<times> nat list json) list \<Rightarrow> string \<Rightarrow> nat list json option" where
  "jsonField fs k = map_of fs (map of_char k)"

definition asText :: "nat list json \<Rightarrow> nat list option" where
  "asText v = (case v of JStr r \<Rightarrow> Some r | _ \<Rightarrow> None)"

definition asAddr :: "nat list json \<Rightarrow> addr option" where
  "asAddr v = (case v of JStr r \<Rightarrow> (case parseAddr0 (map char_of r) of Inr a \<Rightarrow> Some a | Inl e \<Rightarrow> None) | _ \<Rightarrow> None)"

definition asCAA :: "nat list json \<Rightarrow> (nat \<times> nat list \<times> nat list) option" where
  "asCAA v = (case v of JObj fs \<Rightarrow>
       (case (jsonField fs ''Flags'', jsonField fs ''Tag'', jsonField fs ''Value'') of
          (Some (JNum n), Some (JStr t), Some (JStr x)) \<Rightarrow> Some (n, t, x) | _ \<Rightarrow> None)
     | _ \<Rightarrow> None)"

text \<open>A field that is left out is an empty list.\<close>

definition listField :: "(nat list json \<Rightarrow> 'a option) \<Rightarrow> (nat list \<times> nat list json) list \<Rightarrow> string \<Rightarrow> 'a list option" where
  "listField f fs k = (case jsonField fs k of None \<Rightarrow> Some [] | Some (JArr vs) \<Rightarrow> those (map f vs) | _ \<Rightarrow> None)"

definition packetField :: "(nat list \<times> nat list json) list \<Rightarrow> bytes option" where
  "packetField fs = (case jsonField fs ''answer_packet_base64'' of
     Some (JStr r) \<Rightarrow> base64Decode (map of_nat r) | _ \<Rightarrow> None)"

text \<open>The addresses of answers: valid, without a zone.\<close>

definition plainAddr :: "addr \<Rightarrow> bool" where
  "plainAddr a \<longleftrightarrow> (case a of AddrZero \<Rightarrow> False | Addr4 w \<Rightarrow> True | Addr6 w z \<Rightarrow> z = [])"

lemma those_map_Some: "(\<And>x. x \<in> set xs \<Longrightarrow> f x = Some (g x)) \<Longrightarrow> those (map f xs) = Some (map g xs)"
  by (induction xs) simp_all

lemma key_runes: "list_all (\<lambda>c. (of_char c :: nat) < 0x80) k \<Longrightarrow> runesOf (bytes_of_string k) = map of_char k"
  by (subst runesOf_ascii) (simp_all add: bytes_of_string_def list_all_iff unat_of_char comp_def)

lemma hexText_chars: "h < 65536 \<Longrightarrow> c \<in> set (hexText h) \<Longrightarrow> hexVal c \<noteq> None"
  using nibbles_value(1) [of h] by (auto simp: hexText_nibbles list_all_iff)

lemma joinGroups_chars: "list_all (\<lambda>h. h < 65536) hs \<Longrightarrow> c \<in> set (joinGroups hs) \<Longrightarrow> hexVal c \<noteq> None \<or> c = CHR '':''"
  by (induction hs rule: joinGroups.induct) (auto dest: hexText_chars)

lemma string6_chars: "c \<in> set (string6 a) \<Longrightarrow> hexVal c \<noteq> None \<or> c = CHR '':''"
  by (cases a rule: string6_cases) (auto dest: joinGroups_chars [OF groups_small])

lemma addr_ascii: "plainAddr a \<Longrightarrow> list_all (\<lambda>c. (of_char c :: nat) < 0x80) (addrString a)"
proof -
  have h: "hexVal c \<noteq> None \<or> c = CHR '':'' \<Longrightarrow> (of_char c :: nat) < 0x80" for c by (auto simp: hexVal_def isDigit_def split: if_splits)
  have d: "isDigit c \<or> c = CHR ''.'' \<Longrightarrow> (of_char c :: nat) < 0x80" for c by (auto simp: isDigit_def)
  show "plainAddr a \<Longrightarrow> list_all (\<lambda>c. (of_char c :: nat) < 0x80) (addrString a)"
    using string4_chars string6_chars h d by (cases a) (auto simp: plainAddr_def list_all_iff zoneText_def)
qed

lemma asAddr_json:
  assumes "plainAddr a"
  shows "asAddr (map_json runesOf (jsonAddr a)) = Some a"
proof -
  have "addrIsValid a" "a \<noteq> AddrZero" using assms by (auto simp: plainAddr_def addrIsValid_def split: addr.splits)
  then show ?thesis using assms
    by (simp add: asAddr_def jsonAddr_def jsonText_def char_runes [OF addr_ascii] parse_addrString)
qed

lemma asCAA_json: "asCAA (map_json runesOf (jsonCAA c)) =
    Some (unat (caaFlags c), runesOf (bytes_of_string (caaTag c)), runesOf (bytes_of_string (caaValue c)))"
  by (simp add: asCAA_def jsonCAA_def jsonText_def jsonField_def key_runes)

definition fieldsOf :: "string \<Rightarrow> u16 \<Rightarrow> Result \<Rightarrow> (nat list \<times> nat list json) list" where
  "fieldsOf name ty res = (case map_json runesOf (outValue name ty res) of JObj fs \<Rightarrow> fs | _ \<Rightarrow> [])"

lemma read_encodeOut: "readJson (encodeOut name ty res) = Some (JObj (fieldsOf name ty res), [0x0a])"
proof -
  obtain fs where fs: "outValue name ty res = JObj fs" by (simp add: outValue_def)
  then show ?thesis using readJson_print [of "outValue name ty res"] by (simp only: encodeOut_def fieldsOf_def) simp
qed

lemma fieldsOf_simps:
  "jsonField (fieldsOf name ty res) ''name'' = Some (JStr (runesOf (bytes_of_string name)))"
  "jsonField (fieldsOf name ty res) ''type'' = Some (JNum (unat ty))"
  "jsonField (fieldsOf name ty res) ''secure'' = Some (JBool (Secure res))"
  "jsonField (fieldsOf name ty res) ''have_data'' = Some (JBool (HaveData res))"
  "jsonField (fieldsOf name ty res) ''nxdomain'' = Some (JBool (NXDomain res))"
  "jsonField (fieldsOf name ty res) ''addrs'' = (if resAddrs res = [] then None else Some (JArr (map (map_json runesOf) (map jsonAddr (resAddrs res)))))"
  "jsonField (fieldsOf name ty res) ''txt'' = (if resTxt res = [] then None else Some (JArr (map (map_json runesOf) (map jsonText (resTxt res)))))"
  "jsonField (fieldsOf name ty res) ''caa'' = (if resCaa res = [] then None else Some (JArr (map (map_json runesOf) (map jsonCAA (resCaa res)))))"
  "jsonField (fieldsOf name ty res) ''answer_packet_base64'' = Some (JStr (runesOf (base64Encode (AnswerPacket res))))"
  by (simp_all add: fieldsOf_def outValue_def jsonOmit_def Result_Addrs_def Result_TXT_def Result_CAA_def jsonField_def key_runes jsonText_def)

lemma encodeOut_lists:
  "list_all plainAddr (resAddrs res) \<Longrightarrow> listField asAddr (fieldsOf name ty res) ''addrs'' = Some (resAddrs res)"
  "listField asText (fieldsOf name ty res) ''txt'' = Some (map (\<lambda>t. runesOf (bytes_of_string t)) (resTxt res))"
  "listField asCAA (fieldsOf name ty res) ''caa'' = Some (map (\<lambda>c. (unat (caaFlags c),
     runesOf (bytes_of_string (caaTag c)), runesOf (bytes_of_string (caaValue c)))) (resCaa res))"
  "packetField (fieldsOf name ty res) = Some (AnswerPacket res)"
proof -
  show "listField asAddr (fieldsOf name ty res) ''addrs'' = Some (resAddrs res)" if "list_all plainAddr (resAddrs res)"
    using those_map_Some [of "resAddrs res" "\<lambda>a. asAddr (map_json runesOf (jsonAddr a))" id] asAddr_json that
    by (simp add: listField_def fieldsOf_simps list_all_iff comp_def)
  show "listField asText (fieldsOf name ty res) ''txt'' = Some (map (\<lambda>t. runesOf (bytes_of_string t)) (resTxt res))"
    using those_map_Some [of "resTxt res" "\<lambda>t. asText (map_json runesOf (jsonText t))" "\<lambda>t. runesOf (bytes_of_string t)"]
    by (simp add: listField_def fieldsOf_simps asText_def jsonText_def comp_def)
  show "listField asCAA (fieldsOf name ty res) ''caa'' = Some (map (\<lambda>c. (unat (caaFlags c),
     runesOf (bytes_of_string (caaTag c)), runesOf (bytes_of_string (caaValue c)))) (resCaa res))"
    using those_map_Some [of "resCaa res" "\<lambda>c. asCAA (map_json runesOf (jsonCAA c))"] asCAA_json
    by (simp add: listField_def fieldsOf_simps comp_def)
  show "packetField (fieldsOf name ty res) = Some (AnswerPacket res)"
    by (simp add: packetField_def fieldsOf_simps base64_runes base64_roundtrip)
qed

section \<open>One line\<close>

lemma oneLine_digits: "oneLine (bytes_of_string (digits n))"
  using digits_bytes [of n] by (auto simp: oneLine_def list_all_iff digitByte_def)

lemma print_oneLine: "oneLine (printJson v)" "oneLine (printElems vs)" "oneLine (printFields fs)"
proof (induction v and vs and fs rule: printJson_printElems_printFields.induct)
  case (2 b)
  then show ?case by (simp add: bytes_of_string_def)
qed (simp_all add: oneLine_digits)

end
