(* ===== verification/Provenance.thy ===== *)
theory Provenance
  imports ResolveProps Output
begin

text \<open>
  Where the results of a batch come from: each was settled by a poll of the guest for the slot of its own
  query, from an answer that the checks of \<open>pollResult\<close> let pass. Results are never exchanged between the
  queries of a batch.
\<close>

section \<open>What a poll lets pass\<close>

text \<open>An answer that the validator did not find bogus, with NOERROR or NXDOMAIN, and the result made of it.\<close>

definition accepted :: "'p dnsmessage \<Rightarrow> (nat \<Rightarrow> nat) \<Rightarrow> string \<Rightarrow> u16 \<Rightarrow> polled \<Rightarrow> Result \<Rightarrow> bool" where
  "accepted D sf name ty q res \<longleftrightarrow> 0 < sint (pollRc q) \<and> secStatus q \<noteq> 2 \<and> rcodeOf q \<in> {0, 3}
     \<and> Secure res = (secStatus q = 1) \<and> AnswerPacket res = packet q \<and> NXDomain res = (rcodeOf q = 3)
     \<and> (if NXDomain res then \<not> HaveData res \<and> resAddrs res = [] \<and> resTxt res = [] \<and> resCaa res = []
        else parseAnswer D sf name ty \<lparr>Secure = (secStatus q = 1), HaveData = False, NXDomain = False,
          AnswerPacket = packet q, resAddrs = [], resTxt = [], resCaa = []\<rparr> = Some (res, None))"

lemma sint_gt0: "r \<noteq> 0 \<Longrightarrow> \<not> sint r < 0 \<Longrightarrow> 0 < sint r" for r :: i32
proof -
  have "sint r = 0 \<longleftrightarrow> r = 0" by (rule signed_eq_0_iff)
  then show "r \<noteq> 0 \<Longrightarrow> \<not> sint r < 0 \<Longrightarrow> 0 < sint r" by linarith
qed

lemma settle_accepted: "settle D sf name ty q = Some (Ready res) \<Longrightarrow> accepted D sf name ty q res"
proof -
  assume s: "settle D sf name ty q = Some (Ready res)"
  then have z: "pollRc q \<noteq> 0" "0 \<le> sint (pollRc q)" by (auto simp: settle_def split: if_splits)
  then have "0 < sint (pollRc q)" by (simp add: sint_gt0)
  then show ?thesis
    using s by (auto simp: accepted_def settle_def Let_def dest: parseAnswer_frame split: if_splits option.splits)
qed

text \<open>The result of the query comes from a poll of a slot of the guest.\<close>

definition settledFrom :: "('m, 'pub, 'p) ienv \<Rightarrow> string \<Rightarrow> u16 \<Rightarrow> Result \<Rightarrow> bool" where
  "settledFrom E name ty res \<longleftrightarrow> (\<exists>rid p i i' q. 0 < sint rid \<and> pollGuest E rid p i = (i', Inr q)
     \<and> accepted (ieDns E) (ieFold E) name ty q res)"

lemma pollResult_settled:
  assumes "pollResult E rid p name ty i = Some (i', Ready res)" and "0 < sint rid"
  shows "settledFrom E name ty res"
proof -
  obtain j out where g: "pollGuest E rid p i = (j, out)" by fastforce
  with assms(1) obtain q where "out = Inr q" "settle (ieDns E) (ieFold E) name ty q = Some (Ready res)"
    by (cases out) (auto simp: pollResult_def kill_def)
  with g assms(2) settle_accepted show ?thesis unfolding settledFrom_def by blast
qed

section \<open>The invariant of a batch\<close>

text \<open>A slot belongs to a query whose name was accepted; a result comes from polling for that query.\<close>

definition ownResults :: "('m, 'pub, 'p) ienv \<Rightarrow> Query list \<Rightarrow> batch \<Rightarrow> bool" where
  "ownResults E qs b \<longleftrightarrow> length (results b) = length qs \<and> length (names b) = length qs \<and> length (rids b) = length qs
     \<and> (\<forall>n < length qs.
          (rids b ! n = 0 \<or> 0 < sint (rids b ! n) \<and> normalizeName (QName (qs ! n)) = Inr (names b ! n))
        \<and> (\<forall>res. results b ! n = Some res \<longrightarrow>
             normalizeName (QName (qs ! n)) = Inr (names b ! n) \<and> settledFrom E (names b ! n) (QType (qs ! n)) res))"

lemma ownResults_new: "ownResults E qs (newBatch (length qs))"
  by (simp add: ownResults_def newBatch_def)

lemma ownResults_errs [simp]: "ownResults E qs (b\<lparr>errs := es\<rparr>) = ownResults E qs b"
  "ownResults E qs (b\<lparr>pending := k\<rparr>) = ownResults E qs b"
  by (simp_all add: ownResults_def)

lemma ownResults_fail [simp]: "ownResults E qs (failUnsettled err b) = ownResults E qs b"
  by (simp add: failUnsettled_def)

text \<open>Starting the query at a position that has neither a slot nor a result yet.\<close>

lemma startQuery_own:
  assumes "startQuery E (qs ! n) n b i = (i', b', e)" and "n < length qs" and "ownResults E qs b"
    and "rids b ! n = 0" and "results b ! n = None"
  shows "ownResults E qs b' \<and> (\<forall>k. k \<noteq> n \<longrightarrow> rids b' ! k = rids b ! k) \<and> results b' = results b"
proof (cases "normalizeName (QName (qs ! n))")
  case (Inl err)
  with assms show ?thesis by (auto simp: startQuery_def)
next
  case (Inr name)
  let ?b = "b\<lparr>names := (names b)[n := name]\<rparr>"
  have b: "ownResults E qs ?b"
    using assms(2-5) Inr by (auto simp: ownResults_def nth_list_update split: option.splits)
  have r: "ownResults E qs (?b\<lparr>rids := (rids b)[n := rid], pending := k\<rparr>)" if "\<not> sint rid < 0" for rid k
    using b assms(2,5) Inr that sint_gt0 [of rid]
    by (auto simp: ownResults_def nth_list_update split: option.splits)
  obtain j o1 where a: "allocWrite E (bytes_of_string name) i = (j, o1)" by fastforce
  show ?thesis
  proof (cases o1)
    case (Inl err)
    with a b assms(1) \<open>normalizeName _ = Inr name\<close> show ?thesis by (auto simp: startQuery_def Let_def)
  next
    case (Inr p)
    obtain j2 o2 where c: "call E resolve_start [ucast p, of_nat (length name), ucast (QType (qs ! n)), 1] j = (j2, o2)"
      by fastforce
    show ?thesis
      using assms(1) a c b r Inr \<open>normalizeName _ = Inr name\<close>
      by (cases o2) (auto simp: startQuery_def Let_def kill_def split: if_splits)
  qed
qed

lemma startQueries_own:
  assumes "startQueries E (drop n qs) n b i = (i', b', e)" and "ownResults E qs b"
    and "\<forall>k \<ge> n. k < length qs \<longrightarrow> rids b ! k = 0 \<and> results b ! k = None"
  shows "ownResults E qs b'"
  using assms
proof (induction "length qs - n" arbitrary: n b i)
  case 0
  then show ?case by simp
next
  case (Suc m)
  then have n: "n < length qs" by simp
  obtain i1 b1 e1 where s: "startQuery E (qs ! n) n b i = (i1, b1, e1)" by (metis prod_cases3)
  have o1: "ownResults E qs b1" "\<forall>k \<ge> Suc n. k < length qs \<longrightarrow> rids b1 ! k = 0 \<and> results b1 ! k = None"
    using startQuery_own [OF s n Suc.prems(2)] Suc.prems(3) n by auto
  have "(if e1 = None then startQueries E (drop (Suc n) qs) (Suc n) b1 i1 else (i1, b1, e1)) = (i', b', e)"
    using Suc.prems(1) s n by (cases e1) (auto simp flip: Cons_nth_drop_Suc)
  with o1 Suc.hyps(1) [of "Suc n" b1 i1] Suc.hyps(2) show ?case by (auto split: if_splits)
qed

lemma pollQuery_own:
  assumes "pollQuery E p (qs ! n) n b i = Some (i', b', e)" and "n < length qs" and "ownResults E qs b"
  shows "ownResults E qs b'"
proof (cases "rids b ! n = 0 \<or> results b ! n \<noteq> None \<or> errs b ! n \<noteq> None")
  case True
  with assms show ?thesis by (simp add: pollQuery_def)
next
  case False
  then have r: "0 < sint (rids b ! n)" "normalizeName (QName (qs ! n)) = Inr (names b ! n)"
    using assms(2,3) by (auto simp: ownResults_def)
  obtain j out where o: "pollResult E (rids b ! n) p (names b ! n) (QType (qs ! n)) i = Some (j, out)"
    using assms(1) False by (cases "pollResult E (rids b ! n) p (names b ! n) (QType (qs ! n)) i") (auto simp: pollQuery_def)
  show ?thesis
  proof (cases out)
    case (Ready res)
    with o r pollResult_settled have "settledFrom E (names b ! n) (QType (qs ! n)) res" by blast
    then have "ownResults E qs (b\<lparr>results := (results b)[n := Some res]\<rparr>)"
      using assms(2,3) r by (auto simp: ownResults_def nth_list_update split: option.splits)
    with assms(1) False o Ready show ?thesis by (auto simp: pollQuery_def)
  qed (use assms False o in \<open>auto simp: pollQuery_def\<close>)
qed

lemma pollQueries_own:
  assumes "pollQueries E p (drop n qs) n b i = Some (i', b', e)" and "ownResults E qs b"
  shows "ownResults E qs b'"
  using assms
proof (induction "length qs - n" arbitrary: n b i)
  case (Suc m)
  then have n: "n < length qs" by simp
  obtain i1 b1 e1 where s: "pollQuery E p (qs ! n) n b i = Some (i1, b1, e1)"
    using Suc.prems(1) n by (cases "pollQuery E p (qs ! n) n b i") (auto simp flip: Cons_nth_drop_Suc)
  have "(if e1 = None then pollQueries E p (drop (Suc n) qs) (Suc n) b1 i1 else Some (i1, b1, e1)) = Some (i', b', e)"
    using Suc.prems(1) s n by (cases e1) (auto simp flip: Cons_nth_drop_Suc)
  with pollQuery_own [OF s n Suc.prems(2)] Suc.hyps(1) [of "Suc n" b1 i1] Suc.hyps(2) show ?case by (auto split: if_splits)
qed simp

lemma awaitResults_own:
  "awaitResults E p qs ws b i = Returned (i', b') \<Longrightarrow> ownResults E qs b \<Longrightarrow> ownResults E qs b'"
proof (induction E p qs ws b i rule: awaitResults.induct)
  case (1 E p qs ws b i)
  show ?case
  proof (cases "pending b = 0")
    case True
    with 1 show ?thesis by (simp add: awaitResults.simps)
  next
    case False
    then obtain i1 b1 e1 where p: "pollQueries E p qs 0 b i = Some (i1, b1, e1)"
      using 1(2) by (cases "pollQueries E p qs 0 b i") (auto simp: awaitResults.simps [of E p qs ws b i])
    then have o1: "ownResults E qs b1" using pollQueries_own [of E p 0 qs] 1(3) by simp
    show ?thesis
    proof (cases "e1 \<noteq> None \<or> pending b1 = 0")
      case True
      with 1(2) False p o1 show ?thesis by (auto simp: awaitResults.simps [of E p qs ws b i] split: option.splits)
    next
      case w: False
      then obtain ws' i2 wk where s: "select E ws i1 = Some (ws', i2, wk)"
        using 1(2) False p by (cases "select E ws i1") (auto simp: awaitResults.simps [of E p qs ws b i])
      obtain i3 e3 where k: "onWake E wk i2 = (i3, e3)" by fastforce
      show ?thesis
        using 1(1) [OF False p _ _ _ _ s _ _ k [symmetric]] 1(2) False p w s k o1
        by (cases e3) (auto simp: awaitResults.simps [of E p qs ws b i])
    qed
  qed
qed

lemma runBatch_own:
  assumes "runBatch E qs ws i = Returned (i', b)"
  shows "ownResults E qs b"
proof -
  obtain i1 b1 e1 where s: "startQueries E qs 0 (newBatch (length qs)) i = (i1, b1, e1)" by (metis prod_cases3)
  have o1: "ownResults E qs b1"
    using startQueries_own [of E 0 qs, OF _ ownResults_new] s by (simp add: newBatch_def)
  obtain i2 r where a: "allocWrite E (replicate 32 0) i1 = (i2, r)" by fastforce
  show ?thesis
    using assms s o1 a awaitResults_own [of E _ qs ws b1 i2]
    by (cases e1; cases r) (auto simp: runBatch_def split: if_splits run.splits)
qed

lemma resolveAll_own:
  assumes "ResolveAll E qs ws i = Returned (i', rs, err)" and "n < length qs" and "rs ! n = Some res"
  shows "\<exists>name. normalizeName (QName (qs ! n)) = Inr name \<and> settledFrom E name (QType (qs ! n)) res"
proof (cases "iClosed i")
  case True
  with assms show ?thesis by (auto simp: ResolveAll_def Let_def failUnsettled_def newBatch_def split: if_splits)
next
  case False
  then obtain j b where "runBatch E qs ws i = Returned (j, b)" "rs = results b"
    using assms(1) by (cases "runBatch E qs ws i") (auto simp: ResolveAll_def)
  with runBatch_own assms(2,3) show ?thesis by (fastforce simp: ownResults_def)
qed

section \<open>Addresses of results\<close>

lemma plainAddr_simps [simp]: "plainAddr (Addr4 a)" "plainAddr (Addr6 b [])"
  by (simp_all add: plainAddr_def)

lemma fillRecords_plain:
  "fillRecords sf ty owner rrs r = (r', e) \<Longrightarrow> list_all plainAddr (resAddrs r) \<Longrightarrow> list_all plainAddr (resAddrs r')"
proof (induction rrs arbitrary: r)
  case (Cons rr rrs)
  obtain r1 e1 where a: "addRecord ty rr r = (r1, e1)" by fastforce
  then have "list_all plainAddr (resAddrs r1)" using Cons.prems(2)
    by (auto simp: addRecord_def Let_def AddrFrom4_def AddrFrom16_def
        split: resourceBody.splits if_splits sum.splits)
  with Cons a show ?case by (cases e1) (auto split: if_splits)
qed simp

lemma parseAnswer_plain:
  "parseAnswer D sf name ty r = Some (r', e) \<Longrightarrow> resAddrs r = [] \<Longrightarrow> list_all plainAddr (resAddrs r')"
  by (auto simp: parseAnswer_def dest: fillRecords_plain split: if_splits sum.splits option.splits prod.splits)

lemma settled_plain: "settledFrom E name ty res \<Longrightarrow> list_all plainAddr (resAddrs res)"
  by (auto simp: settledFrom_def accepted_def dest: parseAnswer_plain split: if_splits)

section \<open>Properties\<close>



end
