(* ===== verification/Cli.thy ===== *)
theory Cli
  imports Api Provenance Zygote
begin

text \<open>
  The command \<open>unbound-wasm-resolve\<close>: its flags, the query types it knows (\<open>qtype\<close>) and its course
  from the arguments to what it prints and how it exits, over \<open>NewRuntime\<close>, \<open>NewInstance\<close> and \<open>Resolve\<close>. The
  deadline is one of the wake-ups of the batch.
\<close>

section \<open>Flags\<close>

text \<open>
  \<open>flag.Parse\<close> for the flags of the command. What is the parameter \<open>dur\<close>: \<open>time.ParseDuration\<close>, with \<^const>\<open>None\<close>
  for its errors. A duration counts nanoseconds.
\<close>

record flags =
  flTimeout :: i64
  flRootHints :: string
  flVerbose :: bool

definition defaultFlags :: flags where
  "defaultFlags = \<lparr>flTimeout = 15000000000, flRootHints = [], flVerbose = False\<rparr>"

datatype flagErr = ErrHelp | FlagErr string

definition parseBool :: "string \<Rightarrow> bool option" where
  "parseBool s =
     (if s \<in> {''1'', ''t'', ''T'', ''true'', ''TRUE'', ''True''} then Some True
      else if s \<in> {''0'', ''f'', ''F'', ''false'', ''FALSE'', ''False''} then Some False
      else None)"

definition setValue :: "(string \<Rightarrow> i64 option) \<Rightarrow> (nat \<Rightarrow> bool) \<Rightarrow> string \<Rightarrow> string \<Rightarrow> flags \<Rightarrow> flagErr + flags" where
  "setValue dur pr name v fl =
     (if name = ''timeout'' then
        (case dur v of None \<Rightarrow> Inl (FlagErr (''invalid value '' @ Quote pr v @ '' for flag -timeout: parse error''))
         | Some d \<Rightarrow> Inr (fl\<lparr>flTimeout := d\<rparr>))
      else Inr (fl\<lparr>flRootHints := v\<rparr>))"

text \<open>Setting the flag of a name, with the value after an equals sign or else, if it needs one, the next argument.\<close>

definition setFlag :: "(string \<Rightarrow> i64 option) \<Rightarrow> (nat \<Rightarrow> bool) \<Rightarrow> string \<Rightarrow> string option \<Rightarrow> string list \<Rightarrow> flags \<Rightarrow>
    flagErr + flags \<times> string list" where
  "setFlag dur pr name value args fl =
     (if name = ''v'' then
        (case value of None \<Rightarrow> Inr (fl\<lparr>flVerbose := True\<rparr>, args)
         | Some v \<Rightarrow>
             (case parseBool v of
                None \<Rightarrow> Inl (FlagErr (''invalid boolean value '' @ Quote pr v @ '' for -v: parse error''))
              | Some b \<Rightarrow> Inr (fl\<lparr>flVerbose := b\<rparr>, args)))
      else if name \<in> {''timeout'', ''root-hints''} then
        (case (value, args) of
           (Some v, args) \<Rightarrow> map_sum id (\<lambda>fl. (fl, args)) (setValue dur pr name v fl)
         | (None, v # args) \<Rightarrow> map_sum id (\<lambda>fl. (fl, args)) (setValue dur pr name v fl)
         | (None, []) \<Rightarrow> Inl (FlagErr (''flag needs an argument: -'' @ name)))
      else if name \<in> {''help'', ''h''} then Inl ErrHelp
      else Inl (FlagErr (''flag provided but not defined: -'' @ name)))"

text \<open>The name up to the first equals sign that is not its first character, and the value after it.\<close>

definition splitEquals :: "string \<Rightarrow> string \<times> string option" where
  "splitEquals name =
     (let n = hd name # takeWhile (\<lambda>c. c \<noteq> CHR ''='') (tl name) in
      (n, if length n < length name then Some (drop (length n + 1) name) else None))"

lemma map_sum_Inr: "map_sum id f x = Inr y \<longleftrightarrow> (\<exists>z. x = Inr z \<and> y = f z)"
  by (cases x) auto

lemma setFlag_shorter: "setFlag dur pr name value args fl = Inr (fl', args') \<Longrightarrow> length args' \<le> length args"
  by (auto simp: setFlag_def map_sum_Inr split: if_splits option.splits list.splits)

function parseFlags :: "(string \<Rightarrow> i64 option) \<Rightarrow> (nat \<Rightarrow> bool) \<Rightarrow> string list \<Rightarrow> flags \<Rightarrow> flagErr + flags \<times> string list" where
  "parseFlags dur pr [] fl = Inr (fl, [])"
| "parseFlags dur pr (s # args) fl =
     (if length s < 2 \<or> hd s \<noteq> CHR ''-'' then Inr (fl, s # args)
      else if s = ''--'' then Inr (fl, args)
      else let name = (if s ! 1 = CHR ''-'' then drop 2 s else drop 1 s) in
        if name = [] \<or> hd name = CHR ''-'' \<or> hd name = CHR ''='' then Inl (FlagErr (''bad flag syntax: '' @ s))
        else case setFlag dur pr (fst (splitEquals name)) (snd (splitEquals name)) args fl of
          Inl e \<Rightarrow> Inl e
        | Inr (fl, args) \<Rightarrow> parseFlags dur pr args fl)"
  by pat_completeness auto
termination parseFlags
  by (relation "measure (\<lambda>(dur, pr, args, fl). length args)") (auto dest: setFlag_shorter simp: less_Suc_eq_le)

section \<open>Query types\<close>

text \<open>
  The runes of \<open>strings.ToUpper(s)\<close>; the case table of Unicode above \<open>0x7f\<close> is a parameter. Two
  strings are equal exactly when their runes are, so the comparison with the mnemonics is one of runes.
\<close>

function upperRunes :: "(nat \<Rightarrow> nat) \<Rightarrow> bytes \<Rightarrow> nat list" where
  "upperRunes up s =
     (if s = [] then []
      else case decodeRune s of (r, n) \<Rightarrow>
        (if r < 0x80 then if 97 \<le> r \<and> r \<le> 122 then r - 32 else r else up r) # upperRunes up (drop n s))"
  by pat_completeness auto
termination upperRunes
  by (relation "measure (\<lambda>(up, s). length s)") (auto dest: decodeRune_less)

declare upperRunes.simps [simp del]

definition runes :: "string \<Rightarrow> nat list" where
  "runes s = map of_char s"

definition qtype :: "(nat \<Rightarrow> nat) \<Rightarrow> string \<Rightarrow> u16 option" where
  "qtype up s =
     (let u = upperRunes up (bytes_of_string s) in
      if u = runes ''A'' then Some TypeA
      else if u = runes ''AAAA'' then Some TypeAAAA
      else if u = runes ''TXT'' then Some TypeTXT
      else if u = runes ''CAA'' then Some TypeCAA
      else case parseUint16 s of Some n \<Rightarrow> Some (of_nat n) | None \<Rightarrow> None)"

section \<open>The command\<close>

text \<open>\<open>strings.Split\<close> at commas.\<close>

fun splitComma :: "string \<Rightarrow> string list" where
  "splitComma [] = [[]]"
| "splitComma (c # cs) =
     (if c = CHR '','' then [] # splitComma cs
      else case splitComma cs of [] \<Rightarrow> [[c]] | x # xs \<Rightarrow> (c # x) # xs)"

text \<open>What the command ends with: help, a flag error, its usage, a logged error, or the line it prints.\<close>

datatype cliOut = Help | BadFlags string | Usage | LogFatal string | Printed bytes

fun exitCode :: "cliOut \<Rightarrow> nat" where
  "exitCode Help = 0"
| "exitCode (BadFlags msg) = 2"
| "exitCode Usage = 2"
| "exitCode (LogFatal msg) = 1"
| "exitCode (Printed out) = 0"

text \<open>
  The case table of Unicode, the parser of durations, the texts of the system's errors, and the error of writing
  to the standard output.
\<close>

record clienv =
  cliUpper :: "nat \<Rightarrow> nat"
  cliDuration :: "string \<Rightarrow> i64 option"
  cliOsText :: "goerr \<Rightarrow> string"
  cliStdout :: "goerr option"

text \<open>
  The template of the zygote and the instance each have their environment; \<open>ws\<close> are the wake-ups of the one
  batch, which depend on the timeout. A panic is \<^const>\<open>Stuck\<close>, as is the use of an instance or a result
  that is nil.
\<close>

definition cliResolve :: "clienv \<Rightarrow> (nat \<Rightarrow> bool) \<Rightarrow> ('m, 'pub, 'p) ienv \<Rightarrow> string \<Rightarrow> u16 \<Rightarrow> wake list \<Rightarrow>
    ('m inst option \<times> goerr option) option \<Rightarrow> cliOut run" where
  "cliResolve C pr E name typ ws new =
     (case new of
        None \<Rightarrow> Stuck
      | Some (oi, Some err) \<Rightarrow> Returned (LogFatal (errText pr (cliOsText C) err))
      | Some (None, None) \<Rightarrow> Stuck
      | Some (Some i, None) \<Rightarrow>
          (case Resolve E name typ ws i of
             Returned (i, Inl err) \<Rightarrow> Returned (LogFatal (errText pr (cliOsText C) err))
           | Returned (i, Inr None) \<Rightarrow> Stuck
           | Returned (i, Inr (Some res)) \<Rightarrow>
               (case cliStdout C of Some err \<Rightarrow> Returned (LogFatal (errText pr (cliOsText C) err))
                | None \<Rightarrow> Returned (Printed (encodeOut name typ res)))
           | Blocked \<Rightarrow> Blocked | Stuck \<Rightarrow> Stuck))"

definition cliMain :: "clienv \<Rightarrow> rtenv \<Rightarrow> ('m, 'pub, 'p) ienv \<times> ('m, 'pub) mienv \<Rightarrow> zyenv \<Rightarrow>
    ('m, 'pub, 'p) ienv \<times> ('m, 'pub) mienv \<Rightarrow> bool \<Rightarrow> (i64 \<Rightarrow> wake list) \<Rightarrow> string list \<Rightarrow> cliOut run" where
  "cliMain C V T Z I disableIPv6 ws argv =
     (case parseFlags (cliDuration C) (isPrint V) argv defaultFlags of
        Inl ErrHelp \<Rightarrow> Returned Help
      | Inl (FlagErr msg) \<Rightarrow> Returned (BadFlags msg)
      | Inr (fl, args) \<Rightarrow>
          if length args < 1 \<or> length args > 2 then Returned Usage
          else case (if length args = 2 then qtype (cliUpper C) (args ! 1) else Some TypeA) of
            None \<Rightarrow> Returned (LogFatal (''unknown query type '' @ Quote (isPrint V) (args ! 1)))
          | Some typ \<Rightarrow>
              (let cfg = \<lparr>MemoryLimit = 0, TrustAnchors = [],
                          RootHints = (if flRootHints fl \<noteq> [] then splitComma (flRootHints fl) else [])\<rparr>
               in case NewRuntime V cfg of Inl err \<Rightarrow> Returned (LogFatal (errText (isPrint V) (cliOsText C) err))
                  | Inr r \<Rightarrow>
                      (let zy = fst (initZygote (fst T) (snd T) disableIPv6 r Z)
                       in cliResolve C (isPrint V) (fst I) (args ! 0) typ (ws (flTimeout fl))
                            (NewInstance (fst I) (snd I) disableIPv6 r False zy))))"

section \<open>Lemmas\<close>

lemma upperRunes_ascii:
  "\<forall>c \<in> set s. (of_char c :: nat) < 128 \<Longrightarrow> upperRunes up (bytes_of_string s)
     = map (\<lambda>c. if 97 \<le> (of_char c :: nat) \<and> (of_char c :: nat) \<le> 122 then of_char c - 32 else of_char c) s"
proof (induction s)
  case Nil
  show ?case by (simp add: bytes_of_string_def upperRunes.simps)
next
  case (Cons c s)
  have "unat (of_char c :: u8) = of_char c" by (rule unat_of_char_byte)
  with Cons show ?case
    by (subst upperRunes.simps) (simp add: bytes_of_string_def decodeRune_def Let_def)
qed

lemma splitComma_join: "concat (map (\<lambda>x. x @ '','') (splitComma s)) = s @ '',''"
proof (induction s)
  case (Cons c cs)
  then show ?case by (cases "splitComma cs") auto
qed simp

text \<open>A type given by its number is queried as that number.\<close>

lemma qtype_number:
  assumes "n \<le> 65535"
  shows "qtype up (digits n) = Some (of_nat n)"
proof -
  have d: "48 \<le> (of_char c :: nat) \<and> (of_char c :: nat) \<le> 57" if "c \<in> set (digits n)" for c
    using digits_isDigit [of n] that by (simp add: list_all_iff isDigit_def)
  have u: "upperRunes up (bytes_of_string (digits n)) = map of_char (digits n)"
    using d by (subst upperRunes_ascii) fastforce+
  obtain c cs where c: "digits n = c # cs" using digits_nonempty by (cases "digits n") blast+
  with d [of c] have "(of_char c :: nat) \<noteq> 65 \<and> (of_char c :: nat) \<noteq> 84 \<and> (of_char c :: nat) \<noteq> 67" by simp
  then show ?thesis
    using u c parseUint16_digits [OF assms] by (simp add: qtype_def runes_def)
qed

lemma resolve_returns:
  assumes "typedParser (ieDns E)" and "parserProgress (ieDns E) left" and "CtxDone e \<in> set ws"
  obtains i' out where "Resolve E name ty ws i = Returned (i', out)" "out \<noteq> Inr None"
proof -
  let ?qs = "[\<lparr>QName = name, QType = ty\<rparr>]"
  obtain j b where "runBatch E ?qs ws i = Returned (j, b)" using runBatch_returns [OF assms] by blast
  then have "\<exists>i' rs err. ResolveAll E ?qs ws i = Returned (i', rs, err)"
    by (auto simp: ResolveAll_def Let_def)
  then obtain i' rs err where r: "ResolveAll E ?qs ws i = Returned (i', rs, err)" by blast
  from resolveAll_batch [OF r] obtain res e where "rs = [res]" "err = batchError ?qs rs e"
    by (auto simp: length_Suc_conv)
  with r show thesis
    by (cases res) (auto simp: Resolve_def batchError_def intro!: that)
qed

lemma resolve_settled:
  assumes "Resolve E name ty ws i = Returned (i', Inr (Some res))"
  shows "\<exists>n. normalizeName name = Inr n \<and> settledFrom E n ty res"
proof -
  let ?qs = "[\<lparr>QName = name, QType = ty\<rparr>]"
  obtain rs where r: "ResolveAll E ?qs ws i = Returned (i', rs, None)" "rs ! 0 = Some res"
    using assms by (auto simp: Resolve_def split: run.splits option.splits list.splits)
  from resolveAll_own [OF r(1) _ r(2)] show ?thesis by simp
qed

text \<open>The cases in which the command prints a result.\<close>

lemma printed_result:
  assumes "cliMain C V T Z I d ws argv = Returned (Printed out)"
  shows "\<exists>fl args ty i i' res. parseFlags (cliDuration C) (isPrint V) argv defaultFlags = Inr (fl, args) \<and> args \<noteq> []
     \<and> (case args of [name, t] \<Rightarrow> qtype (cliUpper C) t = Some ty | _ \<Rightarrow> ty = TypeA)
     \<and> Resolve (fst I) (hd args) ty (ws (flTimeout fl)) i = Returned (i', Inr (Some res)) \<and> out = encodeOut (hd args) ty res"
proof -
  obtain fl args where f: "parseFlags (cliDuration C) (isPrint V) argv defaultFlags = Inr (fl, args)"
    "args \<noteq> []" "length args \<le> 2"
    using assms by (auto simp: cliMain_def not_less split: sum.splits flagErr.splits prod.splits if_splits)
  then obtain name rest where a: "args = name # rest" "length rest \<le> 1" by (cases args) auto
  obtain ty r where t: "(if length args = 2 then qtype (cliUpper C) (args ! 1) else Some TypeA) = Some ty"
    and c: "cliResolve C (isPrint V) (fst I) name ty (ws (flTimeout fl))
      (NewInstance (fst I) (snd I) d r False (fst (initZygote (fst T) (snd T) d r Z))) = Returned (Printed out)"
    using assms f a by (auto simp: cliMain_def Let_def not_less split: option.splits sum.splits)
  obtain i i' res where "Resolve (fst I) name ty (ws (flTimeout fl)) i = Returned (i', Inr (Some res))" "out = encodeOut name ty res"
    using c by (auto simp: cliResolve_def split: option.splits prod.splits run.splits sum.splits)
  moreover have "case args of [name, t] \<Rightarrow> qtype (cliUpper C) t = Some ty | _ \<Rightarrow> ty = TypeA"
    using t a by (cases rest) (auto split: list.splits)
  ultimately show ?thesis using f(1) a(1) by fastforce
qed

section \<open>A sample run\<close>

definition sampleClienv :: clienv where
  "sampleClienv = \<lparr>cliUpper = id, cliDuration = \<lambda>s. None, cliOsText = \<lambda>e. [], cliStdout = None\<rparr>"

definition sampleRtenv :: rtenv where
  "sampleRtenv = \<lparr>isPrint = \<lambda>r. True, hostModulesErr = None, compileErr = None\<rparr>"

text \<open>The sample command prints a result.\<close>

lemma tiny_result:
  assumes "40 \<le> length m" and "length m < 2 ^ 32"
  shows "\<exists>m' t' n'. allocWrite tinyEnv (replicate 32 0) (tinyInst m t n) = (tinyInst m' t' n', Inr 8)
     \<and> flat_read m' 8 32 = Some (replicate 32 0)"
proof -
  define m' where "m' = take 8 m @ replicate 32 0 @ drop 40 m"
  have "flat_write m 8 (replicate 32 0) = Some m'" using assms by (simp add: flat_write_def m'_def)
  moreover have "flat_read m' 8 32 = Some (replicate 32 0)" using assms by (simp add: flat_read_def m'_def)
  ultimately show ?thesis by (simp add: allocWrite_def guest_def) blast
qed

lemma tiny_polled:
  assumes "flat_read m 8 32 = Some (replicate 32 0)"
  shows "pollResult tinyEnv 1 8 ''a.'' 1 (tinyInst m t n) = Some (tinyInst m (t @ [(result_get, [1, 8], False)]) (Suc (Suc n)),
    Ready \<lparr>Secure = False, HaveData = False, NXDomain = False, AnswerPacket = [], resAddrs = [], resTxt = [], resCaa = []\<rparr>)"
proof -
  have "ieDns tinyEnv = sampleParser [] []" by (simp add: tinyEnv_def)
  with assms show ?thesis
    by (simp add: pollResult_def pollGuest_def guest_def readPolled_def resultWord_def readResult_def settle_def le32_def
        rcodeOf_def parseAnswer_def)
qed

lemma tiny_resolve:
  assumes "40 \<le> length m" and "length m < 2 ^ 32"
  shows "\<exists>i res. Resolve tinyEnv ''a'' 1 ws (tinyInst m t n) = Returned (i, Inr (Some res))"
proof -
  let ?b = "(newBatch 1)\<lparr>names := [''a.''], rids := [1], pending := 1\<rparr>"
  obtain m1 t1 n1 where a: "length m1 = length m" "allocWrite tinyEnv (bytes_of_string ''a.'') (tinyInst m t n) = (tinyInst m1 t1 n1, Inr 8)"
    using tiny_alloc [of "bytes_of_string ''a.''" m t n] assms by (auto simp: bytes_of_string_def)
  then have "\<exists>t2 n2. startQueries tinyEnv [\<lparr>QName = ''a'', QType = 1\<rparr>] 0 (newBatch 1) (tinyInst m t n) = (tinyInst m1 t2 n2, ?b, None)"
    by (simp add: startQuery_def normalizeName_def newBatch_def free_def Let_def) blast
  then obtain t2 n2 where s: "startQueries tinyEnv [\<lparr>QName = ''a'', QType = 1\<rparr>] 0 (newBatch 1) (tinyInst m t n) = (tinyInst m1 t2 n2, ?b, None)"
    by blast
  obtain m3 t3 n3 where c: "allocWrite tinyEnv (replicate 32 0) (tinyInst m1 t2 n2) = (tinyInst m3 t3 n3, Inr 8)"
    "flat_read m3 8 32 = Some (replicate 32 0)" using tiny_result [of m1 t2 n2] a(1) assms by auto
  have "\<exists>i b. awaitResults tinyEnv 8 [\<lparr>QName = ''a'', QType = 1\<rparr>] ws ?b (tinyInst m3 t3 n3) = Returned (i, b)
      \<and> results b \<noteq> [None] \<and> length (results b) = 1 \<and> errs b = [None]"
    by (simp add: awaitResults.simps pollQuery_def tiny_polled [OF c(2)] newBatch_def)
  then obtain i b where "awaitResults tinyEnv 8 [\<lparr>QName = ''a'', QType = 1\<rparr>] ws ?b (tinyInst m3 t3 n3) = Returned (i, b)"
    and b: "results b \<noteq> [None]" "length (results b) = 1" "errs b = [None]" by blast
  then have "\<exists>i. runBatch tinyEnv [\<lparr>QName = ''a'', QType = 1\<rparr>] ws (tinyInst m t n) = Returned (i, b)"
    using s c(1) by (simp add: runBatch_def)
  moreover obtain res where "results b = [Some res]" using b(1,2) by (cases "results b") auto
  moreover have "\<not> iClosed (tinyInst m t n)" by (simp add: tinyInst_def)
  ultimately show ?thesis using b(3) by (auto simp: Resolve_def ResolveAll_def joinQueryErrors_def)
qed

lemma tinyMem_size: "40 \<le> length tinyMem" "length tinyMem < 2 ^ 32"
  by (simp_all add: tinyMem_def defaultTrustAnchors_def trustAnchorLines_def defaultCanonicalConfig_def canonicalConfigLines_def textLines_def bytes_of_string_def)

lemma tiny_prints:
  "\<exists>out. cliMain sampleClienv sampleRtenv (tinyEnv, tinyStart tinyMem) (sampleZyenv\<lparr>zyDisable := True\<rparr>)
     (tinyEnv, tinyStart tinyMem) False (\<lambda>t. []) [''a''] = Returned (Printed out)"
proof -
  obtain m t n where f: "length m = length tinyMem"
    "newFullInstance tinyEnv (tinyStart tinyMem) False tinyRuntime = (Some (tinyInst m t n), None)"
    using tiny_full by blast
  then obtain i res where "Resolve tinyEnv ''a'' 1 [] (tinyInst m t n) = Returned (i, Inr (Some res))"
    using tiny_resolve [of m "[]" t n] tinyMem_size by auto
  moreover have "NewRuntime sampleRtenv \<lparr>MemoryLimit = 0, TrustAnchors = [], RootHints = []\<rparr> = Inr tinyRuntime"
    by (simp add: NewRuntime_def sampleRtenv_def tinyRuntime_def memoryPages_def)
  ultimately show ?thesis using f(2)
    by (simp add: cliMain_def cliResolve_def defaultFlags_def initZygote_def zyNothing_def NewInstance_def sampleClienv_def)
qed

section \<open>Properties\<close>

text \<open>C17: with a deadline the command ends, with a result, an error or its usage: whatever the file system and the
  network answer, and whatever the calls into the guests of the template and of the instance return,
  neither creating the runtime, the template and the instance nor resolving the name panics or waits for
  events forever.\<close>

theorem command_returns:
  assumes "typedParser (ieDns (fst I))" and "parserProgress (ieDns (fst I)) left" and "\<And>t. CtxDone e \<in> set (ws t)"
  shows "\<exists>out. cliMain C V T Z I d ws argv = Returned out"
proof -
  have "\<exists>out. cliResolve C pr (fst I) name ty (ws t)
      (NewInstance (fst I) (snd I) d r False (fst (initZygote (fst T) (snd T) d r Z))) = Returned out" for pr name ty t r
  proof -
    let ?zy = "fst (initZygote (fst T) (snd T) d r Z)"
    obtain oi err where n: "NewInstance (fst I) (snd I) d r False ?zy = Some (oi, err)"
      using newInstance_no_panic [of "fst I" "snd I" d r False "fst T" "snd T" Z] by fastforce
    show ?thesis
    proof (cases "oi = None \<or> err \<noteq> None")
      case True
      then show ?thesis using n newInstance_some [of "fst I" "snd I" d r False ?zy] by (cases err; cases oi) (auto simp: cliResolve_def)
    next
      case False
      then obtain i where i: "oi = Some i" "err = None" by (cases oi) auto
      obtain i' out where "Resolve (fst I) name ty (ws t) i = Returned (i', out)" "out \<noteq> Inr None"
        by (rule resolve_returns [OF assms])
      with n i show ?thesis by (cases out; cases "cliStdout C") (auto simp: cliResolve_def)
    qed
  qed
  then show ?thesis by (auto simp: cliMain_def Let_def split: option.split sum.split flagErr.split)
qed

theorem command_returns_witness:
  "\<exists>out. cliMain sampleClienv sampleRtenv (tinyEnv, tinyStart tinyMem) sampleZyenv (tinyEnv, tinyStart [9, 8, 7, 5]) False
     (\<lambda>t. [Event, CtxDone ErrCanceled]) [''-root-hints=8.8.8.8'', ''a'', ''AAAA''] = Returned out"
  by (rule command_returns [of _ length ErrCanceled])
     (simp_all add: typedParser_def typedAnswers_def parserProgress_def tinyEnv_def sampleParser_def split: list.splits)

text \<open>C18: what the command prints is one line, a JSON object from which a program reads the name it was asked for and
  what the validator found: the object says secure exactly when the validator did, its answer is never one found
  bogus or with another response code than NOERROR and NXDOMAIN, and the packet, the addresses and the
  texts of the result are read back from it, bytes that are not UTF-8 as replacement characters.\<close>

theorem command_output:
  assumes "cliMain C V T Z I d ws argv = Returned (Printed out)"
  shows "\<exists>fl args line fs rid p j j' q res. parseFlags (cliDuration C) (isPrint V) argv defaultFlags = Inr (fl, args)
     \<and> out = line @ [0x0a] \<and> oneLine line \<and> readJson out = Some (JObj fs, [0x0a])
     \<and> jsonField fs ''name'' = Some (JStr (runesOf (bytes_of_string (hd args))))
     \<and> 0 < sint rid \<and> pollGuest (fst I) rid p j = (j', Inr q) \<and> secStatus q \<noteq> 2 \<and> rcodeOf q \<in> {0, 3}
     \<and> jsonField fs ''secure'' = Some (JBool (secStatus q = 1)) \<and> jsonField fs ''nxdomain'' = Some (JBool (rcodeOf q = 3))
     \<and> packetField fs = Some (packet q) \<and> listField asAddr fs ''addrs'' = Some (resAddrs res)
     \<and> listField asText fs ''txt'' = Some (map (\<lambda>t. runesOf (bytes_of_string t)) (resTxt res))
     \<and> (if rcodeOf q = 3 then resAddrs res = [] \<and> resTxt res = []
        else \<exists>n ty r. normalizeName (hd args) = Inr n \<and> parseAnswer (ieDns (fst I)) (ieFold (fst I)) n ty r = Some (res, None)
          \<and> (case args of [name, t] \<Rightarrow> qtype (cliUpper C) t = Some ty | _ \<Rightarrow> ty = TypeA))"
proof -
  obtain fl args ty i i' res where f: "parseFlags (cliDuration C) (isPrint V) argv defaultFlags = Inr (fl, args)"
    and t: "case args of [name, t] \<Rightarrow> qtype (cliUpper C) t = Some ty | _ \<Rightarrow> ty = TypeA"
    and r: "Resolve (fst I) (hd args) ty (ws (flTimeout fl)) i = Returned (i', Inr (Some res))"
    and o: "out = encodeOut (hd args) ty res"
    using printed_result [OF assms] by blast
  obtain n where n: "normalizeName (hd args) = Inr n" "settledFrom (fst I) n ty res" using resolve_settled [OF r] by blast
  then obtain rid p j j' q where g: "0 < sint rid" "pollGuest (fst I) rid p j = (j', Inr q)"
    "accepted (ieDns (fst I)) (ieFold (fst I)) n ty q res" unfolding settledFrom_def by blast
  have ac: "secStatus q \<noteq> 2" "rcodeOf q \<in> {0, 3}" "Secure res = (secStatus q = 1)" "NXDomain res = (rcodeOf q = 3)"
    "AnswerPacket res = packet q" "if rcodeOf q = 3 then resAddrs res = [] \<and> resTxt res = []
     else \<exists>r. parseAnswer (ieDns (fst I)) (ieFold (fst I)) n ty r = Some (res, None)"
    using g(3) by (auto simp: accepted_def split: if_splits)
  let ?fs = "fieldsOf (hd args) ty res" and ?l = "printJson (outValue (hd args) ty res)"
  have out: "out = ?l @ [0x0a]" "oneLine ?l" "readJson out = Some (JObj ?fs, [0x0a])"
    using o print_oneLine(1) read_encodeOut by (simp_all add: encodeOut_def)
  have fs: "jsonField ?fs ''name'' = Some (JStr (runesOf (bytes_of_string (hd args))))"
    "jsonField ?fs ''secure'' = Some (JBool (secStatus q = 1))" "jsonField ?fs ''nxdomain'' = Some (JBool (rcodeOf q = 3))"
    "packetField ?fs = Some (packet q)" "listField asAddr ?fs ''addrs'' = Some (resAddrs res)"
    "listField asText ?fs ''txt'' = Some (map (\<lambda>t. runesOf (bytes_of_string t)) (resTxt res))"
    using encodeOut_lists(1) [OF settled_plain [OF n(2)]] ac
    by (simp_all add: fieldsOf_simps encodeOut_lists(2,4))
  show ?thesis
    by (intro exI [of _ fl] exI [of _ args] exI [of _ ?l] exI [of _ ?fs] exI [of _ rid] exI [of _ p] exI [of _ j]
          exI [of _ j'] exI [of _ q] exI [of _ res] conjI f out fs g(1,2) ac(1,2)) (use ac(6) n(1) t in auto)
qed

theorem command_output_witness:
  "\<exists>out line fs. cliMain sampleClienv sampleRtenv (tinyEnv, tinyStart tinyMem) (sampleZyenv\<lparr>zyDisable := True\<rparr>)
     (tinyEnv, tinyStart tinyMem) False (\<lambda>t. []) [''a''] = Returned (Printed out)
     \<and> out = line @ [0x0a] \<and> oneLine line \<and> readJson out = Some (JObj fs, [0x0a])"
proof -
  obtain out where o: "cliMain sampleClienv sampleRtenv (tinyEnv, tinyStart tinyMem) (sampleZyenv\<lparr>zyDisable := True\<rparr>)
     (tinyEnv, tinyStart tinyMem) False (\<lambda>t. []) [''a''] = Returned (Printed out)" using tiny_prints by blast
  from command_output [OF o] o show ?thesis by blast
qed

end
