(* ===== verification/GuestCrypto.thy ===== *)
theory GuestCrypto
  imports HostABI
begin

unbundle bit_operations_syntax

text \<open>
  The guest's cryptography and randomness: \<open>secalgo.c\<close>, which replaces Unbound's crypto library by calls to
  the host, and \<open>random.c\<close>, which draws every random value from it. The module is compiled for wasm32: an
  \<open>int\<close> and a \<open>long\<close> have 32 bits and so has \<open>size_t\<close>. A C buffer with its length is its bytes; an output
  buffer is returned, \<^const>\<open>None\<close> when the function fails and leaves it alone. The imports are the host's
  functions; \<open>hostCryptoDigest\<close> and its siblings show how they reach them through memory. A hash object that could
  not be allocated is not represented.
\<close>

section \<open>The imports on buffers\<close>

abbreviation (input) INT32_MAX :: nat where "INT32_MAX \<equiv> 0x7fffffff"

definition uw_crypto_supported :: "i32 \<Rightarrow> i32" where
  "uw_crypto_supported alg = b2i (cryptoSupported alg)"

definition uw_crypto_verify :: "'pub sigprims \<Rightarrow> i32 \<Rightarrow> bytes \<Rightarrow> bytes \<Rightarrow> bytes \<Rightarrow> i32" where
  "uw_crypto_verify P alg key data sig = b2i (cryptoVerify P alg key data sig)"

definition uw_crypto_digest :: "i32 \<Rightarrow> bytes \<Rightarrow> bytes option" where
  "uw_crypto_digest alg data = cryptoDigest alg data"

definition uw_nsec3_hash :: "bytes \<Rightarrow> i32 \<Rightarrow> bytes \<Rightarrow> bytes option" where
  "uw_nsec3_hash salt iters name = nsec3Hash salt iters name"

text \<open>What the host does for a call on buffers that lie in guest memory.\<close>

lemma host_crypto_verify:
  assumes "memRead M m kp kn = Some key" and "memRead M m dp dn = Some data" and "memRead M m sp sn = Some sig"
  shows "hostCryptoVerify M P alg kp kn dp dn sp sn m = uw_crypto_verify P alg key data sig"
  using assms by (simp add: hostCryptoVerify_def readCopy_def uw_crypto_verify_def)

lemma host_crypto_digest:
  assumes "memRead M m ptr n = Some data"
  shows "hostCryptoDigest M alg ptr n out m =
    (case uw_crypto_digest alg data of None \<Rightarrow> (m, 0)
     | Some d \<Rightarrow> (case memWrite M m out d of None \<Rightarrow> (m, 0) | Some m \<Rightarrow> (m, 1)))"
  using assms by (simp add: hostCryptoDigest_def readCopy_def uw_crypto_digest_def)

lemma host_nsec3_hash:
  assumes "memRead M m sp sn = Some salt" and "memRead M m np nn = Some name"
  shows "hostNSEC3Hash M sp sn iters np nn out m =
    (case uw_nsec3_hash salt iters name of None \<Rightarrow> (m, 0)
     | Some h \<Rightarrow> (case memWrite M m out h of None \<Rightarrow> (m, 0) | Some m \<Rightarrow> (m, 1)))"
  using assms by (simp add: hostNSEC3Hash_def readCopy_def uw_nsec3_hash_def)

section \<open>secalgo.c\<close>

definition nsec3_hash_algo_size_supported :: "i32 \<Rightarrow> nat" where
  "nsec3_hash_algo_size_supported algo = (if algo = 1 then 20 else 0)"

definition secalgo_nsec3_hash :: "i32 \<Rightarrow> bytes \<Rightarrow> bytes option" where
  "secalgo_nsec3_hash algo buf =
     (if algo \<noteq> 1 \<or> length buf > INT32_MAX then None else uw_nsec3_hash [] 0 buf)"

definition secalgo_hash_sha256 :: "bytes \<Rightarrow> bytes option" where
  "secalgo_hash_sha256 buf = (if length buf \<le> INT32_MAX then uw_crypto_digest 2 buf else None)"

text \<open>The streaming hash. \<open>hData\<close> is the buffer up to \<open>len\<close>; \<open>ok\<close> says whether \<open>realloc\<close> succeeds.\<close>

record secalgo_hash =
  hAlg :: i32
  hData :: bytes
  hCap :: u32

definition hash_create :: "i32 \<Rightarrow> secalgo_hash" where
  "hash_create alg = \<lparr>hAlg = alg, hData = [], hCap = 0\<rparr>"

text \<open>The loop that doubles the capacity; \<open>SIZE_MAX\<close> is \<open>0xffffffff\<close>. It starts from a capacity that is not 0
  (from 0 it would not end; that value is \<^const>\<open>None\<close>, as giving up is).\<close>

function growCap :: "u32 \<Rightarrow> u32 \<Rightarrow> u32 option" where
  "growCap cap need =
     (if cap < need then
        (if cap > 0xffffffff div 2 \<or> cap = 0 then None else growCap (cap * 2) need)
      else Some cap)"
  by pat_completeness auto

lemma double_cap:
  fixes cap :: u32
  assumes "\<not> cap > 0xffffffff div 2"
  shows "unat (cap * 2) = 2 * unat cap"
proof -
  have "unat cap \<le> 0x7fffffff" using assms by (simp add: word_le_nat_alt not_less)
  then show ?thesis by (simp add: unat_word_ariths)
qed

termination growCap
proof (relation "measure (\<lambda>(cap, need). 2 ^ 32 - unat cap)")
  fix cap need :: u32
  assume "cap < need" and c: "\<not> (cap > 0xffffffff div 2 \<or> cap = 0)"
  have "unat (cap * 2) = 2 * unat cap" using c double_cap by blast
  moreover have "0 < unat cap" using c by (simp add: unat_gt_0)
  moreover have "unat cap < 2 ^ 32" using unsigned_less [of cap, where 'a = nat] by simp
  ultimately show "((cap * 2, need), (cap, need)) \<in> measure (\<lambda>(cap, need). 2 ^ 32 - unat cap)" by simp
qed simp

declare growCap.simps [simp del]

definition secalgo_hash_update :: "bool \<Rightarrow> secalgo_hash \<Rightarrow> bytes \<Rightarrow> secalgo_hash option" where
  "secalgo_hash_update ok h data =
     (let hlen = of_nat (length (hData h)) :: u32; len = of_nat (length data) :: u32 in
      if len > 0xffffffff - hlen then None
      else if hlen + len > hCap h then
        (case growCap (if hCap h \<noteq> 0 then hCap h else 256) (hlen + len) of None \<Rightarrow> None
         | Some cap \<Rightarrow> if \<not> ok then None else Some (h\<lparr>hData := hData h @ data, hCap := cap\<rparr>))
      else Some (h\<lparr>hData := hData h @ data\<rparr>))"

text \<open>The size reported and, when the function succeeds, the digest.\<close>

definition secalgo_hash_final :: "secalgo_hash \<Rightarrow> nat \<Rightarrow> nat option \<times> bytes option" where
  "secalgo_hash_final h maxlen =
     (if length (hData h) > INT32_MAX then (None, None)
      else let need = (if hAlg h = 4 then 48 else 64) in
        if maxlen < need then (Some 0, None)
        else (Some need, uw_crypto_digest (hAlg h) (hData h)))"

definition ds_digest_size_supported :: "i32 \<Rightarrow> nat" where
  "ds_digest_size_supported alg = (if alg = 1 then 20 else if alg = 2 then 32 else if alg = 4 then 48 else 0)"

definition secalgo_ds_digest :: "i32 \<Rightarrow> bytes \<Rightarrow> bytes option" where
  "secalgo_ds_digest alg buf =
     (if ds_digest_size_supported alg = 0 \<or> length buf > INT32_MAX then None else uw_crypto_digest alg buf)"

definition dnskey_algo_id_is_supported :: "i32 \<Rightarrow> bool" where
  "dnskey_algo_id_is_supported algo = (uw_crypto_supported algo \<noteq> 0)"

datatype sec_status = sec_status_unchecked | sec_status_bogus | sec_status_secure

definition verify_canonrrset :: "'pub sigprims \<Rightarrow> bytes \<Rightarrow> i32 \<Rightarrow> bytes \<Rightarrow> bytes \<Rightarrow> sec_status \<times> string option" where
  "verify_canonrrset P buf algo sig key =
     (if length buf > INT32_MAX \<or> length key > INT32_MAX \<or> length sig > INT32_MAX then
        (sec_status_unchecked, Some ''crypto input too large'')
      else if uw_crypto_supported algo = 0 then (sec_status_unchecked, Some ''unsupported DNSKEY algorithm'')
      else if uw_crypto_verify P algo key buf sig \<noteq> 0 then (sec_status_secure, None)
      else (sec_status_bogus, Some ''signature crypto failed''))"

section \<open>random.c\<close>

text \<open>\<open>ub_random\<close> of the four bytes that \<open>uw_entropy\<close> draws.\<close>

definition ub_random :: "bytes \<Rightarrow> i32" where
  "ub_random b = le32 b AND 0x7fffffff"

text \<open>The draws of the loop are a list; \<^const>\<open>None\<close> means that they were all rejected.\<close>

fun sampleBelow :: "u32 \<Rightarrow> bytes list \<Rightarrow> u32 option" where
  "sampleBelow limit [] = None"
| "sampleBelow limit (b # bs) = (let v = ub_random b in if v \<ge> limit then sampleBelow limit bs else Some v)"

definition ub_random_max :: "i32 \<Rightarrow> bytes list \<Rightarrow> i32 option" where
  "ub_random_max upper bs =
     (if sint upper \<le> 1 then Some 0
      else let bound = upper; limit = 0x80000000 - (0x80000000 mod bound)
        in map_option (\<lambda>v. v mod bound) (sampleBelow limit bs))"

section \<open>Agreement with the host\<close>

text \<open>The sizes in the guest's tables are the lengths of the host's digests, and it asks for no other.\<close>

lemma ds_digest_host:
  "ds_digest_size_supported alg \<noteq> 0 \<Longrightarrow> \<exists>d. uw_crypto_digest alg buf = Some d \<and> length d = ds_digest_size_supported alg"
  by (auto simp: ds_digest_size_supported_def uw_crypto_digest_def cryptoDigest_def split: if_splits)

lemma nsec3_once: "uw_nsec3_hash [] 0 buf = Some (sha1Sum buf)"
  by (simp add: uw_nsec3_hash_def nsec3Hash_def nsec3Loop.simps)

lemma verify_needs_support: "\<not> cryptoSupported alg \<Longrightarrow> \<not> cryptoVerify P alg key data sig"
  by (auto simp: cryptoSupported_def cryptoVerify_def)

text \<open>Unbound's NSEC3 hash: the first round over the name and the salt, each further one over the last and the salt.\<close>

fun nsec3Rounds :: "bytes \<Rightarrow> bytes \<Rightarrow> nat \<Rightarrow> bytes option" where
  "nsec3Rounds salt name 0 = secalgo_nsec3_hash 1 (name @ salt)"
| "nsec3Rounds salt name (Suc n) = Option.bind (nsec3Rounds salt name n) (\<lambda>h. secalgo_nsec3_hash 1 (h @ salt))"

lemma nsec3Rounds_IH:
  assumes "length name + length salt \<le> INT32_MAX" and "20 + length salt \<le> INT32_MAX"
  shows "nsec3Rounds salt name n = Some (IH salt name n)"
proof (induction n)
  case (Suc n)
  have "length (IH salt name n) = 20" by (cases n) simp_all
  with Suc assms show ?case by (simp add: secalgo_nsec3_hash_def nsec3_once)
qed (use assms in \<open>simp add: secalgo_nsec3_hash_def nsec3_once\<close>)

section \<open>The streaming hash\<close>

definition hashOk :: "secalgo_hash \<Rightarrow> bool" where
  "hashOk h \<longleftrightarrow> length (hData h) \<le> unat (hCap h)"

lemma growCap_ge: "growCap cap need = Some c \<Longrightarrow> need \<le> c"
  by (induction cap need rule: growCap.induct) (auto simp: growCap.simps split: if_splits)

lemma growCap_some: "cap \<noteq> 0 \<Longrightarrow> unat need \<le> 2 ^ 31 \<Longrightarrow> \<exists>c. growCap cap need = Some c"
proof (induction cap need rule: growCap.induct)
  case (1 cap need)
  show ?case
  proof (cases "cap < need")
    case True
    then have "unat cap < unat need" by (simp add: word_less_nat_alt)
    then have c: "\<not> (cap > 0xffffffff div 2 \<or> cap = 0)" using "1.prems" by (simp add: word_less_nat_alt not_less)
    then have "unat (cap * 2) = 2 * unat cap" using double_cap by blast
    then have "cap * 2 \<noteq> 0" using "1.prems"(1) by (metis mult_eq_0_iff unat_0 unat_eq_zero zero_neq_numeral)
    with 1 True c show ?thesis by (subst growCap.simps) simp
  qed (simp add: growCap.simps)
qed

lemma unat_len: "k < 2 ^ 32 \<Longrightarrow> unat (of_nat k :: u32) = k"
  by (simp add: unat_of_nat)

lemma hash_update_sum:
  assumes "hashOk h" and "length data < 2 ^ 32"
  shows "of_nat (length data) > 0xffffffff - (of_nat (length (hData h)) :: u32) \<longleftrightarrow> length (hData h) + length data \<ge> 2 ^ 32"
    "length (hData h) + length data < 2 ^ 32 \<Longrightarrow>
       unat (of_nat (length (hData h)) + of_nat (length data) :: u32) = length (hData h) + length data"
proof -
  have "unat (hCap h) < 2 ^ 32" using unsigned_less [of "hCap h", where 'a = nat] by simp
  then have h: "length (hData h) < 2 ^ 32" using assms(1) by (simp add: hashOk_def)
  note u = unat_len [OF h] unat_len [OF assms(2)]
  have "unat (0xffffffff - (of_nat (length (hData h)) :: u32)) = 0xffffffff - length (hData h)"
    using h u by (subst unat_sub) (simp_all add: word_le_nat_alt)
  then show "of_nat (length data) > 0xffffffff - (of_nat (length (hData h)) :: u32) \<longleftrightarrow> length (hData h) + length data \<ge> 2 ^ 32"
    using h u by (simp add: word_less_nat_alt) arith
  show "unat (of_nat (length (hData h)) + of_nat (length data) :: u32) = length (hData h) + length data"
    if "length (hData h) + length data < 2 ^ 32" using that by (simp flip: of_nat_add add: unat_len)
qed

text \<open>An update that succeeds appends, inside the capacity; one that fits in 2 GiB succeeds when there is memory.\<close>

lemma hash_update:
  assumes "hashOk h" and "length data < 2 ^ 32" and "secalgo_hash_update ok h data = Some h'"
  shows "hashOk h' \<and> hData h' = hData h @ data \<and> hAlg h' = hAlg h"
proof -
  have l: "length (hData h) + length data < 2 ^ 32"
    using assms(3) hash_update_sum(1) [OF assms(1,2)] by (auto simp: secalgo_hash_update_def Let_def split: if_splits)
  note u = hash_update_sum(2) [OF assms(1,2) l]
  show ?thesis
    using assms(1,3) u growCap_ge
    by (fastforce simp: secalgo_hash_update_def Let_def hashOk_def word_le_nat_alt not_less split: if_splits option.splits)
qed

lemma hash_update_some:
  assumes "hashOk h" and "length (hData h) + length data \<le> INT32_MAX"
  shows "\<exists>h'. secalgo_hash_update True h data = Some h'"
proof -
  have d: "length data < 2 ^ 32" "\<not> length (hData h) + length data \<ge> 2 ^ 32" using assms(2) by simp_all
  note s = hash_update_sum [OF assms(1) d(1)]
  have "\<exists>c. growCap (if hCap h \<noteq> 0 then hCap h else 256) (of_nat (length (hData h)) + of_nat (length data)) = Some c"
    using s(2) d(2) assms(2) by (intro growCap_some) simp_all
  with s(1) d(2) show ?thesis by (auto simp: secalgo_hash_update_def Let_def)
qed

fun hash_updates :: "secalgo_hash \<Rightarrow> bytes list \<Rightarrow> secalgo_hash option" where
  "hash_updates h [] = Some h"
| "hash_updates h (d # ds) = Option.bind (secalgo_hash_update True h d) (\<lambda>h. hash_updates h ds)"

lemma hash_updates_concat:
  "hashOk h \<Longrightarrow> length (hData h) + length (concat ds) \<le> INT32_MAX \<Longrightarrow>
     \<exists>h'. hash_updates h ds = Some h' \<and> hData h' = hData h @ concat ds \<and> hAlg h' = hAlg h"
proof (induction ds arbitrary: h)
  case (Cons d ds)
  then obtain h1 where h1: "secalgo_hash_update True h d = Some h1" using hash_update_some [of h d] by auto
  have "length d < 2 ^ 32" using Cons.prems(2) by simp
  note u = hash_update [OF Cons.prems(1) this h1]
  with Cons.IH [of h1] Cons.prems(2) h1 show ?case by (simp add: add.assoc)
qed simp

section \<open>Rejection sampling\<close>

lemma ub_random_word: "unat (ub_random (put_le32 w)) = unat w mod 2 ^ 31"
proof -
  have "w AND 0x7fffffff = take_bit 31 w" by (simp add: take_bit_eq_mask mask_eq_exp_minus_1)
  then show ?thesis by (simp add: ub_random_def unat_mod_distrib take_bit_eq_mod)
qed

lemma unat_lt32: "unat (w :: u32) < 2 ^ 32"
  using unsigned_less [of w, where 'a = nat] by simp

text \<open>The draws that give \<open>k\<close>: as many for every \<open>k\<close> below the bound.\<close>

lemma draws_card:
  fixes B q k :: nat
  assumes "q * B \<le> 2 ^ 31" and "k < B"
  shows "card {w :: u32. unat w mod 2 ^ 31 < q * B \<and> unat w mod 2 ^ 31 mod B = k} = 2 * q"
proof -
  let ?S = "{w :: u32. unat w mod 2 ^ 31 < q * B \<and> unat w mod 2 ^ 31 mod B = k}"
  let ?f = "\<lambda>(h :: nat, j). of_nat (h * 2 ^ 31 + (j * B + k)) :: u32"
  have r: "j * B + k < q * B" if "j < q" for j
  proof -
    have "j * B + k < j * B + B" using assms(2) by simp
    also have "\<dots> = Suc j * B" by simp
    also have "\<dots> \<le> q * B" using that by (intro mult_right_mono) simp_all
    finally show ?thesis .
  qed
  have u: "unat (?f (h, j)) = h * 2 ^ 31 + (j * B + k)" if "h < 2" "j < q" for h j
  proof -
    have "j * B + k < 2 ^ 31" using r [OF that(2)] assms(1) by linarith
    then have "h * 2 ^ 31 + (j * B + k) < 2 ^ 32" using that(1) by (cases h) auto
    then show ?thesis by (simp only: prod.case unat_len)
  qed
  have m: "(h * 2 ^ 31 + (j * B + k)) mod 2 ^ 31 = j * B + k" "(h * 2 ^ 31 + (j * B + k)) div 2 ^ 31 = h" if "j < q" for h j
    using r [OF that] assms(1) by simp_all
  have "inj_on ?f ({..<2} \<times> {..<q})"
  proof (rule inj_onI)
    fix x y assume xy: "x \<in> {..<2} \<times> {..<q}" "y \<in> {..<2} \<times> {..<q}" and e: "?f x = ?f y"
    obtain h j h' j' where p: "x = (h, j)" "y = (h', j')" by (cases x; cases y)
    then have b: "h < 2" "j < q" "h' < 2" "j' < q" using xy by auto
    have "unat (?f (h, j)) = unat (?f (h', j'))" using e by (simp only: p)
    then have "h * 2 ^ 31 + (j * B + k) = h' * 2 ^ 31 + (j' * B + k)" by (simp only: u [OF b(1,2)] u [OF b(3,4)])
    then have "h = h'" "j * B + k = j' * B + k"
      using m [OF b(2), of h] m [OF b(4), of h'] by metis+
    then show "x = y" using assms(2) p by auto
  qed
  moreover have "?f ` ({..<2} \<times> {..<q}) = ?S"
  proof (intro equalityI subsetI)
    fix w assume "w \<in> ?f ` ({..<2} \<times> {..<q})"
    then obtain h j where w: "w = ?f (h, j)" "h < 2" "j < q" by auto
    then have "unat w mod 2 ^ 31 = j * B + k" using u [of h j] m(1) [of j h] by simp
    with w(3) r assms(2) show "w \<in> ?S" by simp
  next
    fix w assume "w \<in> ?S"
    then have s: "unat w mod 2 ^ 31 < q * B" "unat w mod 2 ^ 31 mod B = k" by auto
    define h j where "h = unat w div 2 ^ 31" and "j = unat w mod 2 ^ 31 div B"
    have hj: "h < 2" "j < q" using s(1) unat_lt32 [of w] by (auto simp: h_def j_def less_mult_imp_div_less)
    have "j * B + k = unat w mod 2 ^ 31" using s(2) unfolding j_def by (metis div_mult_mod_eq)
    then have "h * 2 ^ 31 + (j * B + k) = unat w" unfolding h_def by (metis div_mult_mod_eq)
    then have "w = ?f (h, j)" by (simp only: prod.case of_nat_unat) simp
    with hj show "w \<in> ?f ` ({..<2} \<times> {..<q})" by blast
  qed
  ultimately show ?thesis using card_image [of ?f "{..<2} \<times> {..<q}"] by (simp add: card_cartesian_product)
qed

lemma sint_unat_pos:
  fixes w :: i32
  assumes "0 < sint w"
  shows "int (unat w) = sint w" "unat w < 2 ^ 31"
proof -
  have l: "sint w < 2 ^ 31" using sint_lt [of w] by simp
  have "uint w = uint (word_of_int (sint w) :: i32)" by simp
  also have "\<dots> = sint w mod 2 ^ 32" by (simp only: uint_word_of_int) simp
  also have "\<dots> = sint w" using assms l by (intro mod_pos_pos_trivial) simp_all
  finally show "int (unat w) = sint w" by simp
  then have "int (unat w) < int (2 ^ 31)" using l by simp
  then show "unat w < 2 ^ 31" by (simp only: of_nat_less_iff)
qed

text \<open>One draw is accepted below the largest multiple of the bound, and then gives its remainder.\<close>

lemma random_max_one:
  assumes "1 < sint upper"
  shows "ub_random_max upper [put_le32 w] =
    (if unat w mod 2 ^ 31 < 2 ^ 31 div unat upper * unat upper then Some (of_nat (unat w mod 2 ^ 31 mod unat upper)) else None)"
proof -
  let ?limit = "0x80000000 - (0x80000000 mod upper)" and ?v = "ub_random (put_le32 w)"
  have "unat (0x80000000 mod upper) = 2 ^ 31 mod unat upper" by (simp add: unat_mod_distrib)
  then have "unat ?limit = 2 ^ 31 - 2 ^ 31 mod unat upper" by (subst unat_sub) (simp_all add: word_le_nat_alt)
  also have "\<dots> = 2 ^ 31 div unat upper * unat upper" by (simp add: minus_mod_eq_div_mult)
  finally have l: "?v < ?limit \<longleftrightarrow> unat w mod 2 ^ 31 < 2 ^ 31 div unat upper * unat upper"
    by (simp only: word_less_nat_alt ub_random_word)
  have "?v mod upper = of_nat (unat w mod 2 ^ 31 mod unat upper)"
    by (simp only: word_arith_nat_mod [of ?v] ub_random_word)
  with l assms show ?thesis by (simp only: ub_random_max_def Let_def) (auto simp: not_le Let_def)
qed

definition noSignatures :: "unit sigprims" where
  "noSignatures = \<lparr>rsaVerifyPKCS1v15 = \<lambda>k h d s. False, ecdsaParseUncompressed = \<lambda>c k. None, ecdsaVerify = \<lambda>p d r s. False,
     ed25519Verify = \<lambda>k d s. False\<rparr>"

section \<open>Properties\<close>

text \<open>C34: the guest's tables agree with the host's: a digest type is supported by the guest exactly with the size of
  the digest the host computes for it, the streaming hash over any chunks is the host's digest of all of
  them, and the rounds of the NSEC3 hash that Unbound runs with one host call each are the iterated hash that the
  host computes in one call.\<close>

theorem digests_agree:
  assumes "length buf \<le> INT32_MAX" and "length (concat ds) \<le> INT32_MAX" and "length name + length salt \<le> INT32_MAX"
    and "length salt < INT32_MAX - 20" and "unat iters \<le> 2 ^ 20"
  shows "(case secalgo_ds_digest alg buf of None \<Rightarrow> ds_digest_size_supported alg = 0
       | Some d \<Rightarrow> cryptoDigest alg buf = Some d \<and> length d = ds_digest_size_supported alg)
     \<and> (\<forall>a \<in> {4, 5}. \<exists>h d. hash_updates (hash_create a) ds = Some h \<and> cryptoDigest a (concat ds) = Some d
          \<and> secalgo_hash_final h 64 = (Some (length d), Some d))
     \<and> nsec3Rounds salt name (unat iters) = nsec3Hash salt iters name"
proof (intro conjI ballI)
  show "case secalgo_ds_digest alg buf of None \<Rightarrow> ds_digest_size_supported alg = 0
       | Some d \<Rightarrow> cryptoDigest alg buf = Some d \<and> length d = ds_digest_size_supported alg"
    using ds_digest_host [of alg buf] assms(1) by (auto simp: secalgo_ds_digest_def uw_crypto_digest_def)
  fix a :: i32 assume a: "a \<in> {4, 5}"
  have "hashOk (hash_create a)" by (simp add: hashOk_def hash_create_def)
  from hash_updates_concat [OF this, of ds] assms(2)
  obtain h where "hash_updates (hash_create a) ds = Some h" "hData h = concat ds" "hAlg h = a"
    by (auto simp: hash_create_def)
  with a assms(2) show "\<exists>h d. hash_updates (hash_create a) ds = Some h \<and> cryptoDigest a (concat ds) = Some d
      \<and> secalgo_hash_final h 64 = (Some (length d), Some d)"
    by (auto simp: secalgo_hash_final_def uw_crypto_digest_def cryptoDigest_def Let_def)
next
  have "iters \<le> push_bit 20 1" using assms(5) by (simp add: word_le_nat_alt)
  then show "nsec3Rounds salt name (unat iters) = nsec3Hash salt iters name"
    using nsec3Rounds_IH [OF assms(3)] assms(4) nsec3Loop_IH [of 0 iters salt name]
    by (simp add: nsec3Hash_def not_less)
qed

theorem digests_agree_witness:
  "nsec3Rounds [0xaa] [1, 0x61, 0] 12 = nsec3Hash [0xaa] 12 [1, 0x61, 0]"
  using digests_agree [of "[]" "[]" "[1, 0x61, 0]" "[0xaa]" 12] by simp

text \<open>A signature is secure for the guest exactly when the host verified it, an algorithm the host does not
  support is unchecked and never bogus, and what the guest calls secure has an algorithm it also reports
  as supported.\<close>

theorem verify_agrees:
  assumes "length buf \<le> INT32_MAX" and "length key \<le> INT32_MAX" and "length sig \<le> INT32_MAX"
  shows "fst (verify_canonrrset P buf algo sig key) =
      (if cryptoVerify P algo key buf sig then sec_status_secure
       else if dnskey_algo_id_is_supported algo then sec_status_bogus else sec_status_unchecked)
     \<and> (cryptoVerify P algo key buf sig \<longrightarrow> dnskey_algo_id_is_supported algo)"
  using assms verify_needs_support [of algo P key buf sig]
  by (auto simp: verify_canonrrset_def dnskey_algo_id_is_supported_def uw_crypto_supported_def uw_crypto_verify_def b2i_def)

theorem verify_agrees_witness:
  "fst (verify_canonrrset noSignatures [] 15 [] (replicate 32 0)) = sec_status_bogus"
  using verify_agrees [of "[]" "replicate 32 0" "[]" noSignatures 15]
  by (simp add: cryptoVerify_def dnskey_algo_id_is_supported_def uw_crypto_supported_def cryptoSupported_def b2i_def noSignatures_def)

text \<open>C35: \<open>ub_random_max\<close> is uniform: of the draws of four random bytes, equally many give each value below the
  bound, none gives another value, and fewer than half are rejected.\<close>

theorem random_max_uniform:
  assumes "1 < sint upper" and "k < unat upper"
  shows "card {w :: u32. ub_random_max upper [put_le32 w] = Some (of_nat k)} = 2 * (2 ^ 31 div unat upper)
     \<and> (\<forall>w v. ub_random_max upper [put_le32 w] = Some v \<longrightarrow> unat v < unat upper)
     \<and> 2 ^ 31 < 2 * (2 ^ 31 div unat upper) * unat upper"
proof -
  have u: "int (unat upper) = sint upper" "unat upper < 2 ^ 31" using sint_unat_pos [of upper] assms(1) by simp_all
  have s: "unat (of_nat (n mod unat upper) :: i32) = n mod unat upper" for n
  proof (rule unat_len)
    have "n mod unat upper < unat upper" using assms(2) by simp
    then show "n mod unat upper < 2 ^ 32" using u(2) by simp
  qed
  have k: "unat (of_nat k :: i32) = k" using assms(2) u(2) by (intro unat_len) simp
  have "{w :: u32. ub_random_max upper [put_le32 w] = Some (of_nat k)}
      = {w. unat w mod 2 ^ 31 < 2 ^ 31 div unat upper * unat upper \<and> unat w mod 2 ^ 31 mod unat upper = k}"
    using random_max_one [OF assms(1)] s k by (auto simp: word_unat_eq_iff)
  then have c: "card {w :: u32. ub_random_max upper [put_le32 w] = Some (of_nat k)} = 2 * (2 ^ 31 div unat upper)"
    using draws_card [of "2 ^ 31 div unat upper" "unat upper" k] assms(2) by (simp add: div_times_less_eq_dividend)
  have r: "unat v < unat upper" if "ub_random_max upper [put_le32 w] = Some v" for w v
    using that random_max_one [OF assms(1), of w] s assms(2) by (auto split: if_splits)
  have "2 ^ 31 mod unat upper < unat upper" "2 ^ 31 div unat upper * unat upper + 2 ^ 31 mod unat upper = 2 ^ 31"
    using assms(2) by simp_all
  moreover have "unat upper \<le> 2 ^ 31 div unat upper * unat upper"
  proof -
    have "0 < 2 ^ 31 div unat upper" using u(2) assms(2) by (subst div_greater_zero_iff) simp
    then show ?thesis by (cases "2 ^ 31 div unat upper") simp_all
  qed
  ultimately have "2 ^ 31 < 2 * (2 ^ 31 div unat upper) * unat upper" by linarith
  with c r show ?thesis by blast
qed

theorem random_max_uniform_witness:
  "card {w :: u32. ub_random_max 3 [put_le32 w] = Some 2} = 1431655764"
  using random_max_uniform [of 3 2] by simp

end
