(* ===== verification/GuestExports.thy ===== *)
theory GuestExports
  imports Runtime Provenance
begin

unbundle bit_operations_syntax

text \<open>
  The guest's side of the ABI: the exports of \<open>guest.c\<close>, between the host's instance and libunbound. The library
  is a parameter, a record of the functions \<open>guest.c\<close> calls on a context; a callback it makes is the record of its
  arguments. A pointer to a heap block is its address and its bytes, and a \<open>malloc\<close> is what it returned.
  Composed with the host's side, the lemmas show that the text the host writes into the guest's memory configures
  exactly what was asked for, and that an answer crosses the boundary unchanged.
\<close>

section \<open>State\<close>

abbreviation (input) ENOMEM :: i32 where "ENOMEM \<equiv> 48"
abbreviation (input) EINVAL :: i32 where "EINVAL \<equiv> 28"
abbreviation (input) EIO :: i32 where "EIO \<equiv> 29"
abbreviation (input) EALREADY :: i32 where "EALREADY \<equiv> 7"
abbreviation (input) ENOSPC :: i32 where "ENOSPC \<equiv> 51"
abbreviation (input) ENOENT :: i32 where "ENOENT \<equiv> 44"

abbreviation (input) MAX_RESULTS :: nat where "MAX_RESULTS \<equiv> 64"

record result_slot =
  rsUsed :: bool
  rsReady :: bool
  rsUbid :: i32
  rsRcode :: i32
  rsSec :: i32
  rsPacket :: "(u32 \<times> bytes) option"
  rsWhy :: "(u32 \<times> bytes) option"

datatype ub_ctx_err = UB_NOERROR | UB_NOMEM | UB_SYNTAX | UB_OTHER

text \<open>
  The arguments of a call of \<open>result_cb\<close>: the slot registered with the query, a packet (with its length) or
  \<open>NULL\<close>, a text or \<open>NULL\<close>; and what the two allocations of the callback return.
\<close>

record callback =
  cbArg :: nat
  cbCode :: i32
  cbPacket :: "bytes option"
  cbSec :: i32
  cbWhy :: "bytes option"
  cbPacketAt :: "u32 option"
  cbWhyAt :: "u32 option"

text \<open>
  libunbound. A query may be answered while it is started: \<open>ub_resolve_event\<close> returns the callbacks made before it
  returns, its status and the identifier of the query.
\<close>

record 'c libunbound =
  ub_ctx_create_ub_event :: "'c option"
  ub_ctx_set_option :: "'c \<Rightarrow> string \<Rightarrow> string \<Rightarrow> 'c \<times> ub_ctx_err"
  ub_ctx_add_ta :: "'c \<Rightarrow> string \<Rightarrow> 'c \<times> ub_ctx_err"
  ub_ctx_set_stub :: "'c \<Rightarrow> string \<Rightarrow> string \<Rightarrow> bool \<Rightarrow> 'c \<times> ub_ctx_err"
  finalized :: "'c \<Rightarrow> bool"
  context_finalize :: "'c \<Rightarrow> 'c \<times> ub_ctx_err"
  event_worker :: "'c \<Rightarrow> bool"
  libworker_create_event :: "'c \<Rightarrow> 'c \<times> bool"
  comm_base_clear :: "'c \<Rightarrow> 'c"
  ub_resolve_event :: "'c \<Rightarrow> string \<Rightarrow> i32 \<Rightarrow> i32 \<Rightarrow> nat \<Rightarrow> 'c \<times> callback list \<times> ub_ctx_err \<times> i32"
  ub_cancel :: "'c \<Rightarrow> i32 \<Rightarrow> 'c"

record 'c guestState =
  gResults :: "result_slot list"
  gCtx :: "'c option"
  ctx_err :: i32
  saved_cfg :: "bytes option"
  saved_anchors :: "bytes option"
  saved_hints :: "bytes option"

definition noSlot :: result_slot where
  "noSlot = \<lparr>rsUsed = False, rsReady = False, rsUbid = 0, rsRcode = 0, rsSec = 0, rsPacket = None, rsWhy = None\<rparr>"

definition guestStart :: "'c guestState" where
  "guestStart = \<lparr>gResults = replicate MAX_RESULTS noSlot, gCtx = None, ctx_err = 0, saved_cfg = None,
     saved_anchors = None, saved_hints = None\<rparr>"

section \<open>Configuration\<close>

definition ub_errno :: "ub_ctx_err \<Rightarrow> i32" where
  "ub_errno r = (case r of UB_NOMEM \<Rightarrow> ENOMEM | UB_SYNTAX \<Rightarrow> EINVAL | _ \<Rightarrow> EIO)"

definition copy_input :: "bool \<Rightarrow> bytes \<Rightarrow> bytes option" where
  "copy_input ok b = (if \<not> ok then None else Some (b @ [0]))"

text \<open>A C string is its bytes up to the first zero.\<close>

definition cString :: "bytes \<Rightarrow> string" where
  "cString b = string_of_bytes (takeWhile (\<lambda>x. x \<noteq> 0) b)"

datatype input_kind = INPUT_CFG | INPUT_ANCHORS | INPUT_HINTS

definition blank :: "char \<Rightarrow> bool" where
  "blank c \<longleftrightarrow> c = CHR '' '' \<or> c = CHR 0x09 \<or> c = CHR 0x0D"

definition apply_line :: "'c libunbound \<Rightarrow> input_kind \<Rightarrow> 'c \<Rightarrow> string \<Rightarrow> 'c \<times> i32" where
  "apply_line L k c line =
     (let status = (\<lambda>(c, r). (c, if r = UB_NOERROR then 0 else ub_errno r)) in
      case k of
        INPUT_ANCHORS \<Rightarrow> status (ub_ctx_add_ta L c line)
      | INPUT_HINTS \<Rightarrow> status (ub_ctx_set_stub L c ''.'' line True)
      | INPUT_CFG \<Rightarrow>
          (case dropWhile (\<lambda>x. x \<noteq> CHR ''='') line of [] \<Rightarrow> (c, EINVAL)
           | _ # sep \<Rightarrow> status (ub_ctx_set_option L c (takeWhile (\<lambda>x. x \<noteq> CHR ''='') line) sep)))"

text \<open>The loop over the lines; a text is not read again after it, so cutting it up in place is not modelled.\<close>

function apply_lines :: "'c libunbound \<Rightarrow> input_kind \<Rightarrow> 'c \<Rightarrow> string \<Rightarrow> 'c \<times> i32" where
  "apply_lines L k c text =
     (if text = [] then (c, 0)
      else let next = tl (dropWhile (\<lambda>x. x \<noteq> CHR 0x0A) text);
               line = dropWhile blank (takeWhile (\<lambda>x. x \<noteq> CHR 0x0A) text)
        in if line \<noteq> [] \<and> hd line \<noteq> CHR ''#'' then
             (case apply_line L k c (rev (dropWhile blank (rev line))) of (c, r) \<Rightarrow>
                if r \<noteq> 0 then (c, r) else apply_lines L k c next)
           else apply_lines L k c next)"
  by pat_completeness auto

lemma next_shorter: "t \<noteq> [] \<Longrightarrow> length (tl (dropWhile P t)) < length t"
  using length_dropWhile_le [of P t] by (cases t) auto

termination apply_lines
  by (relation "measure (\<lambda>(L, k, c, t). length t)") (auto simp: next_shorter simp del: length_tl)

declare apply_lines.simps [simp del]

definition applySaved :: "'c libunbound \<Rightarrow> input_kind \<Rightarrow> 'c \<Rightarrow> bytes option \<Rightarrow> 'c \<times> i32" where
  "applySaved L k c saved = (case saved of None \<Rightarrow> (c, 0) | Some b \<Rightarrow> apply_lines L k c (cString b))"

definition ensure_ctx :: "'c libunbound \<Rightarrow> 'c guestState \<Rightarrow> 'c guestState \<times> i32" where
  "ensure_ctx L g =
     (if ctx_err g \<noteq> 0 then (g, ctx_err g)
      else if gCtx g \<noteq> None then (g, 0)
      else case ub_ctx_create_ub_event L of None \<Rightarrow> (g\<lparr>ctx_err := ENOMEM\<rparr>, ENOMEM)
      | Some c \<Rightarrow>
          (case applySaved L INPUT_CFG c (saved_cfg g) of (c, r) \<Rightarrow>
             if r \<noteq> 0 then (g\<lparr>gCtx := Some c, ctx_err := r\<rparr>, r)
             else case applySaved L INPUT_ANCHORS c (saved_anchors g) of (c, r) \<Rightarrow>
               if r \<noteq> 0 then (g\<lparr>gCtx := Some c, ctx_err := r\<rparr>, r)
               else case applySaved L INPUT_HINTS c (saved_hints g) of (c, r) \<Rightarrow>
                 if r \<noteq> 0 then (g\<lparr>gCtx := Some c, ctx_err := r\<rparr>, r)
                 else (g\<lparr>gCtx := Some c\<rparr>, 0)))"

definition ensure_worker :: "'c libunbound \<Rightarrow> 'c \<Rightarrow> 'c guestState \<Rightarrow> 'c guestState \<times> i32" where
  "ensure_worker L c g =
     (case (if \<not> finalized L c then context_finalize L c else (c, UB_NOERROR)) of (c, r) \<Rightarrow>
        if r \<noteq> UB_NOERROR then (g\<lparr>gCtx := Some c, ctx_err := ub_errno r\<rparr>, ub_errno r)
        else case (if \<not> event_worker L c then libworker_create_event L c else (c, True)) of (c, ok) \<Rightarrow>
          if \<not> ok then (g\<lparr>gCtx := Some c, ctx_err := ENOMEM\<rparr>, ENOMEM)
          else (g\<lparr>gCtx := Some (comm_base_clear L c)\<rparr>, 0))"

section \<open>Exports\<close>

definition guest_init :: "bool \<Rightarrow> bool \<Rightarrow> bool \<Rightarrow> bytes \<Rightarrow> bytes \<Rightarrow> bytes \<Rightarrow> 'c guestState \<Rightarrow> 'c guestState \<times> i32" where
  "guest_init ok1 ok2 ok3 cfg anchors hints g =
     (if gCtx g \<noteq> None \<or> saved_cfg g \<noteq> None then (g, - EALREADY)
      else let g = g\<lparr>saved_cfg := copy_input ok1 cfg, saved_anchors := copy_input ok2 anchors,
                     saved_hints := copy_input ok3 hints\<rparr>
        in if saved_cfg g = None \<or> saved_anchors g = None \<or> saved_hints g = None then (g, - ENOMEM) else (g, 0))"

definition guest_warmup :: "'c libunbound \<Rightarrow> 'c guestState \<Rightarrow> 'c guestState \<times> i32" where
  "guest_warmup L g =
     (case ensure_ctx L g of (g, r) \<Rightarrow>
        case (case gCtx g of Some c \<Rightarrow> if r = 0 then ensure_worker L c g else (g, r) | None \<Rightarrow> (g, r)) of (g, r) \<Rightarrow>
          (g, if r \<noteq> 0 then - r else 0))"

definition result_cb :: "callback \<Rightarrow> result_slot list \<Rightarrow> result_slot list" where
  "result_cb cb rs =
     (let s = rs ! cbArg cb in
      if \<not> rsUsed s then rs
      else let s = s\<lparr>rsRcode := cbCode cb, rsSec := cbSec cb\<rparr>;
               s = (case cbPacket cb of
                      Some b \<Rightarrow>
                        if length b > 0
                        then (case cbPacketAt cb of Some p \<Rightarrow> s\<lparr>rsPacket := Some (p, b)\<rparr> | None \<Rightarrow> s\<lparr>rsRcode := 2\<rparr>)
                        else s
                    | None \<Rightarrow> s);
               s = (case cbWhy cb of Some w \<Rightarrow> s\<lparr>rsWhy := map_option (\<lambda>p. (p, w)) (cbWhyAt cb)\<rparr> | None \<Rightarrow> s)
        in rs[cbArg cb := s\<lparr>rsUbid := 0, rsReady := True\<rparr>])"

definition clear_result :: "nat \<Rightarrow> 'c guestState \<Rightarrow> 'c guestState" where
  "clear_result i g = g\<lparr>gResults := (gResults g)[i := noSlot]\<rparr>"

definition freeSlot :: "result_slot list \<Rightarrow> nat option" where
  "freeSlot rs = find (\<lambda>i. \<not> rsUsed (rs ! i)) [0..<length rs]"

definition guest_resolve_start :: "'c libunbound \<Rightarrow> bool \<Rightarrow> bytes \<Rightarrow> u32 \<Rightarrow> u32 \<Rightarrow> 'c guestState \<Rightarrow> 'c guestState \<times> i32" where
  "guest_resolve_start L ok qname qtype qclass g =
     (case ensure_ctx L g of (g, r) \<Rightarrow>
        if r \<noteq> 0 then (g, - r)
        else case copy_input ok qname of None \<Rightarrow> (g, - ENOMEM)
        | Some name \<Rightarrow>
            (case freeSlot (gResults g) of None \<Rightarrow> (g, - ENOSPC)
             | Some i \<Rightarrow>
                 (let rs = (gResults g)[i := (gResults g ! i)\<lparr>rsUsed := True\<rparr>] in
                  case ub_resolve_event L (the (gCtx g)) (cString name) qtype qclass i of (c, cbs, r, ubid) \<Rightarrow>
                    let g = g\<lparr>gCtx := Some c, gResults := fold result_cb cbs rs\<rparr> in
                    if r \<noteq> UB_NOERROR then (clear_result i g, - ub_errno r)
                    else (g\<lparr>gResults := (gResults g)[i := (gResults g ! i)\<lparr>rsUbid := ubid\<rparr>]\<rparr>, of_nat (i + 1)))))"

definition resultOf :: "i32 \<Rightarrow> 'c guestState \<Rightarrow> result_slot option" where
  "resultOf rid g =
     (if sint rid \<le> 0 \<or> sint rid > int MAX_RESULTS then None
      else let s = gResults g ! nat (sint rid - 1) in if rsUsed s then Some s else None)"

definition result_layout :: "result_slot \<Rightarrow> bytes" where
  "result_layout s =
     put_le32 (if rsSec s = 2 then 1 else if rsSec s = 1 then 2 else 0) @ put_le32 (rsRcode s) @
     (case rsWhy s of Some (p, w) \<Rightarrow> put_le32 p @ put_le32 (of_nat (length w)) | None \<Rightarrow> put_le32 0 @ put_le32 0) @
     (case rsPacket s of Some (p, b) \<Rightarrow> put_le32 p @ put_le32 (of_nat (length b)) | None \<Rightarrow> put_le32 0 @ put_le32 0) @
     replicate 8 0"

definition guest_result_get :: "i32 \<Rightarrow> 'c guestState \<Rightarrow> i32 \<times> bytes option" where
  "guest_result_get rid g =
     (case resultOf rid g of None \<Rightarrow> (- ENOENT, None)
      | Some s \<Rightarrow> if \<not> rsReady s then (0, None) else (1, Some (result_layout s)))"

definition guest_resolve_cancel :: "'c libunbound \<Rightarrow> i32 \<Rightarrow> 'c guestState \<Rightarrow> 'c guestState" where
  "guest_resolve_cancel L rid g =
     (case resultOf rid g of None \<Rightarrow> g
      | Some s \<Rightarrow>
          clear_result (nat (sint rid - 1))
            (case gCtx g of Some c \<Rightarrow> if rsUbid s \<noteq> 0 then g\<lparr>gCtx := Some (ub_cancel L c (rsUbid s))\<rparr> else g
             | None \<Rightarrow> g))"

section \<open>Slots\<close>

lemma result_cb_cases:
  obtains "result_cb cb rs = rs"
  | s where "result_cb cb rs = rs[cbArg cb := s]" and "rsUsed s" and "rsUsed (rs ! cbArg cb)"
proof (cases "rsUsed (rs ! cbArg cb)")
  case True
  then have "\<exists>s. result_cb cb rs = rs[cbArg cb := s] \<and> rsUsed s"
    by (auto simp: result_cb_def Let_def split: option.splits intro!: exI)
  with True that(2) show ?thesis by blast
qed (simp add: that(1) result_cb_def)

lemma result_cb_used [simp]: "map rsUsed (result_cb cb rs) = map rsUsed rs"
proof (cases rule: result_cb_cases [of cb rs])
  case (2 s)
  then show ?thesis by (cases "cbArg cb < length rs") (simp_all add: map_update list_update_same_conv list_update_beyond)
qed simp

lemma fold_cb_used [simp]: "map rsUsed (fold result_cb cbs rs) = map rsUsed rs"
  by (induction cbs arbitrary: rs) simp_all

text \<open>Which slots are in use is all that the bookkeeping depends on.\<close>

definition usedSlots :: "'c guestState \<Rightarrow> bool list" where
  "usedSlots g = map rsUsed (gResults g)"

definition live :: "'c guestState \<Rightarrow> i32 \<Rightarrow> bool" where
  "live g r \<longleftrightarrow> resultOf r g \<noteq> None"

lemma live_used: "length (gResults g) = MAX_RESULTS \<Longrightarrow>
   live g r \<longleftrightarrow> 0 < sint r \<and> sint r \<le> 64 \<and> usedSlots g ! nat (sint r - 1)"
  by (auto simp: live_def resultOf_def usedSlots_def Let_def)

lemma usedSlots_length: "length (usedSlots g) = length (gResults g)"
  by (simp add: usedSlots_def)

definition errnoOk :: "'c guestState \<Rightarrow> bool" where
  "errnoOk g \<longleftrightarrow> ctx_err g \<in> {0, ENOMEM, EINVAL, EIO}"

lemma apply_line_errno: "apply_line L k c l = (c', r) \<Longrightarrow> r \<in> {0, ENOMEM, EINVAL, EIO}"
  by (auto simp: apply_line_def ub_errno_def Let_def split: input_kind.splits prod.splits if_splits list.splits ub_ctx_err.splits)

lemma apply_lines_errno: "apply_lines L k c t = (c', r) \<Longrightarrow> r \<in> {0, ENOMEM, EINVAL, EIO}"
proof (induction L k c t arbitrary: c' r rule: apply_lines.induct)
  case (1 L k c t)
  show ?case
  proof (cases "t = []")
    case True
    with 1(3) show ?thesis by (simp add: apply_lines.simps)
  next
    case False
    let ?line = "dropWhile blank (takeWhile (\<lambda>x. x \<noteq> CHR 0x0A) t)"
    obtain d e where d: "apply_line L k c (rev (dropWhile blank (rev ?line))) = (d, e)" by fastforce
    show ?thesis
    proof (cases "?line \<noteq> [] \<and> hd ?line \<noteq> CHR ''#''")
      case True
      then have "apply_lines L k c t = (if e \<noteq> 0 then (d, e) else apply_lines L k d (tl (dropWhile (\<lambda>x. x \<noteq> CHR 0x0A) t)))"
        using False d by (subst apply_lines.simps) (simp add: Let_def)
      with 1(1) [OF False refl refl True d [symmetric]] 1(3) apply_line_errno [OF d] show ?thesis
        by (cases "e = 0") auto
    next
      case line: False
      then have "apply_lines L k c t = apply_lines L k c (tl (dropWhile (\<lambda>x. x \<noteq> CHR 0x0A) t))"
        using False by (subst apply_lines.simps) (auto simp: Let_def)
      with 1(2) [OF False refl refl line] 1(3) show ?thesis by simp
    qed
  qed
qed

lemma applySaved_errno: "applySaved L k c b = (c', r) \<Longrightarrow> r \<in> {0, ENOMEM, EINVAL, EIO}"
  by (auto simp: applySaved_def dest: apply_lines_errno split: option.splits)

lemma ensure_ctx_frame:
  assumes "ensure_ctx L g = (g', r)"
  shows "gResults g' = gResults g" and "errnoOk g \<Longrightarrow> r \<in> {0, ENOMEM, EINVAL, EIO}"
proof -
  show "gResults g' = gResults g" using assms by (auto simp: ensure_ctx_def split: if_splits option.splits prod.splits)
  assume "errnoOk g"
  then show "r \<in> {0, ENOMEM, EINVAL, EIO}"
    using assms unfolding ensure_ctx_def errnoOk_def
    by (auto split: if_splits option.splits prod.splits dest!: applySaved_errno)
qed

lemma freeSlot_spec:
  "freeSlot rs = Some i \<Longrightarrow> i < length rs \<and> \<not> rsUsed (rs ! i)"
  "freeSlot rs = None \<longleftrightarrow> list_all rsUsed rs"
  by (auto simp: freeSlot_def find_Some_iff find_None_iff list_all_length)

text \<open>What starting a query does to the slots: it takes a free one, or fails and leaves them as they were.\<close>

lemma start_slots:
  assumes "length (gResults g) = MAX_RESULTS" and "errnoOk g"
    and "guest_resolve_start L ok name t cl g = (g', rid)"
  shows "(\<exists>i < MAX_RESULTS. \<not> usedSlots g ! i \<and> usedSlots g' = (usedSlots g)[i := True] \<and> rid = of_nat (i + 1)) \<or>
    (sint rid < 0 \<and> usedSlots g' = usedSlots g)"
proof -
  obtain g1 r where e: "ensure_ctx L g = (g1, r)" by fastforce
  note f = ensure_ctx_frame(1) [OF e] ensure_ctx_frame(2) [OF e assms(2)]
  have neg: "sint (- ub_errno x) < 0" for x by (cases x) (simp_all add: ub_errno_def)
  show ?thesis
  proof (cases "r = 0 \<and> ok \<and> freeSlot (gResults g) \<noteq> None")
    case False
    then have "sint rid < 0 \<and> g' = g1"
      using assms(3) e f by (auto simp: guest_resolve_start_def copy_input_def split: if_splits)
    then show ?thesis using f by (simp add: usedSlots_def)
  next
    case True
    then obtain i where i: "freeSlot (gResults g) = Some i" by auto
    have u: "map rsUsed ((gResults g)[i := (gResults g ! i)\<lparr>rsUsed := True\<rparr>]) = (usedSlots g)[i := True]"
      by (simp add: usedSlots_def map_update)
    obtain c cbs r' ubid where q: "ub_resolve_event L (the (gCtx g1)) (cString (name @ [0])) t cl i = (c, cbs, r', ubid)"
      by (metis surj_pair)
    let ?rs = "fold result_cb cbs ((gResults g)[i := (gResults g ! i)\<lparr>rsUsed := True\<rparr>])"
    have m: "map rsUsed ?rs = (usedSlots g)[i := True]" by (simp only: fold_cb_used u)
    have l: "i < MAX_RESULTS" "\<not> usedSlots g ! i"
      using freeSlot_spec(1) [OF i] assms(1) by (simp_all add: usedSlots_def)
    have keep: "(usedSlots g)[i := False] = usedSlots g" using l(2) by (simp add: list_update_same_conv usedSlots_length assms(1) l(1))
    show ?thesis
    proof (cases "r' = UB_NOERROR")
      case ok: True
      have "length ?rs = length (usedSlots g)" using arg_cong [OF m, of length] by (simp only: length_map length_list_update)
      then have i': "i < length ?rs" using l(1) assms(1) by (simp only: usedSlots_length)
      have "map rsUsed ?rs ! i" using l(1) assms(1) by (simp only: m) (simp add: usedSlots_length)
      then have "rsUsed (?rs ! i)" using i' by (simp only: nth_map)
      then have "map rsUsed (?rs[i := (?rs ! i)\<lparr>rsUbid := ubid\<rparr>]) = (usedSlots g)[i := True]"
        by (simp only: map_update m result_slot.simps) (simp add: list_update_overwrite)
      then show ?thesis
        using True i e f q ok l assms(3)
        by (auto simp: guest_resolve_start_def copy_input_def usedSlots_def Let_def split: if_splits intro!: exI [of _ i])
    next
      case False
      have "map rsUsed (?rs[i := noSlot]) = usedSlots g"
        by (simp only: map_update m) (simp add: noSlot_def keep)
      then show ?thesis
        using True i e f q False neg assms(3)
        by (auto simp: guest_resolve_start_def copy_input_def usedSlots_def clear_result_def Let_def split: if_splits)
    qed
  qed
qed

lemma sint_rid: "i < MAX_RESULTS \<Longrightarrow> sint (of_nat (i + 1) :: i32) = int i + 1"
proof -
  assume i: "i < MAX_RESULTS"
  have "sint (of_nat (i + 1) :: i32) = signed_take_bit 31 (int (i + 1))" by (simp only: signed_of_nat) simp
  also have "\<dots> = int i + 1" using i by (simp add: signed_take_bit_int_eq_self)
  finally show ?thesis .
qed

lemma sint_nat_inj: "0 < sint (r :: i32) \<Longrightarrow> 0 < sint r' \<Longrightarrow> nat (sint r - 1) = nat (sint r' - 1) \<Longrightarrow> r = r'"
proof -
  assume "0 < sint r" and "0 < sint r'" and "nat (sint r - 1) = nat (sint r' - 1)"
  then have "sint r = sint r'" by simp
  then show ?thesis by (rule signed_word_eqI)
qed

lemma cancel_slots:
  assumes "length (gResults g) = MAX_RESULTS"
  shows "usedSlots (guest_resolve_cancel L rid g) =
    (if \<not> live g rid then usedSlots g else (usedSlots g)[nat (sint rid - 1) := False])"
  by (auto simp: guest_resolve_cancel_def clear_result_def usedSlots_def map_update noSlot_def live_def split: option.splits)

text \<open>C24: the identifiers of queries are handed out and given back without confusion: a query that starts gets a
  positive identifier that was not in use and now is, and no other identifier changes; one that does
  not start returns a negative error and changes none; and cancelling gives back exactly that one. At most 64 are
  in use.\<close>

theorem guest_slots:
  assumes "length (gResults g) = MAX_RESULTS" and "errnoOk g"
    and "guest_resolve_start L ok name t cl g = (g', rid)"
  shows "(if 0 < sint rid
      then sint rid \<le> 64 \<and> \<not> live g rid \<and> (\<forall>r. live g' r \<longleftrightarrow> r = rid \<or> live g r)
      else sint rid < 0 \<and> (\<forall>r. live g' r \<longleftrightarrow> live g r))
    \<and> (\<forall>r. live (guest_resolve_cancel L rid g') r \<longleftrightarrow> r \<noteq> rid \<and> live g' r)"
proof -
  have len: "length (gResults g') = MAX_RESULTS"
    using start_slots [OF assms] assms(1) by (metis length_list_update usedSlots_length)
  have "length (gResults (guest_resolve_cancel L rid g')) = MAX_RESULTS"
    using cancel_slots [OF len, of L rid] len by (metis length_list_update usedSlots_length)
  note res = live_used [OF assms(1)] live_used [OF len] live_used [OF this]
  have cancel: "live (guest_resolve_cancel L rid g') r \<longleftrightarrow> r \<noteq> rid \<and> live g' r" for r
    using cancel_slots [OF len, of L rid] res(2) [of rid] len sint_nat_inj [of r rid]
    by (cases "r = rid") (auto simp: res nth_list_update usedSlots_length split: if_splits)
  from start_slots [OF assms] show ?thesis
  proof
    assume "\<exists>i < MAX_RESULTS. \<not> usedSlots g ! i \<and> usedSlots g' = (usedSlots g)[i := True] \<and> rid = of_nat (i + 1)"
    then obtain i where i: "i < MAX_RESULTS" "\<not> usedSlots g ! i" "usedSlots g' = (usedSlots g)[i := True]"
      "sint rid = int i + 1" using sint_rid by metis
    have "live g' r \<longleftrightarrow> r = rid \<or> live g r" for r
      using i assms(1) sint_nat_inj [of r rid] by (cases "r = rid") (auto simp: res nth_list_update usedSlots_length)
    moreover have "\<not> live g rid" using i res(1) [of rid] by simp
    ultimately show ?thesis using i cancel by simp
  next
    assume "sint rid < 0 \<and> usedSlots g' = usedSlots g"
    then show ?thesis using cancel by (simp add: res)
  qed
qed

text \<open>A library that takes every setting and answers a query at once, without a packet.\<close>

definition eagerCallback :: "nat \<Rightarrow> callback" where
  "eagerCallback i = \<lparr>cbArg = i, cbCode = 0, cbPacket = None, cbSec = 0, cbWhy = None, cbPacketAt = None, cbWhyAt = None\<rparr>"

definition eager :: "unit libunbound" where
  "eager = \<lparr>ub_ctx_create_ub_event = Some (), ub_ctx_set_option = \<lambda>c n v. ((), UB_NOERROR),
     ub_ctx_add_ta = \<lambda>c a. ((), UB_NOERROR), ub_ctx_set_stub = \<lambda>c z h p. ((), UB_NOERROR),
     finalized = \<lambda>c. True, context_finalize = \<lambda>c. ((), UB_NOERROR), event_worker = \<lambda>c. True,
     libworker_create_event = \<lambda>c. ((), True), comm_base_clear = \<lambda>c. (),
     ub_resolve_event = \<lambda>c n t cl i. ((), [eagerCallback i], UB_NOERROR, 7), ub_cancel = \<lambda>c i. ()\<rparr>"

theorem guest_slots_witness:
  "\<exists>g. guest_resolve_start eager True [0x61] 1 1 guestStart = (g, 1) \<and> live g 1 \<and> \<not> live (guestStart :: unit guestState) 1
     \<and> \<not> live (guest_resolve_cancel eager 1 g) 1"
proof -
  obtain g rid where g: "guest_resolve_start eager True [0x61] 1 1 guestStart = (g, rid)" by fastforce
  have "freeSlot (gResults (guestStart :: unit guestState)) = Some 0"
    by (simp add: freeSlot_def guestStart_def noSlot_def upt_conv_Cons)
  with g have r: "rid = 1"
    by (auto simp: guest_resolve_start_def ensure_ctx_def guestStart_def eager_def applySaved_def copy_input_def Let_def)
  have "length (gResults (guestStart :: unit guestState)) = MAX_RESULTS" "errnoOk (guestStart :: unit guestState)"
    by (simp_all add: guestStart_def errnoOk_def)
  with guest_slots [OF _ _ g] g r show ?thesis by auto
qed

section \<open>Handing over an answer\<close>

lemma layout_words:
  "length (result_layout s) = 32"
  "resultWord (result_layout s) 0 = (if rsSec s = 2 then 1 else if rsSec s = 1 then 2 else 0)"
  "resultWord (result_layout s) 4 = rsRcode s"
  "rsWhy s = None \<Longrightarrow> resultWord (result_layout s) 12 = 0"
  "rsWhy s = Some (a, b) \<Longrightarrow> resultWord (result_layout s) 8 = a \<and> resultWord (result_layout s) 12 = of_nat (length b)"
  "rsPacket s = None \<Longrightarrow> resultWord (result_layout s) 20 = 0"
  "rsPacket s = Some (a, b) \<Longrightarrow> resultWord (result_layout s) 16 = a \<and> resultWord (result_layout s) 20 = of_nat (length b)"
  by (auto simp: result_layout_def resultWord_def split: option.splits)

text \<open>A block of the guest's heap lies in its memory, apart from the structure that is filled in, and within the
  limit of the ABI.\<close>

definition held :: "'m memops \<Rightarrow> 'm \<Rightarrow> u32 \<Rightarrow> (u32 \<times> bytes) option \<Rightarrow> bool" where
  "held M m p blk = (case blk of None \<Rightarrow> True
     | Some (a, b) \<Rightarrow> length b \<le> 65535 \<and> memRead M m a (of_nat (length b)) = Some b \<and>
         (unat a + length b \<le> unat p \<or> unat p + 32 \<le> unat a))"

definition blockBytes :: "(u32 \<times> bytes) option \<Rightarrow> bytes" where
  "blockBytes blk = (case blk of None \<Rightarrow> [] | Some (a, b) \<Rightarrow> b)"

lemma readResult_block:
  assumes "linear_memory M memLen" and "memWrite M m p out = Some m'" and "length out = 32" and "held M m p blk"
    and "case blk of None \<Rightarrow> n = 0 | Some (a, b) \<Rightarrow> ptr = a \<and> n = of_nat (length b)"
  shows "readResult M m' ptr n = Inr (blockBytes blk)"
proof (cases blk)
  case (Some x)
  then obtain a b where b: "blk = Some (a, b)" by (cases x) auto
  with assms(4,5) have h: "length b \<le> 65535" "memRead M m a (of_nat (length b)) = Some b"
    "unat a + length b \<le> unat p \<or> unat p + 32 \<le> unat a" "ptr = a" "n = of_nat (length b)"
    by (simp_all add: held_def)
  have u: "unat n = length b" using h(1,5) by (simp add: unat_of_nat)
  then have "memRead M m' ptr n = Some b"
    using linear_memory.write_outside [OF assms(1,2), of ptr n] h assms(3) by simp
  moreover have "\<not> n > 65535" "n = 0 \<longleftrightarrow> b = []" using u h(1) by (auto simp: word_less_nat_alt unat_eq_0 [symmetric])
  ultimately show ?thesis by (simp add: readResult_def blockBytes_def b)
qed (use assms(5) in \<open>simp add: readResult_def blockBytes_def\<close>)

lemma readPolled_layout:
  assumes L: "linear_memory M memLen" and w: "memWrite M m p (result_layout s) = Some m'"
    and h: "held M m p (rsWhy s)" "held M m p (rsPacket s)"
  shows "readPolled M m' 1 p = Inr \<lparr>pollRc = 1, secStatus = (if rsSec s = 2 then 1 else if rsSec s = 1 then 2 else 0),
     cbRcode = rsRcode s, why = blockBytes (rsWhy s), packet = blockBytes (rsPacket s)\<rparr>"
proof -
  have "memRead M m' p resultSize = Some (result_layout s)"
    using linear_memory.write_inside [OF L w, of 0 resultSize p] by (simp add: layout_words(1))
  moreover have "readResult M m' (resultWord (result_layout s) 8) (resultWord (result_layout s) 12) = Inr (blockBytes (rsWhy s))"
    by (rule readResult_block [OF L w layout_words(1) h(1)]) (auto simp: layout_words split: option.splits)
  moreover have "readResult M m' (resultWord (result_layout s) 16) (resultWord (result_layout s) 20) = Inr (blockBytes (rsPacket s))"
    by (rule readResult_block [OF L w layout_words(1) h(2)]) (auto simp: layout_words split: option.splits)
  ultimately show ?thesis by (simp add: readPolled_def layout_words(2,3))
qed

text \<open>What a callback leaves in a slot that was just handed out.\<close>

lemma result_cb_slot:
  assumes "i < length rs" and "rs ! i = noSlot\<lparr>rsUsed := True, rsUbid := u\<rparr>" and "cbArg cb = i" and "result_cb cb rs ! i = s"
  shows "rsUsed s \<and> rsReady s \<and> rsSec s = cbSec cb" and "rsRcode s \<noteq> 2 \<Longrightarrow> blockBytes (rsPacket s) = (case cbPacket cb of Some b \<Rightarrow> b | None \<Rightarrow> [])"
  using assms by (auto simp: result_cb_def noSlot_def Let_def blockBytes_def split: option.splits if_splits)

lemma settle_verdict:
  assumes "pollRc q = 1" and "settle D sf n t q = Some (Ready res)"
  shows "secStatus q \<noteq> 2 \<and> cbRcode q \<noteq> 2 \<and> Secure res = (secStatus q = 1) \<and> AnswerPacket res = packet q"
proof -
  have "cbRcode q \<noteq> 2"
  proof
    assume "cbRcode q = 2"
    then have "rcodeOf q = 2" by (simp add: rcodeOf_def Let_def)
    with assms show False by (auto simp: settle_def Let_def split: if_splits option.splits)
  qed
  then show ?thesis
    using assms by (auto simp: settle_def Let_def dest: parseAnswer_frame split: if_splits option.splits)
qed

text \<open>C13: the verdict of libunbound crosses the boundary unchanged. When it reports an answer for a query, the host,
  polling that query, returns a result only if libunbound did not call the answer bogus; the result is
  marked secure exactly if libunbound called it secure, and carries libunbound's packet byte for byte. A bogus answer
  is a \<open>BogusError\<close>, with what is left of the explanation, also when the guest runs out of memory on the way.\<close>

theorem verdict_crosses:
  assumes "linear_memory M memLen" and "length (gResults g) = MAX_RESULTS" and "i < MAX_RESULTS"
    and "gResults g ! i = noSlot\<lparr>rsUsed := True, rsUbid := u\<rparr>" and "cbArg cb = i"
    and "g' = g\<lparr>gResults := result_cb cb (gResults g)\<rparr>"
    and "held M m p (rsWhy (gResults g' ! i))" and "held M m p (rsPacket (gResults g' ! i))"
    and "guest_result_get (of_nat (i + 1)) g' = (rc, out)" and "memWrite M m p (the out) = Some m'"
  shows "rc = 1 \<and> (\<exists>q. readPolled M m' rc p = Inr q
     \<and> (cbSec cb = 1 \<longrightarrow> settle D sf n t q =
          map_option (\<lambda>edes. Failed (BogusError (string_of_bytes (why q)) edes)) (parseEDE D (packet q)))
     \<and> (\<forall>res. settle D sf n t q = Some (Ready res) \<longrightarrow> cbSec cb \<noteq> 1 \<and> (Secure res \<longleftrightarrow> cbSec cb = 2)
          \<and> AnswerPacket res = (case cbPacket cb of Some b \<Rightarrow> b | None \<Rightarrow> [])))"
proof -
  define s where "s = gResults g' ! i"
  have l: "i < length (gResults g)" using assms(2,3) by simp
  have "result_cb cb (gResults g) ! i = s" by (simp add: s_def assms(6))
  note c = result_cb_slot [OF l assms(4,5) this]
  have "resultOf (of_nat (i + 1)) g' = Some s"
    using c(1) sint_rid [OF assms(3)] assms(3) by (simp add: resultOf_def s_def del: of_nat_add)
  then have r: "rc = 1" "out = Some (result_layout s)"
    using assms(9) c(1) by (auto simp: guest_result_get_def)
  have w: "memWrite M m p (result_layout s) = Some m'" using assms(10) r(2) by simp
  let ?q = "\<lparr>pollRc = 1, secStatus = (if rsSec s = 2 then 1 else if rsSec s = 1 then 2 else 0),
     cbRcode = rsRcode s, why = blockBytes (rsWhy s), packet = blockBytes (rsPacket s)\<rparr>"
  have "readPolled M m' rc p = Inr ?q"
    using readPolled_layout [OF assms(1) w] assms(7,8) r(1) by (simp add: s_def)
  moreover have "cbSec cb = 1 \<longrightarrow> settle D sf n t ?q =
      map_option (\<lambda>edes. Failed (BogusError (string_of_bytes (why ?q)) edes)) (parseEDE D (packet ?q))"
    using c(1) by (simp add: settle_def)
  moreover have "cbSec cb \<noteq> 1 \<and> (Secure res \<longleftrightarrow> cbSec cb = 2) \<and> AnswerPacket res = (case cbPacket cb of Some b \<Rightarrow> b | None \<Rightarrow> [])"
    if "settle D sf n t ?q = Some (Ready res)" for res
    using settle_verdict [OF _ that] c by (auto split: if_splits)
  ultimately show ?thesis using r(1) by blast
qed

definition sampleCallback :: callback where
  "sampleCallback = \<lparr>cbArg = 0, cbCode = 0, cbPacket = Some [1, 2, 3], cbSec = 1, cbWhy = Some [0x62],
     cbPacketAt = Some 60, cbWhyAt = Some 63\<rparr>"

definition sampleSlots :: "unit guestState" where
  "sampleSlots = guestStart\<lparr>gResults := (replicate MAX_RESULTS noSlot)[0 := noSlot\<lparr>rsUsed := True, rsUbid := 7\<rparr>]\<rparr>"

definition sampleHeap :: bytes where
  "sampleHeap = replicate 60 0 @ [1, 2, 3, 0x62] @ replicate 36 0"

theorem verdict_crosses_witness:
  "\<forall>(D :: unit dnsmessage) sf n t. \<exists>g rc out m' q. g = sampleSlots\<lparr>gResults := result_cb sampleCallback (gResults sampleSlots)\<rparr>
     \<and> guest_result_get 1 g = (rc, Some out) \<and> flat_write sampleHeap 8 out = Some m' \<and> readPolled flat_ops m' rc 8 = Inr q
     \<and> settle D sf n t q = map_option (\<lambda>edes. Failed (BogusError (string_of_bytes (why q)) edes)) (parseEDE D (packet q))"
proof (intro allI)
  fix D :: "unit dnsmessage" and sf n t
  let ?g = "sampleSlots\<lparr>gResults := result_cb sampleCallback (gResults sampleSlots)\<rparr>"
  have s: "gResults ?g ! 0 = \<lparr>rsUsed = True, rsReady = True, rsUbid = 0, rsRcode = 0, rsSec = 1,
      rsPacket = Some (60, [1, 2, 3]), rsWhy = Some (63, [0x62])\<rparr>"
    by (simp add: sampleSlots_def sampleCallback_def result_cb_def noSlot_def)
  have l: "length (gResults sampleSlots) = MAX_RESULTS" "gResults sampleSlots ! 0 = noSlot\<lparr>rsUsed := True, rsUbid := 7\<rparr>"
    by (simp_all add: sampleSlots_def)
  have h: "held flat_ops sampleHeap 8 (rsWhy (gResults ?g ! 0))" "held flat_ops sampleHeap 8 (rsPacket (gResults ?g ! 0))"
    unfolding s by (simp_all add: held_def flat_read_def sampleHeap_def)
  have r: "guest_result_get 1 ?g = (1, Some (result_layout (gResults ?g ! 0)))"
    using s by (simp add: guest_result_get_def resultOf_def)
  then have r': "guest_result_get (of_nat (0 + 1)) ?g = (1, Some (result_layout (gResults ?g ! 0)))" by simp
  obtain m' where w: "flat_write sampleHeap 8 (result_layout (gResults ?g ! 0)) = Some m'"
    by (simp add: flat_write_def layout_words(1) sampleHeap_def)
  have "memWrite flat_ops sampleHeap 8 (the (Some (result_layout (gResults ?g ! 0)))) = Some m'" using w by simp
  from verdict_crosses [OF flat.linear_memory_axioms l(1) _ l(2) _ refl h r' this, of D sf n t]
  obtain q where "readPolled flat_ops m' 1 8 = Inr q"
    "settle D sf n t q = map_option (\<lambda>edes. Failed (BogusError (string_of_bytes (why q)) edes)) (parseEDE D (packet q))"
    by (auto simp: sampleCallback_def)
  with r w show "\<exists>g rc out m' q. g = ?g \<and> guest_result_get 1 g = (rc, Some out) \<and> flat_write sampleHeap 8 out = Some m'
     \<and> readPolled flat_ops m' rc 8 = Inr q
     \<and> settle D sf n t q = map_option (\<lambda>edes. Failed (BogusError (string_of_bytes (why q)) edes)) (parseEDE D (packet q))"
    by blast
qed

end
