(* ===== verification/GuestConfig.thy ===== *)
theory GuestConfig
  imports GuestExports
begin

text \<open>
  What the guest is configured with. The host embeds the resolver configuration and the trust anchors as text and
  writes the root hints as lines; \<open>apply_lines\<close> cuts the texts up again. The lemmas show that exactly the embedded
  options, anchors and hints reach libunbound, in their order, that an error at any of them stops every later query,
  and that the address lists in the text are the ones the host's egress policy enforces.
\<close>

section \<open>Lines\<close>

definition plainLine :: "string \<Rightarrow> bool" where
  "plainLine l \<longleftrightarrow> l \<noteq> [] \<and> CHR 0x0A \<notin> set l \<and> \<not> blank (hd l) \<and> \<not> blank (last l)"

definition entries :: "string list \<Rightarrow> string list" where
  "entries ls = filter (\<lambda>l. hd l \<noteq> CHR ''#'') ls"

fun applyEach :: "('c \<Rightarrow> 'x \<Rightarrow> 'c \<times> i32) \<Rightarrow> 'c \<Rightarrow> 'x list \<Rightarrow> 'c \<times> i32" where
  "applyEach f c [] = (c, 0)"
| "applyEach f c (x # xs) = (case f c x of (c, r) \<Rightarrow> if r \<noteq> 0 then (c, r) else applyEach f c xs)"

lemma applyEach_append: "applyEach f c (xs @ ys) =
    (case applyEach f c xs of (c, r) \<Rightarrow> if r \<noteq> 0 then (c, r) else applyEach f c ys)"
  by (induction xs arbitrary: c) (auto split: prod.splits)

lemma applyEach_map: "applyEach f c (map g xs) = applyEach (\<lambda>c x. f c (g x)) c xs"
  by (induction xs arbitrary: c) (auto split: prod.splits)

lemma applyEach_cong: "(\<And>c x. x \<in> set xs \<Longrightarrow> f c x = g c x) \<Longrightarrow> applyEach f c xs = applyEach g c xs"
  by (induction xs arbitrary: c) (auto split: prod.splits)

lemma dropWhile_hd: "l \<noteq> [] \<Longrightarrow> \<not> P (hd l) \<Longrightarrow> dropWhile P l = l"
  by (cases l) auto

lemma apply_lines_each:
  "list_all plainLine ls \<Longrightarrow>
   apply_lines L k c (concat (map (\<lambda>l. l @ [CHR 0x0A]) ls)) = applyEach (apply_line L k) c (entries ls)"
proof (induction ls arbitrary: c)
  case Nil
  then show ?case by (simp add: apply_lines.simps entries_def)
next
  case (Cons l ls)
  define rest where "rest = concat (map (\<lambda>l. l @ [CHR 0x0A]) ls)"
  have l: "plainLine l" and ih: "apply_lines L k d rest = applyEach (apply_line L k) d (entries ls)" for d
    using Cons rest_def by simp_all
  have "takeWhile (\<lambda>x. x \<noteq> CHR 0x0A) (l @ [CHR 0x0A] @ rest) = l"
    "tl (dropWhile (\<lambda>x. x \<noteq> CHR 0x0A) (l @ [CHR 0x0A] @ rest)) = rest"
    using l by (auto simp: plainLine_def takeWhile_append dropWhile_append)
  moreover have "dropWhile blank l = l" "rev (dropWhile blank (rev l)) = l"
    using l by (auto simp: plainLine_def dropWhile_hd hd_rev)
  ultimately show ?case
    using l ih by (subst apply_lines.simps) (simp add: plainLine_def Let_def entries_def rest_def [symmetric] split: prod.splits)
qed

lemma zero_char: "(of_char c :: 8 word) = 0 \<longleftrightarrow> c = CHR 0x00"
proof
  assume "(of_char c :: 8 word) = 0"
  then have "(of_char c :: nat) = of_char CHR 0x00" using unat_of_char_byte [of c] by simp
  then show "c = CHR 0x00" by (simp only: of_char_eq_iff)
qed simp

lemma cString_text:
  assumes "CHR 0x00 \<notin> set s"
  shows "cString (bytes_of_string s @ [0]) = s"
proof -
  have "\<forall>x \<in> set (bytes_of_string s). x \<noteq> 0" using assms by (auto simp: bytes_of_string_def zero_char)
  then have "takeWhile (\<lambda>x. x \<noteq> 0) (bytes_of_string s @ [0]) = bytes_of_string s"
    by (subst takeWhile_append2) auto
  then show ?thesis by (simp add: cString_def)
qed

section \<open>Hints\<close>

text \<open>The characters of an accepted address literal without a zone.\<close>

definition addrChar :: "char \<Rightarrow> bool" where
  "addrChar c \<longleftrightarrow> hexVal c \<noteq> None \<or> c = CHR ''.'' \<or> c = CHR '':''"

lemma parse4_chars: "parseIPv4Fields s pd v dl fs = Inr r \<Longrightarrow> list_all addrChar s"
  by (induction s pd v dl fs rule: parseIPv4Fields.induct)
    (auto simp: addrChar_def hexVal_def Let_def split: if_splits)

lemma hexScan_chars: "hexScan s off acc = Inr (n, v) \<Longrightarrow> off \<le> n \<and> n - off \<le> length s \<and> list_all addrChar (take (n - off) s)"
proof (induction s off acc rule: hexScan.induct)
  case (2 c t off acc)
  show ?case
  proof (cases "hexVal c")
    case None
    with 2 show ?thesis by simp
  next
    case (Some d)
    with 2 have "hexScan t (off + 1) (acc * 16 + d) = Inr (n, v)" by (auto simp: Let_def split: if_splits)
    with 2(1) [OF Some refl] 2(2) Some have "off + 1 \<le> n" "n - (off + 1) \<le> length t" "list_all addrChar (take (n - (off + 1)) t)"
      by (auto simp: Let_def split: if_splits)
    moreover from this have "n - off = Suc (n - (off + 1))" by simp
    moreover have "addrChar c" using Some by (simp add: addrChar_def)
    ultimately show ?thesis by simp
  qed
qed simp

lemma parseGroups_chars: "parseGroups s ip e = Inr ([], r) \<Longrightarrow> list_all addrChar s"
proof (induction s ip e rule: parseGroups.induct)
  case (1 s ip e)
  show ?case
  proof (cases "length ip < 16 \<and> s \<noteq> []")
    case False
    with 1(3) show ?thesis by (cases "s = []") (auto simp: parseGroups.simps)
  next
    case True
    with 1(3) obtain n v where h: "hexScan s 0 0 = Inr (n, v)" and n: "n \<noteq> 0"
      by (auto simp: parseGroups.simps [of s] split: sum.splits if_splits)
    from hexScan_chars [OF h] have c: "n \<le> length s" "list_all addrChar (take n s)" by simp_all
    show ?thesis
    proof (cases "n < length s \<and> s ! n = CHR ''.''")
      case True
      with 1(3) h n \<open>length ip < 16 \<and> s \<noteq> []\<close> show ?thesis
        by (auto simp: parseGroups.simps [of s] dest: parse4_chars split: sum.splits if_splits)
    next
      case dot: False
      have "list_all addrChar (drop n s)"
      proof (cases "drop n s")
        case (Cons x t)
        with 1(3) h n dot True have x: "x = CHR '':''" "t \<noteq> []"
          by (auto simp: parseGroups.simps [of s] Let_def split: if_splits)
        show ?thesis
        proof (cases "hd t = CHR '':''")
          case colon: True
          have "list_all addrChar (tl t)"
          proof (cases "tl t = []")
            case False
            with 1(1) [OF _ h] show ?thesis
              using 1(3) h n dot True Cons x colon
              by (auto simp: parseGroups.simps [of s] Let_def split: if_splits)
          qed simp
          moreover have "addrChar CHR '':''" by (simp add: addrChar_def)
          ultimately show ?thesis using colon x by (cases t) (auto simp: Cons)
        next
          case False
          with 1(2) [OF _ h] have "list_all addrChar t"
            using 1(3) h n dot True Cons x
            by (auto simp: parseGroups.simps [of s] Let_def split: if_splits)
          moreover have "addrChar x" using x by (simp add: addrChar_def)
          ultimately show ?thesis by (simp add: Cons)
        qed
      qed simp
      with c(2) show ?thesis by (metis append_take_drop_id list_all_append)
    qed
  qed
qed

lemma parseIPv6_chars:
  assumes "parseIPv6 s = Inr ip" and "CHR ''%'' \<notin> set s"
  shows "list_all addrChar s"
proof -
  have t: "takeWhile (\<lambda>c. c \<noteq> CHR ''%'') s = s" using assms(2) by (auto intro: takeWhile_eq_all_conv [THEN iffD2])
  have f: "finishIPv6 z x = Inr ip \<Longrightarrow> fst x = []" for z x
    by (auto simp: finishIPv6_def split: prod.splits if_splits)
  show ?thesis
  proof (cases "take 2 s = ''::''")
    case True
    then have s: "s = ''::'' @ drop 2 s" by (metis append_take_drop_id)
    have "list_all addrChar (drop 2 s)"
    proof (cases "drop 2 s = []")
      case False
      with assms(1) True t obtain x where "parseGroups (drop 2 s) [] (Some 0) = Inr x" "fst x = []"
        by (auto simp: parseIPv6_def Let_def dest: f split: sum.splits)
      then show ?thesis by (cases x) (auto dest: parseGroups_chars)
    qed simp
    moreover have "list_all addrChar ''::''" by (simp add: addrChar_def)
    ultimately show ?thesis by (subst s) (simp only: list_all_append)
  next
    case False
    with assms(1) t obtain x where "parseGroups s [] None = Inr x" "fst x = []"
      by (auto simp: parseIPv6_def Let_def dest: f split: sum.splits)
    then show ?thesis by (cases x) (auto dest: parseGroups_chars)
  qed
qed

lemma parseAddr_chars: "parseAddr0 s = Inr ip \<Longrightarrow> CHR ''%'' \<notin> set s \<Longrightarrow> s \<noteq> [] \<and> list_all addrChar s"
  by (auto simp: parseAddr0_def parseIPv4_def dest: parse4_chars parseIPv6_chars split: option.splits if_splits sum.splits)

lemma addrChar_plain: "addrChar c \<Longrightarrow> \<not> blank c \<and> c \<noteq> CHR ''#'' \<and> c \<noteq> CHR 0x0A \<and> c \<noteq> CHR 0x00"
  by (auto simp: addrChar_def blank_def hexVal_def isDigit_def)

definition textual :: "string \<Rightarrow> bool" where
  "textual l \<longleftrightarrow> plainLine l \<and> CHR 0x00 \<notin> set l"

lemma hint_textual:
  assumes "checkHints V hints = None" and "list_all (\<lambda>h. CHR ''%'' \<notin> set h) hints"
  shows "list_all textual hints" and "entries hints = hints"
proof -
  have "textual h \<and> hd h \<noteq> CHR ''#''" if h: "h \<in> set hints" for h
  proof -
    obtain ip where "parseAddr0 h = Inr ip" using assms(1) h by (auto simp: checkHints_None list_all_iff)
    moreover have "CHR ''%'' \<notin> set h" using assms(2) h by (auto simp: list_all_iff)
    ultimately have "h \<noteq> []" "\<forall>c \<in> set h. addrChar c" using parseAddr_chars by (auto simp: list_all_iff)
    moreover from this have "addrChar (hd h)" "addrChar (last h)" by simp_all
    ultimately show ?thesis using addrChar_plain by (auto simp: textual_def plainLine_def)
  qed
  then show "list_all textual hints" "entries hints = hints" by (auto simp: list_all_iff entries_def)
qed

section \<open>The embedded texts\<close>

definition optName :: "string \<Rightarrow> string" where
  "optName l = takeWhile (\<lambda>c. c \<noteq> CHR ''='') l"

definition optValue :: "string \<Rightarrow> string" where
  "optValue l = tl (dropWhile (\<lambda>c. c \<noteq> CHR ''='') l)"

lemma config_lines: "list_all (\<lambda>l. textual l \<and> (hd l = CHR ''#'' \<or> CHR ''='' \<in> set l)) (canonicalConfigLines @ [''do-ip6:=no''])"
  by (simp add: canonicalConfigLines_def textual_def plainLine_def blank_def)

lemma anchor_lines: "list_all textual trustAnchorLines"
  by (simp add: trustAnchorLines_def textual_def plainLine_def blank_def)

lemma textLines_append: "textLines xs @ textLines ys = textLines (xs @ ys)"
  by (simp add: textLines_def bytes_of_string_def)

lemma hintBytes_lines: "hintBytes hints = textLines hints"
  by (cases hints) (simp_all add: hintBytes_def textLines_def bytes_of_string_def)

lemma applySaved_lines:
  assumes "list_all textual ls"
  shows "applySaved L k c (copy_input True (textLines ls)) = applyEach (apply_line L k) c (entries ls)"
proof -
  have "CHR 0x00 \<notin> set (concat (map (\<lambda>l. l @ [CHR 0x0A]) ls))" "list_all plainLine ls"
    using assms by (auto simp: list_all_iff textual_def)
  then show ?thesis by (simp add: applySaved_def copy_input_def textLines_def cString_text apply_lines_each)
qed

text \<open>What libunbound is asked to do, one call after the other.\<close>

datatype setting = Opt string string | Anchor string | Stub string

fun setOne :: "'c libunbound \<Rightarrow> 'c \<Rightarrow> setting \<Rightarrow> 'c \<times> i32" where
  "setOne L c (Opt n v) = (case ub_ctx_set_option L c n v of (c, r) \<Rightarrow> (c, if r = UB_NOERROR then 0 else ub_errno r))"
| "setOne L c (Anchor a) = (case ub_ctx_add_ta L c a of (c, r) \<Rightarrow> (c, if r = UB_NOERROR then 0 else ub_errno r))"
| "setOne L c (Stub h) = (case ub_ctx_set_stub L c ''.'' h True of (c, r) \<Rightarrow> (c, if r = UB_NOERROR then 0 else ub_errno r))"

definition settings :: "bool \<Rightarrow> string list \<Rightarrow> string list \<Rightarrow> setting list" where
  "settings disableIPv6 anchors hints =
     map (\<lambda>l. Opt (optName l) (optValue l)) (entries (canonicalConfigLines @ (if disableIPv6 then [''do-ip6:=no''] else []))) @
     map Anchor (entries anchors) @ map Stub hints"

lemma apply_line_opt: "CHR ''='' \<in> set l \<Longrightarrow> apply_line L INPUT_CFG c l = setOne L c (Opt (optName l) (optValue l))"
proof -
  assume "CHR ''='' \<in> set l"
  then have "dropWhile (\<lambda>x. x \<noteq> CHR ''='') l \<noteq> []" by (auto simp: dropWhile_eq_Nil_conv)
  then show ?thesis
    by (cases "dropWhile (\<lambda>x. x \<noteq> CHR ''='') l") (auto simp: apply_line_def optName_def optValue_def)
qed

lemma applyEach_settings:
  assumes "list_all (\<lambda>l. CHR ''='' \<in> set l) ls"
  shows "applyEach (apply_line L INPUT_CFG) c ls = applyEach (setOne L) c (map (\<lambda>l. Opt (optName l) (optValue l)) ls)"
    and "applyEach (apply_line L INPUT_ANCHORS) c as = applyEach (setOne L) c (map Anchor as)"
    and "applyEach (apply_line L INPUT_HINTS) c hs = applyEach (setOne L) c (map Stub hs)"
  using assms unfolding applyEach_map
  by (auto intro!: applyEach_cong simp: apply_line_opt list_all_iff simp del: setOne.simps) (auto simp: apply_line_def)

lemma init_ensure:
  assumes "checkHints V hints = None" and "list_all (\<lambda>h. CHR ''%'' \<notin> set h) hints" and "list_all textual anchors"
    and "guest_init True True True
           (if disableIPv6 then defaultCanonicalConfig @ textLines [''do-ip6:=no''] else defaultCanonicalConfig)
           (textLines anchors) (hintBytes hints) guestStart = (g, r)"
    and "ub_ctx_create_ub_event L = Some c"
  shows "r = 0 \<and> ensure_ctx L g =
    (case applyEach (setOne L) c (settings disableIPv6 anchors hints) of (c, r) \<Rightarrow> (g\<lparr>gCtx := Some c, ctx_err := r\<rparr>, r))"
proof -
  define ls where "ls = canonicalConfigLines @ (if disableIPv6 then [''do-ip6:=no''] else [])"
  have cfg: "(if disableIPv6 then defaultCanonicalConfig @ textLines [''do-ip6:=no''] else defaultCanonicalConfig) = textLines ls"
    by (simp add: ls_def defaultCanonicalConfig_def textLines_append)
  have ls: "list_all textual ls" "list_all (\<lambda>l. CHR ''='' \<in> set l) (entries ls)"
    using config_lines by (auto simp: ls_def list_all_iff entries_def)
  have g: "g = guestStart\<lparr>saved_cfg := copy_input True (textLines ls), saved_anchors := copy_input True (textLines anchors),
      saved_hints := copy_input True (textLines hints)\<rparr>" "r = 0"
    using assms(4) unfolding cfg hintBytes_lines by (auto simp: guest_init_def guestStart_def copy_input_def)
  note h = hint_textual [OF assms(1,2)]
  show ?thesis
    using assms(5) g(2)
    by (simp add: ensure_ctx_def g(1) guestStart_def applySaved_lines [OF ls(1)] applySaved_lines [OF assms(3)]
        applySaved_lines [OF h(1)] h(2) applyEach_settings [OF ls(2)] settings_def ls_def [symmetric] applyEach_append
        split: prod.splits)
qed

section \<open>Errors stay\<close>

text \<open>The calls of the host, in any order, and the callbacks of libunbound between them; each call has its result.\<close>

datatype guestCall = CallWarmup | CallStart bool bytes u32 u32 | CallCancel i32 | CallInit bool bool bool bytes bytes bytes | Callback callback

fun guestCalled :: "'c libunbound \<Rightarrow> guestCall \<Rightarrow> 'c guestState \<Rightarrow> 'c guestState \<times> i32" where
  "guestCalled L CallWarmup g = guest_warmup L g"
| "guestCalled L (CallStart ok name t cl) g = guest_resolve_start L ok name t cl g"
| "guestCalled L (CallCancel rid) g = (guest_resolve_cancel L rid g, 0)"
| "guestCalled L (CallInit a b c x y z) g = guest_init a b c x y z g"
| "guestCalled L (Callback cb) g = (g\<lparr>gResults := result_cb cb (gResults g)\<rparr>, 0)"

fun callsRun :: "'c libunbound \<Rightarrow> guestCall list \<Rightarrow> 'c guestState \<Rightarrow> (guestCall \<times> i32) list" where
  "callsRun L [] g = []"
| "callsRun L (x # xs) g = (case guestCalled L x g of (g, r) \<Rightarrow> (x, r) # callsRun L xs g)"

definition needsContext :: "guestCall \<Rightarrow> bool" where
  "needsContext x = (case x of CallWarmup \<Rightarrow> True | CallStart ok name t cl \<Rightarrow> True | _ \<Rightarrow> False)"

text \<open>A guest that has failed to configure its context, or will when it first needs it.\<close>

definition poisoned :: "'c libunbound \<Rightarrow> i32 \<Rightarrow> 'c guestState \<Rightarrow> bool" where
  "poisoned L r g \<longleftrightarrow> ctx_err g = r \<and> (gCtx g \<noteq> None \<or> saved_cfg g \<noteq> None) \<or>
     ctx_err g = 0 \<and> gCtx g = None \<and> saved_cfg g \<noteq> None \<and> snd (ensure_ctx L g) = r"

lemma ensure_ctx_err: "ensure_ctx L g = (g', r) \<Longrightarrow> r \<noteq> 0 \<Longrightarrow> ctx_err g' = r \<and> saved_cfg g' = saved_cfg g \<and> (gCtx g \<noteq> None \<longrightarrow> gCtx g' \<noteq> None)"
  by (auto simp: ensure_ctx_def split: if_splits option.splits prod.splits)

lemma ensure_ctx_poisoned:
  assumes "poisoned L r g" and "r \<noteq> 0"
  obtains g' where "ensure_ctx L g = (g', r)" "poisoned L r g'"
proof -
  obtain g' r' where e: "ensure_ctx L g = (g', r')" by fastforce
  have "r' = r" using assms e by (auto simp: poisoned_def ensure_ctx_def)
  with e ensure_ctx_err [OF e] assms have "poisoned L r g'" by (auto simp: poisoned_def)
  with e \<open>r' = r\<close> that show ?thesis by simp
qed

lemma ensure_ctx_results [simp]: "ensure_ctx L (gResults_update f g) = (gResults_update f (fst (ensure_ctx L g)), snd (ensure_ctx L g))"
  by (auto simp: ensure_ctx_def split: option.splits prod.splits)

lemma poisoned_results [simp]: "poisoned L r (gResults_update f g) = poisoned L r g"
  by (simp add: poisoned_def)

lemma poisoned_called:
  assumes "poisoned L r g" and "r \<noteq> 0"
  shows "poisoned L r (fst (guestCalled L x g))" and "needsContext x \<Longrightarrow> snd (guestCalled L x g) = - r"
proof -
  obtain g' where e: "ensure_ctx L g = (g', r)" "poisoned L r g'" by (rule ensure_ctx_poisoned [OF assms])
  have c: "poisoned L r (g\<lparr>gCtx := Some c\<rparr>)" if "gCtx g = Some d" for c d
    using assms(1) that by (auto simp: poisoned_def)
  have "guest_warmup L g = (g', - r)"
    using assms(2) by (cases "gCtx g'") (auto simp: guest_warmup_def e)
  moreover have "guest_resolve_start L ok n t cl g = (g', - r)" for ok n t cl
    using assms(2) by (simp add: guest_resolve_start_def e)
  moreover have "guest_init a b d x y z g = (g, - EALREADY)" for a b d x y z
    using assms(1) by (auto simp: guest_init_def poisoned_def)
  moreover have "poisoned L r (guest_resolve_cancel L rid g)" for rid
    using assms(1) c by (auto simp: guest_resolve_cancel_def clear_result_def split: option.splits)
  ultimately show "poisoned L r (fst (guestCalled L x g))" and "needsContext x \<Longrightarrow> snd (guestCalled L x g) = - r"
    using assms(1) e(2) by (cases x; simp add: needsContext_def)+
qed

lemma poisoned_run:
  assumes "poisoned L r g" and "r \<noteq> 0" and "(x, out) \<in> set (callsRun L xs g)" and "needsContext x"
  shows "out = - r"
  using assms
proof (induction xs arbitrary: g)
  case (Cons y ys)
  obtain g' o' where s: "guestCalled L y g = (g', o')" by fastforce
  show ?case
    using Cons(1) [of g'] Cons(2-) poisoned_called [OF Cons(2,3), of y] s by auto
qed simp

text \<open>A failed warm-up leaves such a guest behind, also when only the worker could not be created.\<close>

lemma failed_warmup:
  assumes "guest_warmup L g = (g', out)" and "out \<noteq> 0" and "saved_cfg g \<noteq> None"
  shows "poisoned L (- out) g'"
proof -
  obtain g1 r where e: "ensure_ctx L g = (g1, r)" by fastforce
  show ?thesis
  proof (cases "r = 0 \<and> gCtx g1 \<noteq> None")
    case True
    then obtain c where "gCtx g1 = Some c" by blast
    with True assms(1,2) e show ?thesis
      by (auto simp: guest_warmup_def ensure_worker_def poisoned_def ub_errno_def split: prod.splits if_splits ub_ctx_err.splits)
  next
    case False
    with assms(1,2) e have "g' = g1" "r = - out" by (auto simp: guest_warmup_def split: option.splits if_splits)
    with ensure_ctx_err [OF e] assms(2,3) show ?thesis by (auto simp: poisoned_def)
  qed
qed

lemma setOne_negative: "setOne L c x = (c', r) \<Longrightarrow> r \<noteq> 0 \<Longrightarrow> sint (- r) < 0"
  by (cases x) (auto simp: ub_errno_def split: prod.splits if_splits ub_ctx_err.splits)

lemma applyEach_negative: "applyEach (setOne L) c xs = (c', r) \<Longrightarrow> r \<noteq> 0 \<Longrightarrow> sint (- r) < 0"
  by (induction xs arbitrary: c) (auto dest: setOne_negative split: prod.splits if_splits)

text \<open>C14: an instance that was given the embedded configuration, a set of trust anchors and root hints accepted
  by \<open>NewRuntime\<close> (without zones) hands libunbound exactly those settings, in their order, up to the first it
  rejects; and if it rejects one, every warm-up and every query the host ever asks for afterwards, whatever it calls
  in between, fails with that error.\<close>

theorem guest_configured:
  assumes "checkHints V hints = None" and "list_all (\<lambda>h. CHR ''%'' \<notin> set h) hints" and "list_all textual anchors"
    and "guest_init True True True
           (if disableIPv6 then defaultCanonicalConfig @ textLines [''do-ip6:=no''] else defaultCanonicalConfig)
           (textLines anchors) (hintBytes hints) guestStart = (g, r0)"
    and "ub_ctx_create_ub_event L = Some c"
    and "applyEach (setOne L) c (settings disableIPv6 anchors hints) = (c', r)"
  shows "r0 = 0 \<and> ensure_ctx L g = (g\<lparr>gCtx := Some c', ctx_err := r\<rparr>, r)
    \<and> (r \<noteq> 0 \<longrightarrow> list_all (\<lambda>(x, out). needsContext x \<longrightarrow> out = - r \<and> sint out < 0) (callsRun L xs g))"
proof -
  have e: "r0 = 0 \<and> ensure_ctx L g = (g\<lparr>gCtx := Some c', ctx_err := r\<rparr>, r)"
    using init_ensure [OF assms(1-5)] assms(6) by simp
  moreover have "poisoned L r g"
    using assms(4) e by (auto simp: poisoned_def guest_init_def guestStart_def copy_input_def)
  ultimately show ?thesis
    using poisoned_run [of L r g] applyEach_negative [OF assms(6)] by (auto simp: list_all_iff)
qed

text \<open>A library that records what it is given and answers every root hint with \<open>e\<close>.\<close>

definition recorder :: "ub_ctx_err \<Rightarrow> setting list libunbound" where
  "recorder e = \<lparr>ub_ctx_create_ub_event = Some [], ub_ctx_set_option = \<lambda>c n v. (c @ [Opt n v], UB_NOERROR),
     ub_ctx_add_ta = \<lambda>c a. (c @ [Anchor a], UB_NOERROR), ub_ctx_set_stub = \<lambda>c z h p. (c @ [Stub h], e),
     finalized = \<lambda>c. True, context_finalize = \<lambda>c. (c, UB_NOERROR), event_worker = \<lambda>c. True,
     libworker_create_event = \<lambda>c. (c, True), comm_base_clear = \<lambda>c. c,
     ub_resolve_event = \<lambda>c n t cl i. (c, [], UB_NOERROR, 1), ub_cancel = \<lambda>c i. c\<rparr>"

lemma recorder_all: "e = UB_NOERROR \<or> (\<forall>h. Stub h \<notin> set xs) \<Longrightarrow> applyEach (setOne (recorder e)) c xs = (c @ xs, 0)"
proof (induction xs arbitrary: c)
  case (Cons x xs)
  then show ?case by (cases x) (auto simp: recorder_def)
qed simp

definition sampleHost :: rtenv where
  "sampleHost = \<lparr>isPrint = \<lambda>c. True, hostModulesErr = None, compileErr = None\<rparr>"

definition configuredGuest :: "setting list guestState" where
  "configuredGuest = fst (guest_init True True True defaultCanonicalConfig (textLines trustAnchorLines) (hintBytes [''8.8.8.8'']) guestStart)"

theorem guest_configured_witness:
  "ensure_ctx (recorder UB_NOERROR) configuredGuest =
     (configuredGuest\<lparr>gCtx := Some (settings False trustAnchorLines [''8.8.8.8'']), ctx_err := 0\<rparr>, 0)
   \<and> callsRun (recorder UB_SYNTAX) [CallCancel 3, CallStart True [] 1 1] configuredGuest = [(CallCancel 3, 0), (CallStart True [] 1 1, -28)]"
proof -
  have h: "checkHints sampleHost [''8.8.8.8''] = None"
    unfolding checkHints_None using public_dns_allowed by (simp add: parse_public_dns)
  obtain r0 where g: "guest_init True True True (if False then defaultCanonicalConfig @ textLines [''do-ip6:=no''] else defaultCanonicalConfig)
      (textLines trustAnchorLines) (hintBytes [''8.8.8.8'']) guestStart = (configuredGuest, r0)"
    by (metis configuredGuest_def prod.collapse)
  have c: "ub_ctx_create_ub_event (recorder e) = Some []" for e by (simp add: recorder_def)
  have ok: "applyEach (setOne (recorder UB_NOERROR)) [] (settings False trustAnchorLines [''8.8.8.8'']) =
      (settings False trustAnchorLines [''8.8.8.8''], 0)"
    by (simp add: recorder_all)
  have bad: "applyEach (setOne (recorder UB_SYNTAX)) [] (settings False trustAnchorLines [''8.8.8.8'']) =
      (settings False trustAnchorLines [''8.8.8.8''], 28)"
    unfolding settings_def by (subst append_assoc [symmetric], subst applyEach_append, subst recorder_all)
      (auto simp: recorder_def ub_errno_def)
  have "list_all (\<lambda>h. CHR ''%'' \<notin> set h) [''8.8.8.8'']" by simp
  note w = guest_configured [OF h this anchor_lines g c]
  have "list_all (\<lambda>(x, out). needsContext x \<longrightarrow> out = - 28 \<and> sint out < 0)
      (callsRun (recorder UB_SYNTAX) [CallCancel 3, CallStart True [] 1 1] configuredGuest)"
    using w [OF bad, of "[CallCancel 3, CallStart True [] 1 1]"] by (simp del: callsRun.simps)
  then show ?thesis
    using w [OF ok] by (simp add: needsContext_def split: prod.splits)
qed

section \<open>The address lists\<close>

text \<open>The prefix that an option of the configuration spells: an address and a number of bits.\<close>

definition readPrefix :: "string \<Rightarrow> prefix option" where
  "readPrefix s =
     (case parseAddr0 (takeWhile (\<lambda>c. c \<noteq> CHR ''/'') s) of Inl _ \<Rightarrow> None
      | Inr ip \<Rightarrow> Some (Prefix ip (foldl (\<lambda>n c. n * 10 + (of_char c - 48)) 0 (tl (dropWhile (\<lambda>c. c \<noteq> CHR ''/'') s)))))"

definition tableOf :: "string \<Rightarrow> string list \<Rightarrow> prefix option list" where
  "tableOf key ls = map (readPrefix \<circ> optValue) (filter (\<lambda>l. optName l = key) ls)"

lemma replicate_num: "replicate (numeral k) x = x # replicate (pred_numeral k) x"
  by (simp add: numeral_eq_Suc)

lemmas literal_simps = readPrefix_def parseAddr0_def parseIPv4_def parseIPv6_def parseGroups.simps finishIPv6_def
  WithZone_def AddrFrom16_def hexVal_def isDigit_def be_nat_def AddrFrom4_def ip4_def ip6_def replicate_num

lemma do_not_query_table: "tableOf ''do-not-query-address:'' canonicalConfigLines = map Some doNotQueryAddress"
  unfolding tableOf_def canonicalConfigLines_def doNotQueryAddress_def by (simp add: optName_def optValue_def literal_simps)

lemma private_table: "tableOf ''private-address:'' canonicalConfigLines = map Some privateAddress"
  unfolding tableOf_def canonicalConfigLines_def privateAddress_def by (simp add: optName_def optValue_def literal_simps)



section \<open>Hints with a zone\<close>

text \<open>
  An IPv4-mapped address may carry any zone: the policy unmaps it, which drops the zone. A hint with a line break in
  its zone passes the check of \<open>NewRuntime\<close> and is two hints for the guest.
\<close>

definition brokenHint :: string where
  "brokenHint = ''::ffff:8.8.8.8%1'' @ [CHR 0x0A] @ ''10.0.0.1''"

lemma broken_hint_accepted: "checkHints V [brokenHint] = None"
proof -
  have p: "parseAddr0 brokenHint = Inr (Addr6 0xffff08080808 (''1'' @ [CHR 0x0A] @ ''10.0.0.1''))"
    by (simp add: brokenHint_def literal_simps)
  have "Unmap (Addr6 0xffff08080808 z) = Unmap (ip4 8 8 8 8)" for z
    by (simp add: Unmap_def ip4_def addrIs4In6_def)
  then have "egressAllowed (AddrPortFrom (Addr6 0xffff08080808 z) 53)" for z
    using public_dns_allowed by (simp add: egressAllowed_def AddrPortFrom_def)
  then show ?thesis unfolding checkHints_None by (simp add: p)
qed

lemma broken_hint_splits:
  "apply_lines L INPUT_HINTS c (cString (hintBytes [brokenHint] @ [0])) =
     applyEach (apply_line L INPUT_HINTS) c [''::ffff:8.8.8.8%1'', ''10.0.0.1'']"
proof -
  have "hintBytes [brokenHint] = textLines [''::ffff:8.8.8.8%1'', ''10.0.0.1'']"
    by (simp add: hintBytes_def brokenHint_def textLines_def)
  moreover have "list_all textual [''::ffff:8.8.8.8%1'', ''10.0.0.1'']" by (simp add: textual_def plainLine_def blank_def)
  ultimately show ?thesis
    using applySaved_lines [of "[''::ffff:8.8.8.8%1'', ''10.0.0.1'']" L INPUT_HINTS c]
    by (simp add: applySaved_def copy_input_def entries_def)
qed

end
