(* ===== verification/Spec2Isabelle.thy ===== *)
theory Spec2Isabelle
  imports InstanceProps Registry Clone Cli GuestCrypto GuestConfig
begin

text \<open>
  Verification of unbound-wasm: a Go package that runs the Unbound resolver, compiled to WebAssembly, inside
  wazero, and lets it reach nothing but the network operations of a small host module. The host is modelled in full,
  and of the C code around Unbound in the guest the parts that share a contract with it.

  \<^bold>\<open>The program and its parts.\<close> A \<open>Runtime\<close> (\<open>runtime.go\<close>) compiles the module once and creates
  instances, in full or as clones of a warmed template (\<open>zygote.go\<close>, over the memories of
  \<open>memory_unix.go\<close>). An \<open>Instance\<close> owns one module and one \<open>instanceState\<close> (\<open>host.go\<close>): an event
  queue, timers and sockets (\<open>sockets.go\<close>). The guest calls the imports of \<open>host.go\<close> and \<open>wasi.go\<close>;
  \<open>ResolveAll\<close> calls the guest's exports, waits for events and turns the guest's answers into results
  (\<open>answer.go\<close>, \<open>unbound.go\<close>). DNSSEC signatures and hashes are checked in \<open>crypto.go\<close>. In the guest,
  \<open>backends/guest.c\<close> implements the exports over libunbound, and \<open>secalgo.c\<close> and \<open>random.c\<close> turn Unbound's
  cryptography and randomness into imports.

  \<^bold>\<open>Theories, from the bottom up.\<close>
  \<^item> \<open>Prelude\<close>: machine integers as words, byte strings, shared lemmas. \<open>GoErrors\<close>: Go errors as the
    datatype \<open>goerr\<close>, \<open>errors.As\<close> and \<open>errors.Is\<close>, \<open>wasiErrno\<close> (\<open>errno.go\<close>). \<open>GoStrings\<close>: UTF-8,
    \<open>EqualFold\<close>, decimal printing. \<open>GoText\<close>, \<open>Netip\<close>: \<open>strconv.Quote\<close>, address literals read and printed.
    \<open>EmbeddedData\<close>: the configuration and trust anchors of \<open>module.go\<close>.
  \<^item> \<open>Egress\<close>: \<open>egressAllowed\<close> with its prefix tables and the guest's lists; equal to an interval
    specification. \<open>GuestMem\<close>: wazero's linear memory as the locale \<open>linear_memory\<close>, interpreted on
    byte lists, and the readers and writers of \<open>host.go\<close>.
  \<^item> \<open>HostState\<close>, \<open>Sockets\<close>: \<open>instanceState\<close> as the record \<open>istate\<close> with heaps for the objects it points
    to, one definition per method, each also split into its critical sections. \<open>Interleaving\<close>: the step
    relation of one instance (guest calls in flight, reader and dialer goroutines, timers, shutdown), its
    invariant, and that whole calls are runs of steps. \<open>HostEffect\<close>, \<open>Ownership\<close>, \<open>InstanceProps\<close>: the
    locale \<open>host_effect\<close> for facts that hold along runs, its interpretations, and the properties of an
    instance: egress, bounds, shutdown, timers, sockets.
  \<^item> \<open>Hashes\<close>, \<open>Crypto\<close>: SHA-1 and SHA-2 computed, NSEC3, key parsing, \<open>cryptoVerify\<close> over the
    signature checks of the standard library as a parameter. \<open>Answer\<close>: \<open>answer.go\<close> over the parser of
    \<open>dnsmessage\<close> as a parameter. \<open>Api\<close>: error texts. \<open>Output\<close>: the JSON of the command, with a
    reader that inverts it.
  \<^item> \<open>HostABI\<close>: every import of both host modules, with their reads and writes of guest memory and their
    traps; any sequence of them is a run of \<open>Interleaving\<close>. \<open>Segments\<close>: the data segment
    parser.
  \<^item> \<open>Instance\<close>, \<open>Resolve\<close>, \<open>ResolveProps\<close>: calls into the guest under its lock, polling, \<open>ResolveAll\<close> and
    \<open>Resolve\<close>; the locale \<open>inst_effect\<close> lifts a preorder on instances from the elementary actions to
    whole batches. \<open>Provenance\<close>: every result of a batch was accepted for its own query. \<open>Registry\<close>: creation,
    \<open>Instance.Close\<close>, \<open>Runtime.Close\<close> and the one construction of the zygote with its image file, for many
    instances, as interleaved steps. \<open>Memory\<close>: the linear memories, through the locale \<open>growable\<close>. \<open>Runtime\<close>: creation of
    runtimes and full instances. \<open>Zygote\<close>: the template, its clones and \<open>NewInstance\<close>, over the operations of
    \<open>Instance\<close> and \<open>Runtime\<close>. \<open>Clone\<close>: the same on the allocators of each platform. \<open>Cli\<close>: the command, from its
    arguments to its exit code.
  \<^item> \<open>GuestCrypto\<close>: \<open>secalgo.c\<close> and \<open>random.c\<close>, and their agreement with \<open>crypto.go\<close>. \<open>GuestExports\<close>: the result
    slots and exports of \<open>guest.c\<close>, with libunbound as the record \<open>libunbound\<close> of its functions; an answer
    handed over by the guest is the one the host reads. \<open>GuestConfig\<close>: the configuration text from the host to
    libunbound.
  \<^item> This theory: sessions, which compose all of these.

  \<^bold>\<open>How code and model correspond.\<close> A struct is a record, an error a value, a panic \<^const>\<open>None\<close> or a trap, a Go
  map an association list (nil as \<^const>\<open>None\<close>), a pointer an index into a heap list. What the operating
  system, wazero, the guest or the scheduler decide is a parameter of the definitions (\<open>hostenv\<close>,
  \<open>abienv\<close>, \<open>zyenv\<close>, \<open>ienv\<close>, \<open>mienv\<close>, \<open>rtenv\<close>, \<open>clienv\<close>), over which the statements quantify; in \<open>ienv\<close> each
  decision may depend on the number of decisions before it, so nothing is assumed to repeat.

  \<^bold>\<open>Bounds and fuel.\<close> All definitions are total or options. The CNAME walk is bounded by the number of
  answers, as in the code, and shown to reach the end of every chain that does not loop. The folding orbit in
  \<open>EqualFold\<close> is cut at the number of runes, which no orbit without a repetition exceeds. \<open>edeLoop\<close> is a
  partial function, shown to end when the parser makes progress. The loop of \<open>ResolveAll\<close> consumes a list of
  wake-ups and is \<open>Blocked\<close> when the list ends; it returns for every list that contains a cancellation. The draws
  of \<open>ub_random_max\<close> are a list; fewer than half of all draws are rejected. The other loops of the C code (lines of a
  text, doubling of a buffer) end.

  \<^bold>\<open>What the properties show.\<close> Whatever the guest does, the host sends only to port 53 of public unicast
  addresses; its queues and tables are bounded; a shutdown closes what was opened, once, with its first cause;
  memory of a closed module is not touched; batches return one result or error per query, return when
  cancelled, and release the guest's slots; the command ends at its deadline and prints what it resolved; no bogus
  or half-parsed answer becomes a result; clones start from the template's memory; key, address, segment, record
  and JSON formats are inverted by their readers. Between host and guest: the embedded settings reach libunbound in
  full or no query starts, the address lists of both sides agree, the verdict of libunbound is the one returned,
  digests agree, random values are uniform. Where the code falls short of its comments this is proved
  too: the overflow of the memory limit is part of its property, and the theorems \<open>shutdown_udp_leak\<close>,
  \<open>tcp_connections_unbounded\<close>, \<open>fd_write_amplifies\<close>, \<open>teardown_race\<close> and \<open>broken_hint_splits\<close> show a UDP socket
  that escapes shutdown, unbounded connections, an unbounded log message, a module closed under a running call and
  a root hint that the guest reads as two.

  \<^bold>\<open>Not modelled.\<close> In the guest: \<open>event.c\<close>, whose callbacks run Unbound, \<open>sockets.c\<close> and \<open>compat.c\<close>, which turn
  Unbound's system calls into imports, and the exports that only reach them or the C library (\<open>io_ready\<close>,
  \<open>timer_fired\<close>, \<open>alloc\<close>, \<open>dealloc\<close>, \<open>reseed\<close>); Unbound is not among the sources, and the theorems about the host
  let the guest make any calls at all. The patch and the build scripts, which produce the embedded module. wazero,
  \<open>dnsmessage\<close> and the signature primitives of Go: parameters, as are \<open>time.ParseDuration\<close> and the
  Unicode tables. Logging beyond the entries the guest causes, the nil \<open>*Runtime\<close> and \<open>*Instance\<close>, the start
  functions' hold on no lock (they are one phase of \<open>Registry\<close>), and the test-only replay hooks beyond the calls
  that go to them.
\<close>

section \<open>Sessions\<close>

text \<open>Batches on one instance, one after the other; \<^const>\<open>None\<close> if one does not return.\<close>

fun session :: "('m, 'pub, 'p) ienv \<Rightarrow> (Query list \<times> wake list) list \<Rightarrow> 'm inst \<Rightarrow> 'm inst option" where
  "session E [] i = Some i"
| "session E ((qs, ws) # bs) i =
     (case ResolveAll E qs ws i of Returned (i, rs, err) \<Rightarrow> session E bs i | _ \<Rightarrow> None)"

lemma session_reachable:
  assumes "production E"
  shows "reachable (iState i, Idle) \<Longrightarrow> session E bs i = Some i' \<Longrightarrow> reachable (iState i', Idle)"
proof (induction bs arbitrary: i)
  case (Cons b bs)
  obtain qs ws where b: "b = (qs, ws)" by fastforce
  with Cons.prems(2) obtain j rs err where r: "ResolveAll E qs ws i = Returned (j, rs, err)"
    and s: "session E bs j = Some i'" by (auto split: run.splits)
  have "reachable (iState j, Idle)"
    using inst_effect.ResolveAll [OF production_effect [OF assms] r] Cons.prems(1)
    by (auto simp: reachable_def intro: rtranclp_trans)
  from Cons.IH [OF this s] show ?case .
qed simp

text \<open>
  A sample: a guest that finds the byte 8 everywhere in its memory and sends a datagram to 8.8.8.8 when a
  query is started.
\<close>

definition eightMem :: "unit memops" where
  "eightMem = \<lparr>memSize = (\<lambda>m. 0), memRead = (\<lambda>m p n. Some (replicate (unat n) 8)), memWrite = (\<lambda>m p b. Some m),
     memReadUint32Le = (\<lambda>m p. Some 0x08080808), memWriteUint32Le = (\<lambda>m p v. Some m),
     memWriteUint64Le = (\<lambda>m p v. Some m)\<rparr>"

definition quietAbi :: "unit abienv" where
  "quietAbi = \<lparr>abiHost = quietEnv, abiSig = \<lparr>rsaVerifyPKCS1v15 = \<lambda>_ _ _ _. False,
     ecdsaParseUncompressed = \<lambda>_ _. None, ecdsaVerify = \<lambda>_ _ _ _. False, ed25519Verify = \<lambda>_ _ _. False\<rparr>,
     timeNow = 0, timeSince = 0, randByte = \<lambda>_. 0\<rparr>"

definition eightGuest :: "nat \<Rightarrow> export \<Rightarrow> u64 list \<Rightarrow> unit \<Rightarrow> (unit, unit) guestAct" where
  "eightGuest n f params m = \<lparr>gaCalls = (if f = resolve_start then
       [(quietAbi, \<lambda>m. m, Unbound (sock_open 4 1)), (quietAbi, \<lambda>m. m, Unbound (sock_send_to 1 0 4 53 0 4))] else []),
     gaAfter = (\<lambda>m. m), gaOut = Inr (case f of alloc \<Rightarrow> 8 | resolve_start \<Rightarrow> 1 | result_get \<Rightarrow> 1 | _ \<Rightarrow> 0)\<rparr>"

definition eightEnv :: "(unit, unit, (u16 \<times> dnsOption list) list) ienv" where
  "eightEnv = \<lparr>ieMem = eightMem, ieGuest = eightGuest, ieOthers = (\<lambda>n s. s), ieClosed = (\<lambda>n. False),
     ieDead = (\<lambda>n. False), ieDns = sampleParser [] [], ieFold = Suc\<rparr>"

definition eightStart :: "(unit, unit) mienv" where
  "eightStart = \<lparr>miClosed = False, miErr = None, miMem = (), miStart = [], miAfter = (\<lambda>m. m), miSwept = False,
     miExports = requiredExports\<rparr>"

definition eightRuntime :: runtime where
  "eightRuntime = \<lparr>rtPages = 1024, rtAnchors = defaultTrustAnchors, rtHints = []\<rparr>"

lemma eight_fCall:
  "f \<noteq> resolve_start \<Longrightarrow> fCall eightEnv f params i =
     (i\<lparr>iTrace := iTrace i @ [(f, params, iDead i)], iTick := Suc (iTick i)\<rparr>,
      Inr (case f of alloc \<Rightarrow> 8 | result_get \<Rightarrow> 1 | _ \<Rightarrow> 0))"
  by (cases f) (simp_all add: fCall_def eightEnv_def eightGuest_def)

lemma eight_env [simp]: "yield eightEnv i = i\<lparr>iTick := Suc (iTick i)\<rparr>" "ieMem eightEnv = eightMem"
  "memWrite eightMem m p b = Some m" "memRead eightMem m p n = Some (replicate (unat n) 8)"
  by (simp_all add: yield_def eightEnv_def eightMem_def)

text \<open>An instance of that guest on which only allocations and deallocations were made.\<close>

definition eightInst :: "istate \<Rightarrow> (export \<times> u64 list \<times> bool) list \<Rightarrow> nat \<Rightarrow> unit inst" where
  "eightInst s t n = \<lparr>iState = s, iMem = (), iClosed = False, iDead = False, iRegistered = True, iTrace = t, iTick = n\<rparr>"

lemma eightInst_simps [simp]: "iState (eightInst s t n) = s" "iClosed (eightInst s t n) = False"
  "iDead (eightInst s t n) = False" "(eightInst s t n)\<lparr>iTick := n'\<rparr> = eightInst s t n'"
  "(eightInst s t n)\<lparr>iTrace := t'\<rparr> = eightInst s t' n" "(eightInst s t n)\<lparr>iState := s'\<rparr> = eightInst s' t n"
  "(eightInst s t n)\<lparr>iMem := m\<rparr> = eightInst s t n"
  "(eightInst s t n)\<lparr>iTrace := t', iTick := n'\<rparr> = eightInst s t' n'" "iTick (eightInst s t n) = n"
  "(eightInst s t n)\<lparr>iState := s', iMem := m, iTrace := t', iTick := n'\<rparr> = eightInst s' t' n'"
  by (simp_all add: eightInst_def)

lemma eight_alloc: "\<exists>t' n'. allocWrite eightEnv b (eightInst s t n) = (eightInst s t' n', Inr 8)"
  by (auto simp: allocWrite_def guest_def eight_fCall Let_def)

lemma eight_call: "f \<noteq> resolve_start \<Longrightarrow> \<exists>t' n'. call eightEnv f params (eightInst s t n)
     = (eightInst s t' n', Inr (case f of alloc \<Rightarrow> 8 | result_get \<Rightarrow> 1 | _ \<Rightarrow> 0))"
  by (auto simp: call_def guest_def eight_fCall)

lemma eight_free: "\<exists>t' n'. free eightEnv p k (eightInst s t n) = eightInst s t' n'"
  using eight_call [of dealloc] by (auto simp: free_def) (metis export.distinct(37) fst_conv)

lemma eight_freeAll: "\<exists>t' n'. freeAll eightEnv vals ptrs (eightInst s t n) = eightInst s t' n'"
proof -
  have "\<exists>t' n'. fold (\<lambda>(p, v). free eightEnv p (of_nat (length v))) ps (eightInst s t n) = eightInst s t' n'"
    for ps :: "(u32 \<times> bytes) list"
  proof (induction ps arbitrary: t n)
    case (Cons x ps)
    obtain t' n' where "free eightEnv (fst x) (of_nat (length (snd x))) (eightInst s t n) = eightInst s t' n'"
      using eight_free by blast
    with Cons show ?case by (simp add: case_prod_unfold)
  qed auto
  then show ?thesis by (simp add: freeAll_def)
qed

lemma eight_new: "\<exists>t n. newFullInstance eightEnv eightStart False eightRuntime = (Some (eightInst newInstanceState t n), None)"
proof -
  have m: "newModuleInstance eightMem eightStart = (Some (eightInst newInstanceState [] 0), None)"
  proof -
    have "find (\<lambda>n. n \<notin> set requiredExports) requiredExports = None" by (simp add: find_None_iff)
    then show ?thesis by (simp add: newModuleInstance_def eightStart_def bindExports_def newInst_def eightInst_def Let_def)
  qed
  obtain t1 n1 where v: "call eightEnv unbound_wasm_abi_version [] (eightInst newInstanceState [] 0) = (eightInst newInstanceState t1 n1, Inr 0)"
    using eight_call [of unbound_wasm_abi_version "[]" newInstanceState "[]" 0] by auto
  obtain t2 n2 where a: "allocWrite eightEnv defaultCanonicalConfig (eightInst newInstanceState t1 n1) = (eightInst newInstanceState t2 n2, Inr 8)"
    using eight_alloc by blast
  obtain t3 n3 where b: "allocWrite eightEnv defaultTrustAnchors (eightInst newInstanceState t2 n2) = (eightInst newInstanceState t3 n3, Inr 8)"
    using eight_alloc by blast
  obtain t4 n4 where c: "allocWrite eightEnv [] (eightInst newInstanceState t3 n3) = (eightInst newInstanceState t4 n4, Inr 8)"
    using eight_alloc by blast
  obtain t5 n5 where i: "call eightEnv init [8, of_nat (length defaultCanonicalConfig), 8, of_nat (length defaultTrustAnchors), 8, 0]
      (eightInst newInstanceState t4 n4) = (eightInst newInstanceState t5 n5, Inr 0)"
    using eight_call [of init _ newInstanceState t4 n4] by (metis (no_types, lifting) export.distinct export.simps)
  show ?thesis
    using eight_freeAll by (simp add: newFullInstance_def m checkABIVersion_def v initialize_def eightRuntime_def hintBytes_def a b c i Let_def)
qed


lemma eight_bytes: "replicate (unat (4 :: u32)) (8 :: u8) = [8, 8, 8, 8]"
proof -
  have "unat (4 :: u32) = Suc (Suc (Suc (Suc 0)))" by simp
  then show ?thesis by (simp only: replicate.simps)
qed

lemma eight_address: "readAddr eightMem m p 4 = Some (ip4 8 8 8 8)"
  by (simp only: readAddr_def readCopy_def eight_env eight_bytes option.case if_True)
     (simp add: AddrFrom4_def be_nat_def ip4_def)

lemma eight_send:
  "net (fst (guestRun eightMem (gaCalls (eightGuest n resolve_start params m)) () newInstanceState))
     = [NetSendTo 0 (AddrPortFrom (ip4 8 8 8 8) 53) [8, 8, 8, 8]]"
proof -
  have "hostSockSendTo eightMem quietEnv 1 0 4 53 0 4 () s = sockSendTo quietEnv 1 (ip4 8 8 8 8) 53 [8, 8, 8, 8] s" for s
    by (simp only: hostSockSendTo_def eight_address readCopy_def eight_env eight_bytes option.case)
  then show ?thesis
    by (simp add: eightGuest_def quietAbi_def retI32_def run_eval Let_def)
qed

lemma eight_start: "\<exists>s' t' n'. fCall eightEnv resolve_start params (eightInst newInstanceState t n) = (eightInst s' t' n', Inr 1)
    \<and> net s' = [NetSendTo 0 (AddrPortFrom (ip4 8 8 8 8) 53) [8, 8, 8, 8]]"
  using eight_send [of n params "()"]
  by (simp add: fCall_def eightEnv_def eightInst_def eightGuest_def Let_def case_prod_unfold)


lemma net_stateClose [simp]: "net (stateClose s) = net s"
  by (simp add: stateClose_def shutdown_def shutdownMark_def shutdownTimers_def shutdownSockets_def
      split: oncePhase.splits option.splits)

lemma eight_poll: "\<exists>j err. pollResult eightEnv 1 8 qn ty (eightInst s t n) = Some (j, Fatal err)
    \<and> net (iState j) = net s \<and> iClosed j"
proof -
  have "resultWord (replicate (unat (32 :: u32)) 8) 12 = 0x08080808"
  proof -
    have "take 4 (drop 12 (replicate (unat (32 :: u32)) (8 :: u8))) = [8, 8, 8, 8]"
      using eight_bytes by simp
    then show ?thesis by (simp add: resultWord_def le32_def)
  qed
  then show ?thesis
    by (simp add: pollResult_def pollGuest_def guest_def eight_fCall Let_def readPolled_def readResult_def kill_def
        instClose_def)
qed

lemma eight_closed: "iClosed i \<Longrightarrow> cancelAll eightEnv rs i = i\<lparr>iTick := iTick i + length (filter (\<lambda>r. sint r > 0) rs)\<rparr>"
  by (induction rs arbitrary: i) (simp_all add: cancelAll_def cancel_def Let_def)

lemma eight_free_net: "net (iState (free eightEnv p k i)) = net (iState i) \<and> iClosed (free eightEnv p k i) = iClosed i"
  by (simp add: free_def call_def guest_def eight_fCall Let_def)

lemma eight_session: "\<exists>i'. session eightEnv [([\<lparr>QName = ''a'', QType = 1\<rparr>], [])] (eightInst newInstanceState t n) = Some i'
    \<and> net (iState i') \<noteq> []"
proof -
  obtain t1 n1 where a: "allocWrite eightEnv [97, 46] (eightInst newInstanceState t n) = (eightInst newInstanceState t1 n1, Inr 8)"
    using eight_alloc by blast
  obtain s t2 n2 where b: "call eightEnv resolve_start [8, 2, 1, 1] (eightInst newInstanceState t1 n1) = (eightInst s t2 n2, Inr 1)"
    and s: "net s \<noteq> []"
    using eight_start [of _ t1 "Suc n1"] by (fastforce simp: call_def guest_def)
  obtain t3 n3 where f: "free eightEnv 8 2 (eightInst s t2 n2) = eightInst s t3 n3" using eight_free by blast
  obtain t4 n4 where c: "allocWrite eightEnv (replicate 32 0) (eightInst s t3 n3) = (eightInst s t4 n4, Inr 8)"
    using eight_alloc by blast
  obtain j err where p: "pollResult eightEnv 1 8 ''a.'' 1 (eightInst s t4 n4) = Some (j, Fatal err)"
    and j: "net (iState j) = net s" "iClosed j" using eight_poll by blast
  show ?thesis
    using s j eight_free_net [of 8 32 j]
    by (simp add: ResolveAll_def runBatch_def startQuery_def normalizeName_def newBatch_def bytes_of_string_def Let_def
       a b f c p awaitResults.simps pollQuery_def failUnsettled_def eight_closed)
qed

section \<open>The host as a whole\<close>

text \<open>C1: whatever module is run and whatever it does, from its instantiation in full or as a clone through any
  number of batches,
  everything the host sends or dials for it goes to port 53 of a public unicast address, and its event queue
  stays bounded.\<close>

theorem session_egress:
  assumes "production E" and "list_all (\<lambda>(A, g, c). replay (abiHost A) = None) (miStart V)"
    and "NewInstance E V d r isClosed zy = Some (Some i, err)" and "session E bs i = Some i'"
  shows "list_all (\<lambda>a. apPort (destination (iState i') a) = 53
       \<and> public_unicast (Unmap (apAddr (destination (iState i') a)))) (net (iState i'))
     \<and> length (events (iState i')) \<le> 1024"
proof -
  have "reachable (iState i', Idle)"
    using session_reachable [OF assms(1) newInstance_reachable [OF assms(1-3)] assms(4)] .
  then have inv: "inst_inv (iState i')" using reachable_inv by (auto simp: sys_inv_def)
  have "apPort (destination (iState i') a) = 53 \<and> public_unicast (Unmap (apAddr (destination (iState i') a)))"
    if "a \<in> set (net (iState i'))" for a
  proof -
    have "act_ok (conns (iState i')) a" using inv that by (simp add: inst_inv_def net_inv_def)
    then show ?thesis by (cases a) (simp_all add: egressAllowed_eq tcp_ok_def)
  qed
  with inv show ?thesis by (simp add: list_all_iff inst_inv_def)
qed

theorem session_egress_witness:
  "\<exists>i i'. NewInstance eightEnv eightStart False eightRuntime False zyNothing = Some (Some i, None)
     \<and> session eightEnv [([\<lparr>QName = ''a'', QType = 1\<rparr>], [])] i = Some i' \<and> net (iState i') \<noteq> []
     \<and> list_all (\<lambda>a. apPort (destination (iState i') a) = 53) (net (iState i'))"
proof -
  obtain t n where c: "NewInstance eightEnv eightStart False eightRuntime False zyNothing
      = Some (Some (eightInst newInstanceState t n), None)"
    using eight_new by (auto simp: NewInstance_def zyNothing_def)
  obtain i' where s: "session eightEnv [([\<lparr>QName = ''a'', QType = 1\<rparr>], [])] (eightInst newInstanceState t n) = Some i'"
    and n: "net (iState i') \<noteq> []" using eight_session by blast
  have p: "production eightEnv"
    by (simp add: production_def eightEnv_def eightGuest_def quietAbi_def quietEnv_def)
  have l: "list_all (\<lambda>(A, g, c). replay (abiHost A) = None) (miStart eightStart)" by (simp add: eightStart_def)
  from session_egress [OF p l c s] have "list_all (\<lambda>a. apPort (destination (iState i') a) = 53) (net (iState i'))"
    by (simp add: list_all_iff)
  with c s n show ?thesis by blast
qed

end
